(* ===== verification/Prelude.thy ===== *)
theory Prelude
  imports Main "HOL-Library.Word" "HOL-Library.Multiset" "HOL-Library.Sublist"
begin

text \<open>
  The shared base of the development: machine-integer synonyms, the standard library
  types the sources use (\<^verbatim>\<open>std::net\<close> addresses, \<^verbatim>\<open>std::io\<close> errors), panics as values, and
  the generic lemmas that the component theories share.

  Sizes and counts of type \<^verbatim>\<open>usize\<close> are \<^typ>\<open>nat\<close>: every one the sources compute is the
  length of a buffer in memory or a sum bounded by such a length (the bound is proved where
  a sum occurs), so it never wraps.
\<close>

named_theorems turn_defs \<open>definitions to unfold when a turn of the event loop is evaluated on concrete values\<close>

section \<open>Machine words and byte strings\<close>

type_synonym u8 = "8 word"
type_synonym u16 = "16 word"
type_synonym u32 = "32 word"
type_synonym u128 = "128 word"
type_synonym bytes = "u8 list"

section \<open>Socket addresses of the standard library\<close>

datatype ip_addr = IpV4 u32 | IpV6 u128

text \<open>
  \<^verbatim>\<open>std::net::SocketAddr\<close>. Equality and hashing look at all four fields of a V6 address, so the
  flow information and the scope identifier are kept.
\<close>

datatype socket_addr =
    SocketAddrV4 u32 u16
  | SocketAddrV6 u128 u16 u32 u32

text \<open>\<^verbatim>\<open>SocketAddr::new\<close>: a V6 address gets flow information and scope identifier 0.\<close>

fun SocketAddr_new :: "ip_addr \<Rightarrow> u16 \<Rightarrow> socket_addr" where
  "SocketAddr_new (IpV4 a) p = SocketAddrV4 a p"
| "SocketAddr_new (IpV6 a) p = SocketAddrV6 a p 0 0"

fun addr_ip :: "socket_addr \<Rightarrow> ip_addr" where
  "addr_ip (SocketAddrV4 a p) = IpV4 a"
| "addr_ip (SocketAddrV6 a p f s) = IpV6 a"

fun addr_port :: "socket_addr \<Rightarrow> u16" where
  "addr_port (SocketAddrV4 a p) = p"
| "addr_port (SocketAddrV6 a p f s) = p"

text \<open>
  An address in normal form is one that \<^verbatim>\<open>SocketAddr::new\<close> rebuilds from its own address and
  port. A V6 address with a scope is not.
\<close>

definition addr_normal :: "socket_addr \<Rightarrow> bool" where
  "addr_normal a \<longleftrightarrow> SocketAddr_new (addr_ip a) (addr_port a) = a"

lemma addr_normal_V4 [simp]: "addr_normal (SocketAddrV4 a p)"
  by (simp add: addr_normal_def)

lemma addr_normal_V6 [simp]: "addr_normal (SocketAddrV6 a p f s) \<longleftrightarrow> f = 0 \<and> s = 0"
  by (auto simp: addr_normal_def)

lemma addr_normal_new [simp]: "addr_normal (SocketAddr_new i p)"
  by (cases i) simp_all

lemma addr_new_inject [simp]:
  "SocketAddr_new i p = SocketAddr_new j q \<longleftrightarrow> i = j \<and> p = q"
  by (cases i; cases j) auto

lemma addr_new_sel [simp]:
  "addr_ip (SocketAddr_new i p) = i" "addr_port (SocketAddr_new i p) = p"
  by (cases i; simp)+

section \<open>Errors and panics\<close>

datatype error_kind = NotFound | BrokenPipe | UnexpectedEof | WriteZero | Other

text \<open>
  \<^verbatim>\<open>std::io::Error\<close>, built by \<^verbatim>\<open>Error::from(kind)\<close> or by \<^verbatim>\<open>Error::new(kind, payload)\<close>; the payload
  is kept as its text.
\<close>

datatype io_error = Error_from error_kind | Error_new error_kind string

type_synonym 'a io_result = "io_error + 'a"

fun io_kind :: "io_error \<Rightarrow> error_kind" where
  "io_kind (Error_from k) = k"
| "io_kind (Error_new k m) = k"

text \<open>The places where the sources panic.\<close>

datatype panic =
    Panic_socket_set      \<comment> \<open>\<^verbatim>\<open>SocketSet::get_mut\<close> or \<^verbatim>\<open>remove\<close> on a bad handle\<close>
  | Panic_unreachable     \<comment> \<open>\<^verbatim>\<open>unreachable!()\<close>\<close>
  | Panic_expect string   \<comment> \<open>\<^verbatim>\<open>expect\<close> and \<^verbatim>\<open>panic!\<close> with a message\<close>
  | Panic_unwrap          \<comment> \<open>\<^verbatim>\<open>unwrap\<close> of a \<^verbatim>\<open>None\<close> or an \<^verbatim>\<open>Err\<close>\<close>
  | Dangling_arc          \<comment> \<open>no panic of the program: an access to a freed \<^verbatim>\<open>Arc\<close>, kept as an
                               outcome so that its absence is a theorem\<close>

type_synonym 'a outcome = "panic + 'a"

definition returns :: "'a outcome \<Rightarrow> bool" where
  "returns r \<longleftrightarrow> (\<exists>x. r = Inr x)"

lemma returns_simps [simp]: "returns (Inr x)" "\<not> returns (Inl p)"
  by (simp_all add: returns_def)

lemma returnsE: "returns r \<Longrightarrow> (\<And>x. r = Inr x \<Longrightarrow> P) \<Longrightarrow> P"
  by (auto simp: returns_def)

text \<open>Sequencing: a panic ends the computation.\<close>

definition obind :: "'a outcome \<Rightarrow> ('a \<Rightarrow> 'b outcome) \<Rightarrow> 'b outcome" where
  "obind r f = (case r of Inl p \<Rightarrow> Inl p | Inr x \<Rightarrow> f x)"

lemma obind_simps [simp]: "obind (Inr x) f = f x" "obind (Inl p) f = Inl p"
  by (simp_all add: obind_def)

lemma obind_eq_Inr: "obind r f = Inr y \<longleftrightarrow> (\<exists>x. r = Inr x \<and> f x = Inr y)"
  by (cases r) auto

lemma obind_InrE:
  assumes "obind r f = Inr y" obtains x where "r = Inr x" "f x = Inr y"
  using assms by (auto simp: obind_eq_Inr)

text \<open>A \<^verbatim>\<open>for\<close> loop whose body may panic: the loop stops at the first panic.\<close>

fun for_each :: "('a \<Rightarrow> 's \<Rightarrow> 's outcome) \<Rightarrow> 'a list \<Rightarrow> 's \<Rightarrow> 's outcome" where
  "for_each f [] s = Inr s"
| "for_each f (x # xs) s = (case f x s of Inl p \<Rightarrow> Inl p | Inr s' \<Rightarrow> for_each f xs s')"

lemma for_each_append:
  "for_each f (xs @ ys) s = (case for_each f xs s of Inl p \<Rightarrow> Inl p | Inr s' \<Rightarrow> for_each f ys s')"
  by (induction xs arbitrary: s) (auto split: sum.splits)

text \<open>The loop rule: an invariant that no iteration breaks, under which no iteration panics.\<close>

lemma for_each_total:
  assumes "I s" and "\<And>x s. x \<in> set xs \<Longrightarrow> I s \<Longrightarrow> \<exists>s'. f x s = Inr s' \<and> I s'"
  shows "\<exists>s'. for_each f xs s = Inr s' \<and> I s'"
  using assms
proof (induction xs arbitrary: s)
  case Nil
  then show ?case by simp
next
  case (Cons x xs)
  then obtain s' where "f x s = Inr s'" "I s'" by (metis list.set_intros(1))
  with Cons show ?case by simp
qed

lemma for_each_inv:
  assumes "for_each f xs s = Inr s'" and "I s"
    and "\<And>x s s'. x \<in> set xs \<Longrightarrow> I s \<Longrightarrow> f x s = Inr s' \<Longrightarrow> I s'"
  shows "I s'"
  using assms
proof (induction xs arbitrary: s)
  case Nil
  then show ?case by simp
next
  case (Cons x xs)
  then obtain t where "f x s = Inr t" "for_each f xs t = Inr s'" by (auto split: sum.splits)
  with Cons show ?case by (metis list.set_intros)
qed

section \<open>Lists and multisets\<close>

lemma count_list_update:
  "i < length xs \<Longrightarrow>
   count_list (xs[i := y]) z + (if xs ! i = z then 1 else 0) = count_list xs z + (if y = z then 1 else 0)"
proof (induction xs arbitrary: i)
  case Nil
  then show ?case by simp
next
  case (Cons x xs)
  show ?case
  proof (cases i)
    case (Suc j)
    with Cons.prems Cons.IH[of j] show ?thesis by (auto split: if_splits)
  qed simp
qed

lemma mset_nth_update:
  "i < length xs \<Longrightarrow> mset (xs[i := x]) + {#xs ! i#} = mset xs + {#x#}"
  by (simp add: mset_update)

section \<open>Labelled runs\<close>

text \<open>A run of a labelled step relation, with the labels it took in order.\<close>

inductive run :: "('s \<Rightarrow> 'e \<Rightarrow> 's \<Rightarrow> bool) \<Rightarrow> 's \<Rightarrow> 'e list \<Rightarrow> 's \<Rightarrow> bool" for step where
  run_nil [intro!, simp]: "run step s [] s"
| run_snoc: "run step s es t \<Longrightarrow> step t e u \<Longrightarrow> run step s (es @ [e]) u"

inductive_cases run_nilE [elim!]: "run step s [] t"
inductive_cases run_snocE: "run step s (es @ [e]) t"

lemma run_single: "step s e t \<Longrightarrow> run step s [e] t"
  using run_snoc[OF run_nil] by fastforce

lemma run_append: "run step t fs u \<Longrightarrow> run step s es t \<Longrightarrow> run step s (es @ fs) u"
proof (induction rule: run.induct)
  case (run_nil t)
  then show ?case by simp
next
  case (run_snoc t fs u e v)
  then show ?case using run.run_snoc[of step s "es @ fs" u e v] by simp
qed

end
