(* ===== verification/Notify_Channel.thy ===== *)
theory Notify_Channel
  imports Prelude
begin

text \<open>
  \<^verbatim>\<open>src/notify_channel.rs\<close>: an unbounded channel whose receiver can wait asynchronously. It pairs
  a crossbeam channel with an \<^verbatim>\<open>event_listener::Event\<close> that every send notifies. Both crates are
  parameters: a record of the functions the source calls, over an abstract channel state
  \<open>'c\<close>, event state \<open>'e\<close> and listener \<open>'l\<close>.
\<close>

section \<open>The two crates\<close>

datatype try_recv_error = Empty | Disconnected

record ('c, 'a) crossbeam =
  cb_unbounded :: 'c                                       \<comment> \<open>\<^verbatim>\<open>unbounded()\<close>\<close>
  cb_send :: "'a \<Rightarrow> 'c \<Rightarrow> 'a + 'c"                          \<comment> \<open>\<^const>\<open>Inl\<close>: \<^verbatim>\<open>SendError\<close> with the message\<close>
  cb_try_recv :: "'c \<Rightarrow> (try_recv_error + 'a) \<times> 'c"
  cb_is_empty :: "'c \<Rightarrow> bool"
  cb_drop_receiver :: "'c \<Rightarrow> 'a list \<times> 'c"                \<comment> \<open>drop of the only receiver: the messages dropped with it\<close>

record ('e, 'l) event_crate =
  el_new :: 'e
  el_notify :: "nat \<Rightarrow> 'e \<Rightarrow> 'e"
  el_listen :: "'e \<Rightarrow> 'l \<times> 'e"
  el_poll :: "'l \<Rightarrow> 'e \<Rightarrow> bool \<times> 'e"                       \<comment> \<open>one poll of \<^verbatim>\<open>listener.await\<close>\<close>
  el_drop :: "'l \<Rightarrow> 'e \<Rightarrow> 'e"

text \<open>
  Documented behaviour of crossbeam's unbounded channel, in terms of its content \<open>q\<close>, whether a
  sender is left (\<open>tx\<close>) and whether a receiver is left (\<open>rx\<close>): messages are received in the order
  in which they were sent; sending fails, and returns the message, only when every receiver is
  gone; receiving from an empty channel reports whether a sender is left; dropping the receiver
  drops the messages that are left.
\<close>

definition crossbeam_laws ::
  "('c, 'a) crossbeam \<Rightarrow> ('c \<Rightarrow> 'a list) \<Rightarrow> ('c \<Rightarrow> bool) \<Rightarrow> ('c \<Rightarrow> bool) \<Rightarrow> bool" where
  "crossbeam_laws C q tx rx \<longleftrightarrow>
     q (cb_unbounded C) = [] \<and> tx (cb_unbounded C) \<and> rx (cb_unbounded C) \<and>
     (\<forall>c v. rx c \<longrightarrow> (\<exists>c'. cb_send C v c = Inr c' \<and> q c' = q c @ [v] \<and> tx c' = tx c \<and> rx c')) \<and>
     (\<forall>c v. \<not> rx c \<longrightarrow> cb_send C v c = Inl v) \<and>
     (\<forall>c x xs. q c = x # xs \<longrightarrow>
        (\<exists>c'. cb_try_recv C c = (Inr x, c') \<and> q c' = xs \<and> tx c' = tx c \<and> rx c' = rx c)) \<and>
     (\<forall>c. q c = [] \<longrightarrow> cb_try_recv C c = (Inl (if tx c then Empty else Disconnected), c)) \<and>
     (\<forall>c. cb_is_empty C c \<longleftrightarrow> q c = []) \<and>
     (\<forall>c. \<exists>c'. cb_drop_receiver C c = (q c, c') \<and> q c' = [] \<and> tx c' = tx c \<and> \<not> rx c')"

lemma crossbeam_send_ok:
  "crossbeam_laws C q tx rx \<Longrightarrow> rx c \<Longrightarrow>
   \<exists>c'. cb_send C v c = Inr c' \<and> q c' = q c @ [v] \<and> tx c' = tx c \<and> rx c'"
  by (simp add: crossbeam_laws_def)

lemma crossbeam_send_err: "crossbeam_laws C q tx rx \<Longrightarrow> \<not> rx c \<Longrightarrow> cb_send C v c = Inl v"
  by (simp add: crossbeam_laws_def)

lemma crossbeam_sendD:
  assumes "crossbeam_laws C q tx rx" "cb_send C v c = Inr c'"
  shows "rx c \<and> q c' = q c @ [v] \<and> tx c' = tx c \<and> rx c'"
  using crossbeam_send_ok[OF assms(1), of c v] crossbeam_send_err[OF assms(1), of c v] assms(2)
  by (cases "rx c") auto

lemma crossbeam_send_errD:
  assumes "crossbeam_laws C q tx rx" "cb_send C v c = Inl v'"
  shows "v' = v \<and> \<not> rx c"
  using crossbeam_send_ok[OF assms(1), of c v] crossbeam_send_err[OF assms(1), of c v] assms(2)
  by (cases "rx c") auto

lemma crossbeam_is_empty: "crossbeam_laws C q tx rx \<Longrightarrow> cb_is_empty C c \<longleftrightarrow> q c = []"
  by (simp add: crossbeam_laws_def)

lemma crossbeam_recv_Cons:
  "crossbeam_laws C q tx rx \<Longrightarrow> q c = x # xs \<Longrightarrow>
   \<exists>c'. cb_try_recv C c = (Inr x, c') \<and> q c' = xs \<and> tx c' = tx c \<and> rx c' = rx c"
  by (simp add: crossbeam_laws_def)

lemma crossbeam_drop:
  "crossbeam_laws C q tx rx \<Longrightarrow> \<exists>c'. cb_drop_receiver C c = (q c, c') \<and> q c' = [] \<and> tx c' = tx c \<and> \<not> rx c'"
  by (simp add: crossbeam_laws_def)

lemma crossbeam_recv_Nil:
  "crossbeam_laws C q tx rx \<Longrightarrow> q c = [] \<Longrightarrow>
   cb_try_recv C c = (Inl (if tx c then Empty else Disconnected), c)"
  by (simp add: crossbeam_laws_def)

text \<open>
  Documented behaviour of \<^verbatim>\<open>event_listener\<close> when there is at most one listener, in terms of the
  set of active listeners and which of them are notified: a new listener becomes active; notifying
  one notifies the active one; awaiting a notified listener completes and consumes it; an
  unnotified one stays.
\<close>

definition event_laws ::
  "('e, 'l) event_crate \<Rightarrow> ('e \<Rightarrow> 'l set) \<Rightarrow> ('e \<Rightarrow> 'l \<Rightarrow> bool) \<Rightarrow> bool" where
  "event_laws E active notified \<longleftrightarrow>
     active (el_new E) = {} \<and>
     (\<forall>e l e'. active e = {} \<longrightarrow> el_listen E e = (l, e') \<longrightarrow> active e' = {l} \<and> \<not> notified e' l) \<and>
     (\<forall>e. active e = {} \<longrightarrow> active (el_notify E 1 e) = {}) \<and>
     (\<forall>e l. active e = {l} \<longrightarrow> active (el_notify E 1 e) = {l} \<and> notified (el_notify E 1 e) l) \<and>
     (\<forall>e l. active e = {l} \<longrightarrow> notified e l \<longrightarrow> (\<exists>e'. el_poll E l e = (True, e') \<and> active e' = {})) \<and>
     (\<forall>e l. active e = {l} \<longrightarrow> \<not> notified e l \<longrightarrow>
        (\<exists>e'. el_poll E l e = (False, e') \<and> active e' = {l} \<and> \<not> notified e' l)) \<and>
     (\<forall>e l. active e = {l} \<longrightarrow> active (el_drop E l e) = {})"

section \<open>The channel\<close>

text \<open>\<^verbatim>\<open>NotifySender\<close> and \<^verbatim>\<open>NotifyReceiver\<close> are two ends of this state; each holds both parts.\<close>

record ('c, 'e) notify_channel =
  nc_chan :: 'c
  nc_event :: 'e

definition notify_new :: "('c, 'a) crossbeam \<Rightarrow> ('e, 'l) event_crate \<Rightarrow> ('c, 'e) notify_channel" where
  "notify_new C E = \<lparr>nc_chan = cb_unbounded C, nc_event = el_new E\<rparr>"

text \<open>\<^verbatim>\<open>Result<(), SendError<T>>\<close>.\<close>

datatype 'a send_result = Sent | SendError 'a

definition notify_send ::
  "('c, 'a) crossbeam \<Rightarrow> ('e, 'l) event_crate \<Rightarrow> 'a \<Rightarrow> ('c, 'e) notify_channel
   \<Rightarrow> 'a send_result \<times> ('c, 'e) notify_channel" where
  "notify_send C E v ch =
     (case cb_send C v (nc_chan ch) of
        Inl v' \<Rightarrow> (SendError v', ch)
      | Inr c' \<Rightarrow> (Sent, ch\<lparr>nc_chan := c', nc_event := el_notify E 1 (nc_event ch)\<rparr>))"

text \<open>
  The loop of \<^verbatim>\<open>collect_nonblock\<close>. For an arbitrary crate it need not end, so it is a partial
  function; that it returns for a channel that keeps the documented behaviour is proved below.
\<close>

partial_function (option) collect_loop ::
  "('c, 'a) crossbeam \<Rightarrow> 'a list \<Rightarrow> 'c \<Rightarrow> ((try_recv_error + 'a list) \<times> 'c) option" where
  "collect_loop C items c =
     (case cb_try_recv C c of
        (Inr item, c') \<Rightarrow> collect_loop C (items @ [item]) c'
      | (Inl Disconnected, c') \<Rightarrow> Some (Inl Disconnected, c')
      | (Inl Empty, c') \<Rightarrow> Some (Inr items, c'))"

definition collect_nonblock ::
  "('c, 'a) crossbeam \<Rightarrow> ('c, 'e) notify_channel
   \<Rightarrow> ((try_recv_error + 'a list) \<times> ('c, 'e) notify_channel) option" where
  "collect_nonblock C ch =
     (case collect_loop C [] (nc_chan ch) of
        None \<Rightarrow> None
      | Some (r, c') \<Rightarrow> Some (r, ch\<lparr>nc_chan := c'\<rparr>))"

lemma collect_loop_result:
  assumes "crossbeam_laws C q tx rx"
  shows "\<exists>c'. collect_loop C items c = Some (if tx c then Inr (items @ q c) else Inl Disconnected, c')
           \<and> q c' = [] \<and> tx c' = tx c \<and> rx c' = rx c"
proof (induction "q c" arbitrary: items c)
  case Nil
  then show ?case using crossbeam_recv_Nil[OF assms, of c] by (simp add: collect_loop.simps)
next
  case (Cons x xs)
  then obtain c' where c': "cb_try_recv C c = (Inr x, c')" "q c' = xs" "tx c' = tx c" "rx c' = rx c"
    using crossbeam_recv_Cons[OF assms, of c x xs] by auto
  have "collect_loop C items c = collect_loop C (items @ [x]) c'"
    by (subst collect_loop.simps) (simp add: c')
  with Cons(1)[of c' "items @ [x]"] c' Cons(2)[symmetric] show ?case
    by (cases "tx c") auto
qed

text \<open>
  \<^verbatim>\<open>collect_nonblock\<close> always returns. It empties the channel and yields its whole
  content in sending order while a sender is left; when none is left it reports the
  disconnection, and the messages it had already taken are gone.
\<close>
theorem collect_nonblock_all:
  assumes "crossbeam_laws C q tx rx"
  shows "\<exists>ch'. collect_nonblock C ch =
      Some (if tx (nc_chan ch) then Inr (q (nc_chan ch)) else Inl Disconnected, ch')
    \<and> q (nc_chan ch') = [] \<and> tx (nc_chan ch') = tx (nc_chan ch) \<and> rx (nc_chan ch') = rx (nc_chan ch)
    \<and> nc_event ch' = nc_event ch"
  using collect_loop_result[OF assms, of "[]" "nc_chan ch"]
  by (auto simp: collect_nonblock_def)

section \<open>Waiting\<close>

text \<open>
  \<^verbatim>\<open>NotifyReceiver::wait\<close> runs concurrently with senders, so it is modelled at the grain of its
  accesses to shared state: the first emptiness check, the creation of the listener, the second
  check, and the polls of the listener. A send is two steps, the push and the notification,
  between which other threads run; \<open>ws_inflight\<close> counts the sends in between.
\<close>

datatype 'l wait_pc =
    W_top            \<comment> \<open>top of the loop, before the first check\<close>
  | W_listen         \<comment> \<open>before \<^verbatim>\<open>listener!\<close>\<close>
  | W_recheck 'l     \<comment> \<open>before the second check\<close>
  | W_await 'l       \<comment> \<open>suspended in \<^verbatim>\<open>listener.await\<close>\<close>
  | W_returned

fun wait_step ::
  "('c, 'a) crossbeam \<Rightarrow> ('e, 'l) event_crate \<Rightarrow> 'l wait_pc \<times> ('c, 'e) notify_channel
   \<Rightarrow> 'l wait_pc \<times> ('c, 'e) notify_channel" where
  "wait_step C E (W_top, ch) =
     (if \<not> cb_is_empty C (nc_chan ch) then (W_returned, ch) else (W_listen, ch))"
| "wait_step C E (W_listen, ch) =
     (let (l, e') = el_listen E (nc_event ch) in (W_recheck l, ch\<lparr>nc_event := e'\<rparr>))"
| "wait_step C E (W_recheck l, ch) =
     (if \<not> cb_is_empty C (nc_chan ch)
      then (W_returned, ch\<lparr>nc_event := el_drop E l (nc_event ch)\<rparr>)
      else (W_await l, ch))"
| "wait_step C E (W_await l, ch) =
     (let (ready, e') = el_poll E l (nc_event ch)
      in (if ready then W_top else W_await l, ch\<lparr>nc_event := e'\<rparr>))"
| "wait_step C E (W_returned, ch) = (W_returned, ch)"

record ('c, 'e, 'l) wait_sys =
  ws_pc :: "'l wait_pc"
  ws_ch :: "('c, 'e) notify_channel"
  ws_inflight :: nat

definition wait_init :: "('c, 'a) crossbeam \<Rightarrow> ('e, 'l) event_crate \<Rightarrow> ('c, 'e, 'l) wait_sys" where
  "wait_init C E = \<lparr>ws_pc = W_top, ws_ch = notify_new C E, ws_inflight = 0\<rparr>"

definition wait_turn ::
  "('c, 'a) crossbeam \<Rightarrow> ('e, 'l) event_crate \<Rightarrow> ('c, 'e, 'l) wait_sys \<Rightarrow> ('c, 'e, 'l) wait_sys" where
  "wait_turn C E s = (let (pc, ch) = wait_step C E (ws_pc s, ws_ch s) in s\<lparr>ws_pc := pc, ws_ch := ch\<rparr>)"

inductive wait_sys_step ::
  "('c, 'a) crossbeam \<Rightarrow> ('e, 'l) event_crate \<Rightarrow> ('c, 'e, 'l) wait_sys \<Rightarrow> ('c, 'e, 'l) wait_sys \<Rightarrow> bool"
  for C E where
  receiver: "wait_sys_step C E s (wait_turn C E s)"
| push: "cb_send C v (nc_chan (ws_ch s)) = Inr c' \<Longrightarrow>
    wait_sys_step C E s (s\<lparr>ws_ch := (ws_ch s)\<lparr>nc_chan := c'\<rparr>, ws_inflight := Suc (ws_inflight s)\<rparr>)"
| notify: "ws_inflight s = Suc n \<Longrightarrow>
    wait_sys_step C E s (s\<lparr>ws_ch := (ws_ch s)\<lparr>nc_event := el_notify E 1 (nc_event (ws_ch s))\<rparr>,
                            ws_inflight := n\<rparr>)"

inductive wait_reach ::
  "('c, 'a) crossbeam \<Rightarrow> ('e, 'l) event_crate \<Rightarrow> ('c, 'e, 'l) wait_sys \<Rightarrow> bool" for C E where
  wait_start: "wait_reach C E (wait_init C E)"
| wait_next: "wait_reach C E s \<Longrightarrow> wait_sys_step C E s t \<Longrightarrow> wait_reach C E t"

text \<open>
  Running a \<^verbatim>\<open>send\<close> without interruption is the push followed by the notification.
\<close>

lemma notify_send_two_steps:
  "notify_send C E v ch = (Sent, ch') \<longleftrightarrow>
     (\<exists>c'. cb_send C v (nc_chan ch) = Inr c' \<and>
       ch' = (ch\<lparr>nc_chan := c'\<rparr>)\<lparr>nc_event := el_notify E 1 (nc_event ch)\<rparr>)"
  by (auto simp: notify_send_def split: sum.splits)

text \<open>
  The invariant: the receiver's listener is the only active one, and a suspended receiver in front
  of a non-empty channel has been notified or is about to be.
\<close>

definition wait_inv ::
  "('c \<Rightarrow> 'a list) \<Rightarrow> ('e \<Rightarrow> 'l set) \<Rightarrow> ('e \<Rightarrow> 'l \<Rightarrow> bool) \<Rightarrow> ('c, 'e, 'l) wait_sys \<Rightarrow> bool" where
  "wait_inv q active notified s \<longleftrightarrow>
     (case ws_pc s of
        W_recheck l \<Rightarrow> active (nc_event (ws_ch s)) = {l}
      | W_await l \<Rightarrow> active (nc_event (ws_ch s)) = {l} \<and>
          (q (nc_chan (ws_ch s)) \<noteq> [] \<longrightarrow> ws_inflight s = 0 \<longrightarrow> notified (nc_event (ws_ch s)) l)
      | _ \<Rightarrow> active (nc_event (ws_ch s)) = {})"

lemma event_listenD:
  "event_laws E active notified \<Longrightarrow> active e = {} \<Longrightarrow> el_listen E e = (l, e') \<Longrightarrow> active e' = {l}"
  by (simp add: event_laws_def)

lemma event_notify_none:
  "event_laws E active notified \<Longrightarrow> active e = {} \<Longrightarrow> active (el_notify E 1 e) = {}"
  by (simp add: event_laws_def)

lemma event_notify_one:
  "event_laws E active notified \<Longrightarrow> active e = {l} \<Longrightarrow>
   active (el_notify E 1 e) = {l} \<and> notified (el_notify E 1 e) l"
  by (simp add: event_laws_def)

lemma event_poll_ready:
  "event_laws E active notified \<Longrightarrow> active e = {l} \<Longrightarrow> notified e l \<Longrightarrow>
   \<exists>e'. el_poll E l e = (True, e') \<and> active e' = {}"
  by (simp add: event_laws_def)

lemma event_poll_pending:
  "event_laws E active notified \<Longrightarrow> active e = {l} \<Longrightarrow> \<not> notified e l \<Longrightarrow>
   \<exists>e'. el_poll E l e = (False, e') \<and> active e' = {l} \<and> \<not> notified e' l"
  by (simp add: event_laws_def)

lemma event_drop: "event_laws E active notified \<Longrightarrow> active e = {l} \<Longrightarrow> active (el_drop E l e) = {}"
  by (simp add: event_laws_def)

lemma wait_turn_inv:
  assumes C: "crossbeam_laws C q tx rx" and E: "event_laws E active notified"
    and inv: "wait_inv q active notified s"
  shows "wait_inv q active notified (wait_turn C E s)"
proof (cases "ws_pc s")
  case W_top
  then show ?thesis using inv by (simp add: wait_inv_def wait_turn_def)
next
  case W_listen
  then show ?thesis using inv event_listenD[OF E]
    by (auto simp: wait_inv_def wait_turn_def split: prod.splits)
next
  case (W_recheck l)
  then show ?thesis using inv event_drop[OF E] crossbeam_is_empty[OF C]
    by (auto simp: wait_inv_def wait_turn_def)
next
  case (W_await l)
  then have a: "active (nc_event (ws_ch s)) = {l}"
    and nt: "q (nc_chan (ws_ch s)) \<noteq> [] \<longrightarrow> ws_inflight s = 0 \<longrightarrow> notified (nc_event (ws_ch s)) l"
    using inv by (auto simp: wait_inv_def)
  show ?thesis
    using event_poll_ready[OF E a] event_poll_pending[OF E a] nt W_await
    by (cases "notified (nc_event (ws_ch s)) l") (auto simp: wait_inv_def wait_turn_def)
next
  case W_returned
  then show ?thesis using inv by (simp add: wait_inv_def wait_turn_def)
qed

lemma wait_step_inv:
  assumes C: "crossbeam_laws C q tx rx" and E: "event_laws E active notified"
    and "wait_sys_step C E s t" "wait_inv q active notified s"
  shows "wait_inv q active notified t"
  using assms(3,4)
proof (induction rule: wait_sys_step.induct)
  case (receiver s)
  then show ?case by (rule wait_turn_inv[OF C E])
next
  case (push v s c')
  then show ?case by (auto simp: wait_inv_def split: wait_pc.splits)
next
  case (notify s n)
  then show ?case using event_notify_none[OF E] event_notify_one[OF E]
    by (auto simp: wait_inv_def split: wait_pc.splits)
qed

lemma wait_reach_inv:
  assumes "crossbeam_laws C q tx rx" "event_laws E active notified" "wait_reach C E s"
  shows "wait_inv q active notified s"
  using assms(3)
proof (induction rule: wait_reach.induct)
  case wait_start
  then show ?case using assms(2)
    by (simp add: wait_inv_def wait_init_def notify_new_def event_laws_def)
next
  case (wait_next s t)
  then show ?case by (blast intro: wait_step_inv[OF assms(1,2)])
qed

text \<open>
  C13 (liveness). No wakeup is lost: in every reachable interleaving with the senders, once the
  channel holds a message and no send is half done, the receiver returns from \<^verbatim>\<open>wait\<close> within two of
  its own steps, wherever it is. It is never left suspended in front of a message.
\<close>
theorem wait_no_lost_wakeup:
  assumes "crossbeam_laws C q tx rx" "event_laws E active notified" "wait_reach C E s"
    and "q (nc_chan (ws_ch s)) \<noteq> []" "ws_inflight s = 0"
  shows "ws_pc ((wait_turn C E ^^ 2) s) = W_returned"
proof -
  have inv: "wait_inv q active notified s" by (rule wait_reach_inv[OF assms(1,2,3)])
  have ne: "\<not> cb_is_empty C (nc_chan (ws_ch s))"
    using assms(4) crossbeam_is_empty[OF assms(1)] by simp
  show ?thesis
  proof (cases "ws_pc s")
    case (W_await l)
    then obtain e' where "el_poll E l (nc_event (ws_ch s)) = (True, e')"
      using inv assms(4,5) event_poll_ready[OF assms(2), of "nc_event (ws_ch s)" l]
      by (auto simp: wait_inv_def)
    then show ?thesis using W_await ne by (simp add: eval_nat_numeral wait_turn_def)
  qed (use ne in \<open>simp_all add: eval_nat_numeral wait_turn_def split: prod.splits\<close>)
qed

text \<open>
  C40 (liveness). Without a message nothing ends the wait: from the top of the loop in front of an empty
  channel the receiver alone never returns, whether or not a sender is left. A receiver whose
  senders are all gone therefore waits for ever, and the disconnection is never reported.
\<close>
theorem wait_empty_never_returns:
  assumes "crossbeam_laws C q tx rx" "event_laws E active notified"
    and "active (nc_event (ws_ch s)) = {}" "q (nc_chan (ws_ch s)) = []" "ws_pc s = W_top"
  shows "ws_pc ((wait_turn C E ^^ n) s) \<noteq> W_returned"
proof -
  let ?I = "\<lambda>s. q (nc_chan (ws_ch s)) = [] \<and> wait_inv q active notified s \<and> ws_pc s \<noteq> W_returned"
  have step: "?I (wait_turn C E s)" if "?I s" for s
    using that wait_turn_inv[OF assms(1,2), of s] crossbeam_is_empty[OF assms(1)]
    by (cases "ws_pc s") (auto simp: wait_turn_def split: prod.splits)
  have "?I s" using assms(3-5) by (simp add: wait_inv_def)
  then have "?I ((wait_turn C E ^^ n) s)"
    by (induction n) (use step in auto)
  then show ?thesis by simp
qed

section \<open>Instances of the two crates\<close>

text \<open>
  A queue in a list and a single listener slot keep the documented behaviour; the witnesses use
  them.
\<close>

definition list_crossbeam :: "('a list \<times> bool \<times> bool, 'a) crossbeam" where
  "list_crossbeam = \<lparr>cb_unbounded = ([], True, True),
     cb_send = (\<lambda>v (q, t, r). if r then Inr (q @ [v], t, r) else Inl v),
     cb_try_recv = (\<lambda>(q, t, r). case q of
        [] \<Rightarrow> (Inl (if t then Empty else Disconnected), (q, t, r))
      | x # xs \<Rightarrow> (Inr x, (xs, t, r))),
     cb_is_empty = (\<lambda>(q, t, r). q = []),
     cb_drop_receiver = (\<lambda>(q, t, r). (q, ([], t, False)))\<rparr>"

definition slot_event :: "(bool option, unit) event_crate" where
  "slot_event = \<lparr>el_new = None, el_notify = (\<lambda>n e. map_option (\<lambda>b. b \<or> 0 < n) e),
     el_listen = (\<lambda>e. ((), Some False)),
     el_poll = (\<lambda>l e. if e = Some True then (True, None) else (False, e)),
     el_drop = (\<lambda>l e. None)\<rparr>"

lemma list_crossbeam_laws:
  "crossbeam_laws list_crossbeam fst (\<lambda>c. fst (snd c)) (\<lambda>c. snd (snd c))"
  by (auto simp: crossbeam_laws_def list_crossbeam_def)

lemma slot_event_laws:
  "event_laws slot_event (\<lambda>e. if e = None then {} else {()}) (\<lambda>e l. e = Some True)"
  by (auto simp: event_laws_def slot_event_def split: if_splits)

theorem collect_nonblock_all_witness:
  "\<exists>ch'. collect_nonblock list_crossbeam \<lparr>nc_chan = ([1, 2::nat], True, True), nc_event = ()\<rparr> =
      Some (Inr [1, 2], ch') \<and> fst (nc_chan ch') = []"
  using collect_nonblock_all[OF list_crossbeam_laws, of "\<lparr>nc_chan = ([1, 2::nat], True, True), nc_event = ()\<rparr>"]
  by auto

text \<open>
  The receiver suspends, a sender pushes and notifies: the state the liveness property speaks of.
\<close>

lemma wait_reach_example:
  "wait_reach list_crossbeam slot_event
     \<lparr>ws_pc = W_await (), ws_ch = \<lparr>nc_chan = ([5::nat], True, True), nc_event = Some True\<rparr>, ws_inflight = 0\<rparr>"
proof -
  let ?s = "\<lambda>pc q e n. \<lparr>ws_pc = pc, ws_ch = \<lparr>nc_chan = (q, True, True), nc_event = e\<rparr>, ws_inflight = n\<rparr>"
  have "wait_reach list_crossbeam slot_event (?s W_top ([]::nat list) None 0)"
    using wait_start[of "list_crossbeam :: (nat list \<times> bool \<times> bool, nat) crossbeam" slot_event]
    by (simp add: wait_init_def notify_new_def list_crossbeam_def slot_event_def)
  from wait_next[OF this receiver] have "wait_reach list_crossbeam slot_event (?s W_listen ([]::nat list) None 0)"
    by (simp add: wait_turn_def list_crossbeam_def)
  from wait_next[OF this receiver]
  have "wait_reach list_crossbeam slot_event (?s (W_recheck ()) ([]::nat list) (Some False) 0)"
    by (simp add: wait_turn_def slot_event_def)
  from wait_next[OF this receiver]
  have "wait_reach list_crossbeam slot_event (?s (W_await ()) ([]::nat list) (Some False) 0)"
    by (simp add: wait_turn_def list_crossbeam_def)
  from wait_next[OF this push[of _ "5::nat" _ "([5], True, True)"]]
  have "wait_reach list_crossbeam slot_event (?s (W_await ()) [5::nat] (Some False) 1)"
    by (simp add: list_crossbeam_def)
  from wait_next[OF this notify[of _ 0]] show ?thesis
    by (simp add: slot_event_def)
qed

theorem wait_no_lost_wakeup_witness:
  "ws_pc ((wait_turn list_crossbeam slot_event ^^ 2)
     \<lparr>ws_pc = W_await (), ws_ch = \<lparr>nc_chan = ([5::nat], True, True), nc_event = Some True\<rparr>, ws_inflight = 0\<rparr>)
   = W_returned"
  by (rule wait_no_lost_wakeup[OF list_crossbeam_laws slot_event_laws wait_reach_example]) simp_all

theorem wait_empty_never_returns_witness:
  "ws_pc ((wait_turn list_crossbeam slot_event ^^ 100)
     \<lparr>ws_pc = W_top, ws_ch = \<lparr>nc_chan = ([]::nat list, False, True), nc_event = None\<rparr>, ws_inflight = 0\<rparr>)
   \<noteq> W_returned"
  by (rule wait_empty_never_returns[OF list_crossbeam_laws slot_event_laws]) simp_all

end
