(* ===== verification/Shared_Buf.thy ===== *)
theory Shared_Buf
  imports Prelude
begin

text \<open>
  \<^verbatim>\<open>src/shared_buf.rs\<close> and the two casts at the end of \<^verbatim>\<open>src/tcp_stack/mod.rs\<close>: the buffer of an
  operation is shared between the future that waits for the operation and the stack that performs
  it, as an \<^verbatim>\<open>Arc\<close> of a \<^verbatim>\<open>SharedBuf\<close> with interior mutability. The future gets the buffer back by
  \<^verbatim>\<open>Arc::into_inner(..).expect(..)\<close>, which panics unless its reference is the last one.

  The \<^verbatim>\<open>compio_buf\<close> traits of the user's buffer type \<open>'b\<close> are a parameter. \<^verbatim>\<open>Arc\<close> is of the standard
  library and is modelled: a store from pointers to a strong count and the shared value.
\<close>

section \<open>Shared buffers\<close>

record 'b io_buf_crate =
  io_as_slice :: "'b \<Rightarrow> bytes"          \<comment> \<open>\<^verbatim>\<open>IoBuf::as_slice\<close>: the initialised bytes\<close>
  io_as_mut_slice :: "'b \<Rightarrow> bytes"      \<comment> \<open>\<^verbatim>\<open>IoBufMut::as_mut_slice\<close>: the memory, its whole capacity\<close>
  io_put :: "bytes \<Rightarrow> 'b \<Rightarrow> 'b"          \<comment> \<open>the memory after a write through the mutable slice\<close>
  io_set_buf_init :: "nat \<Rightarrow> 'b \<Rightarrow> 'b"   \<comment> \<open>\<^verbatim>\<open>SetBufInit::set_buf_init\<close>\<close>

record 'b shared_buf =
  sb_inner :: 'b

definition sb_new :: "'b \<Rightarrow> 'b shared_buf" where
  "sb_new buf = \<lparr>sb_inner = buf\<rparr>"

definition sb_into_inner :: "'b shared_buf \<Rightarrow> 'b" where
  "sb_into_inner sb = sb_inner sb"

definition as_slice :: "'b io_buf_crate \<Rightarrow> 'b shared_buf \<Rightarrow> bytes" where
  "as_slice IO sb = io_as_slice IO (sb_inner sb)"

text \<open>
  \<^verbatim>\<open>as_slice_mut\<close> rebuilds a slice from the pointer and the length of the mutable slice. A callee
  that fills it returns the new memory, which \<open>write_slice_mut\<close> puts back.
\<close>

definition as_slice_mut :: "'b io_buf_crate \<Rightarrow> 'b shared_buf \<Rightarrow> bytes" where
  "as_slice_mut IO sb = (let slice = io_as_mut_slice IO (sb_inner sb); len = length slice in take len slice)"

definition write_slice_mut :: "'b io_buf_crate \<Rightarrow> bytes \<Rightarrow> 'b shared_buf \<Rightarrow> 'b shared_buf" where
  "write_slice_mut IO mem sb = sb\<lparr>sb_inner := io_put IO mem (sb_inner sb)\<rparr>"

definition set_initiated_len :: "'b io_buf_crate \<Rightarrow> nat \<Rightarrow> 'b shared_buf \<Rightarrow> 'b shared_buf" where
  "set_initiated_len IO new_len sb = sb\<lparr>sb_inner := io_set_buf_init IO new_len (sb_inner sb)\<rparr>"

section \<open>Arc\<close>

type_synonym buf_id = nat

record 'a arc_cell =
  arc_strong :: nat
  arc_data :: 'a

type_synonym 'a arcs = "buf_id \<rightharpoonup> 'a arc_cell"

definition arc_new :: "buf_id \<Rightarrow> 'a \<Rightarrow> 'a arcs \<Rightarrow> 'a arcs" where
  "arc_new b v h = h(b \<mapsto> \<lparr>arc_strong = 1, arc_data = v\<rparr>)"

definition arc_clone :: "buf_id \<Rightarrow> 'a arcs \<Rightarrow> 'a arcs" where
  "arc_clone b h = (case h b of None \<Rightarrow> h | Some c \<Rightarrow> h(b \<mapsto> c\<lparr>arc_strong := Suc (arc_strong c)\<rparr>))"

definition arc_drop :: "buf_id \<Rightarrow> 'a arcs \<Rightarrow> 'a arcs" where
  "arc_drop b h =
     (case h b of
        None \<Rightarrow> h
      | Some c \<Rightarrow> if arc_strong c \<le> 1 then h(b := None) else h(b \<mapsto> c\<lparr>arc_strong := arc_strong c - 1\<rparr>))"

definition arc_into_inner :: "buf_id \<Rightarrow> 'a arcs \<Rightarrow> 'a option \<times> 'a arcs" where
  "arc_into_inner b h =
     (case h b of
        None \<Rightarrow> (None, h)
      | Some c \<Rightarrow> if arc_strong c = 1 then (Some (arc_data c), h(b := None)) else (None, arc_drop b h))"

definition arc_update :: "buf_id \<Rightarrow> ('a \<Rightarrow> 'a) \<Rightarrow> 'a arcs \<Rightarrow> 'a arcs" where
  "arc_update b f h = (case h b of None \<Rightarrow> h | Some c \<Rightarrow> h(b \<mapsto> c\<lparr>arc_data := f (arc_data c)\<rparr>))"

definition strong_count :: "'a arcs \<Rightarrow> buf_id \<Rightarrow> nat" where
  "strong_count h b = (case h b of None \<Rightarrow> 0 | Some c \<Rightarrow> arc_strong c)"

lemmas arc_defs = arc_new_def arc_clone_def arc_drop_def arc_into_inner_def arc_update_def strong_count_def

lemma strong_new [simp]: "strong_count (arc_new b v h) b' = (if b' = b then 1 else strong_count h b')"
  by (simp add: arc_defs)

lemma strong_clone [simp]:
  "strong_count (arc_clone b h) b' = (if b' = b \<and> h b \<noteq> None then Suc (strong_count h b') else strong_count h b')"
  by (auto simp: arc_defs split: option.splits)

lemma strong_drop [simp]:
  "strong_count (arc_drop b h) b' = (if b' = b then strong_count h b - 1 else strong_count h b')"
  by (auto simp: arc_defs split: option.splits)

lemma strong_update [simp]: "strong_count (arc_update b f h) b' = strong_count h b'"
  by (auto simp: arc_defs split: option.splits)

lemma strong_pos_live: "0 < strong_count h b \<Longrightarrow> \<exists>c. h b = Some c"
  by (auto simp: strong_count_def split: option.splits)

section \<open>Getting the buffer back\<close>

definition cast_dyn_io_buf :: "buf_id \<Rightarrow> 'b shared_buf arcs \<Rightarrow> ('b \<times> 'b shared_buf arcs) outcome" where
  "cast_dyn_io_buf b h =
     (case arc_into_inner b h of
        (Some sb, h') \<Rightarrow> Inr (sb_into_inner sb, h')
      | (None, h') \<Rightarrow> Inl (Panic_expect ''buf reference count not equal 1''))"

definition cast_dyn_io_buf_mut :: "buf_id \<Rightarrow> 'b shared_buf arcs \<Rightarrow> ('b \<times> 'b shared_buf arcs) outcome" where
  "cast_dyn_io_buf_mut b h =
     (case arc_into_inner b h of
        (Some sb, h') \<Rightarrow> Inr (sb_into_inner sb, h')
      | (None, h') \<Rightarrow> Inl (Panic_expect ''buf reference count not equal 1''))"

lemma cast_dyn_io_buf_mut_eq: "cast_dyn_io_buf_mut b h = cast_dyn_io_buf b h"
  by (simp add: cast_dyn_io_buf_def cast_dyn_io_buf_mut_def)

lemma cast_returns_iff: "returns (cast_dyn_io_buf b h) \<longleftrightarrow> strong_count h b = 1"
  by (auto simp: cast_dyn_io_buf_def arc_into_inner_def strong_count_def split: option.splits)

lemma cast_value:
  "h b = Some \<lparr>arc_strong = 1, arc_data = sb\<rparr> \<Longrightarrow> cast_dyn_io_buf b h = Inr (sb_inner sb, h(b := None))"
  by (simp add: cast_dyn_io_buf_def arc_into_inner_def sb_into_inner_def)

end
