(* ===== verification/Event.thy ===== *)
theory Event
  imports Notify_Channel Shared_Buf
begin

text \<open>
  \<^verbatim>\<open>src/tcp_stack/event.rs\<close> and \<^verbatim>\<open>TypedSocketHandle\<close> of \<^verbatim>\<open>src/tcp_stack/mod.rs\<close>: the requests that
  streams, sockets and wakers send to the stack, and the generator that collects them in batches.
  A buffer is named by its \<^verbatim>\<open>Arc\<close> pointer, the sending half of a result channel by a number.
\<close>

section \<open>Handles and events\<close>

type_synonym socket_handle = nat
type_synonym tx_id = nat

datatype typed_socket_handle = Typed_Tcp socket_handle | Typed_Udp socket_handle

fun typed_into_handle :: "typed_socket_handle \<Rightarrow> socket_handle" where
  "typed_into_handle (Typed_Tcp h) = h"
| "typed_into_handle (Typed_Udp h) = h"

datatype operation_event =
    Ready typed_socket_handle
  | Read socket_handle buf_id tx_id
  | Write socket_handle buf_id tx_id
  | Recv socket_handle buf_id tx_id
  | Send socket_handle socket_addr buf_id tx_id
  | Shutdown typed_socket_handle tx_id
  | Close typed_socket_handle

record events =
  events_list :: "operation_event list"

section \<open>The event generator\<close>

datatype event_error = Event_error try_recv_error

datatype 'a poll = Pending | Poll_ready 'a

text \<open>
  One poll of \<^verbatim>\<open>EventGenerator::generate\<close>: a step of \<^verbatim>\<open>wait\<close>, and once that has returned, the batch.
\<close>

definition generate_poll ::
  "('c, operation_event) crossbeam \<Rightarrow> ('e, 'l) event_crate \<Rightarrow> 'l wait_pc \<times> ('c, 'e) notify_channel
   \<Rightarrow> ((event_error + events) poll \<times> 'l wait_pc \<times> ('c, 'e) notify_channel) option" where
  "generate_poll C E st =
     (case wait_step C E st of
        (W_returned, ch) \<Rightarrow>
          (case collect_nonblock C ch of
             None \<Rightarrow> None
           | Some (Inl e, ch') \<Rightarrow> Some (Poll_ready (Inl (Event_error e)), W_returned, ch')
           | Some (Inr items, ch') \<Rightarrow> Some (Poll_ready (Inr \<lparr>events_list = items\<rparr>), W_returned, ch'))
      | (pc, ch) \<Rightarrow> Some (Pending, pc, ch))"

lemma wait_step_chan:
  assumes "wait_step C E (pc, ch) = (pc', ch')"
  shows "nc_chan ch' = nc_chan ch"
  using assms by (cases pc) (simp_all split: if_splits prod.splits, auto)

lemma wait_step_returned:
  assumes "crossbeam_laws C q tx rx" "pc \<noteq> W_returned" "wait_step C E (pc, ch) = (W_returned, ch')"
  shows "q (nc_chan ch') \<noteq> [] \<and> nc_chan ch' = nc_chan ch"
proof (cases pc)
  case W_listen
  then show ?thesis using assms(3) by (simp split: prod.splits)
next
  case (W_await l)
  then show ?thesis using assms(3) by (simp split: prod.splits if_splits)
qed (use assms(2,3) in \<open>auto simp: crossbeam_is_empty[OF assms(1)] split: if_splits\<close>)

text \<open>
  A poll of the generator always completes. When it is ready while a sender is left,
  it hands out every request that was in the channel, in sending order and at least one, and
  leaves the channel empty: no request is skipped, reordered or delivered to two batches.
\<close>
theorem generate_batch:
  assumes "crossbeam_laws C q tx rx" "pc \<noteq> W_returned" "tx (nc_chan ch)"
  shows "\<exists>r pc' ch'. generate_poll C E (pc, ch) = Some (r, pc', ch') \<and>
    (r = Pending \<and> pc' \<noteq> W_returned \<and> nc_chan ch' = nc_chan ch \<or>
     r = Poll_ready (Inr \<lparr>events_list = q (nc_chan ch)\<rparr>) \<and> q (nc_chan ch) \<noteq> [] \<and> q (nc_chan ch') = [])"
proof -
  obtain pc1 ch1 where w: "wait_step C E (pc, ch) = (pc1, ch1)" by fastforce
  have chan: "nc_chan ch1 = nc_chan ch"
    using w by (rule wait_step_chan)
  show ?thesis
  proof (cases "pc1 = W_returned")
    case True
    with w have "q (nc_chan ch1) \<noteq> []"
      using wait_step_returned[OF assms(1,2)] by blast
    with w True chan show ?thesis
      using collect_loop_result[OF assms(1), of "[]" "nc_chan ch1"] assms(3)
      by (auto simp: generate_poll_def collect_nonblock_def)
  next
    case False
    with w chan show ?thesis by (cases pc1) (auto simp: generate_poll_def)
  qed
qed

theorem generate_batch_witness:
  "\<exists>r pc' ch'. generate_poll list_crossbeam slot_event
       (W_top, \<lparr>nc_chan = ([Ready (Typed_Tcp 1), Close (Typed_Udp 2)], True, True), nc_event = None\<rparr>) = Some (r, pc', ch')"
  using generate_batch[OF list_crossbeam_laws, of W_top
    "\<lparr>nc_chan = ([Ready (Typed_Tcp 1), Close (Typed_Udp 2)], True, True), nc_event = None\<rparr>" slot_event]
  by auto

end
