(* ===== verification/Wake_Fn.thy ===== *)
theory Wake_Fn
  imports Prelude
begin

text \<open>
  \<^verbatim>\<open>src/wake_fn.rs\<close>: a \<^verbatim>\<open>Waker\<close> built from a closure that must run at most once. The closure sits
  in an \<^verbatim>\<open>AtomicOption\<close>, a flag and a \<^verbatim>\<open>ManuallyDrop\<close> value; \<^verbatim>\<open>take\<close> moves the value out under a
  compare-and-exchange on the flag, and the destructor drops the value in place when nobody
  took it. The sequential operations come first, then the interleavings of several threads
  that hold the same \<^verbatim>\<open>Waker\<close>.
\<close>

section \<open>The cell\<close>

record 'f atomic_option =
  ao_used :: bool
  ao_value :: 'f

text \<open>
  \<^verbatim>\<open>AtomicBool::compare_exchange\<close>: the result (\<^const>\<open>Inr\<close> of the old value on success) and the
  new content of the flag.
\<close>

definition compare_exchange :: "bool \<Rightarrow> bool \<Rightarrow> bool \<Rightarrow> (bool + bool) \<times> bool" where
  "compare_exchange cur expected new =
     (if cur = expected then (Inr cur, new) else (Inl cur, cur))"

definition wake_once_fn :: "'f \<Rightarrow> 'f atomic_option" where
  "wake_once_fn f = \<lparr>ao_used = False, ao_value = f\<rparr>"

text \<open>
  \<^verbatim>\<open>AtomicOption::take\<close> accesses the cell twice: the condition of its \<^verbatim>\<open>if\<close>, the exchange and \<^verbatim>\<open>is_ok()\<close>, and the
  \<^verbatim>\<open>ptr::read\<close> in its first branch.
\<close>

definition take_claims :: "'f atomic_option \<Rightarrow> bool \<times> 'f atomic_option" where
  "take_claims a =
     (case compare_exchange (ao_used a) False True of
        (Inr _, u) \<Rightarrow> (True, a\<lparr>ao_used := u\<rparr>)
      | (Inl _, u) \<Rightarrow> (False, a\<lparr>ao_used := u\<rparr>))"

definition take_reads :: "'f atomic_option \<Rightarrow> 'f" where
  "take_reads a = ao_value a"

definition atomic_take :: "'f atomic_option \<Rightarrow> 'f option \<times> 'f atomic_option" where
  "atomic_take a = (case take_claims a of (ok, a') \<Rightarrow> (if ok then Some (take_reads a') else None, a'))"

text \<open>\<^verbatim>\<open>Wake::wake\<close>: the closure that is called, if any.\<close>

definition wake :: "'f atomic_option \<Rightarrow> 'f option \<times> 'f atomic_option" where
  "wake a = (case atomic_take a of (Some f, a') \<Rightarrow> (Some f, a') | (None, a') \<Rightarrow> (None, a'))"

text \<open>\<^verbatim>\<open>Drop for AtomicOption\<close>: the value that is dropped in place, if any.\<close>

definition atomic_drop :: "'f atomic_option \<Rightarrow> 'f option" where
  "atomic_drop a = (if \<not> ao_used a then Some (ao_value a) else None)"

lemma atomic_take_simps [simp]:
  "atomic_take a = (if ao_used a then (None, a) else (Some (ao_value a), a\<lparr>ao_used := True\<rparr>))"
  by (simp add: atomic_take_def take_claims_def take_reads_def compare_exchange_def)

lemma wake_simps [simp]:
  "wake a = (if ao_used a then (None, a) else (Some (ao_value a), a\<lparr>ao_used := True\<rparr>))"
  by (simp add: wake_def)

lemma atomic_drop_simps [simp]:
  "atomic_drop a = (if ao_used a then None else Some (ao_value a))"
  by (simp add: atomic_drop_def)

section \<open>Interleavings of the holders of one waker\<close>

text \<open>
  A \<^verbatim>\<open>Waker\<close> is an \<^verbatim>\<open>Arc\<close> and may be cloned and woken from any thread. A holder has its
  \<^verbatim>\<open>Arc\<close> (\<open>Holding\<close>), has won the exchange inside \<^verbatim>\<open>take\<close> and is about to execute
  \<^verbatim>\<open>ptr::read\<close> and the closure (\<open>Claimed\<close>), or has given its \<^verbatim>\<open>Arc\<close> back (\<open>Released\<close>). A holder
  wakes without interruption (\<open>wake_at_once\<close>), or the exchange and the read of its \<^verbatim>\<open>take\<close> are two steps, with
  other holders running in between. When the last
  holder is gone the destructor runs. \<open>once_reads\<close> logs the closures that were moved out and run,
  \<open>once_drops\<close> the values dropped in place.
\<close>

datatype waker_pc = Holding | Claimed | Released

record 'f once_sys =
  once_cell :: "'f atomic_option"
  once_pcs :: "waker_pc list"
  once_reads :: "'f list"
  once_drops :: "'f list"
  once_freed :: bool

definition once_init :: "'f \<Rightarrow> 'f once_sys" where
  "once_init f = \<lparr>once_cell = wake_once_fn f, once_pcs = [Holding], once_reads = [],
                  once_drops = [], once_freed = False\<rparr>"

inductive once_step :: "'f once_sys \<Rightarrow> 'f once_sys \<Rightarrow> bool" where
  clone: "\<lbrakk>i < length (once_pcs s); once_pcs s ! i = Holding\<rbrakk>
    \<Longrightarrow> once_step s (s\<lparr>once_pcs := once_pcs s @ [Holding]\<rparr>)"
| give_up: "\<lbrakk>i < length (once_pcs s); once_pcs s ! i = Holding\<rbrakk>
    \<Longrightarrow> once_step s (s\<lparr>once_pcs := (once_pcs s)[i := Released]\<rparr>)"
| wake_at_once: "\<lbrakk>i < length (once_pcs s); once_pcs s ! i = Holding; wake (once_cell s) = (called, cell)\<rbrakk>
    \<Longrightarrow> once_step s (s\<lparr>once_cell := cell, once_reads := once_reads s @ (case called of Some f \<Rightarrow> [f] | None \<Rightarrow> []),
                          once_pcs := (once_pcs s)[i := Released]\<rparr>)"
| exchange: "\<lbrakk>i < length (once_pcs s); once_pcs s ! i = Holding; take_claims (once_cell s) = (ok, cell)\<rbrakk>
    \<Longrightarrow> once_step s (s\<lparr>once_cell := cell, once_pcs := (once_pcs s)[i := if ok then Claimed else Released]\<rparr>)"
| read_and_call: "\<lbrakk>i < length (once_pcs s); once_pcs s ! i = Claimed\<rbrakk>
    \<Longrightarrow> once_step s (s\<lparr>once_reads := once_reads s @ [take_reads (once_cell s)],
                          once_pcs := (once_pcs s)[i := Released]\<rparr>)"
| free: "\<lbrakk>list_all (\<lambda>p. p = Released) (once_pcs s); \<not> once_freed s\<rbrakk>
    \<Longrightarrow> once_step s (s\<lparr>once_freed := True,
          once_drops := once_drops s @ (case atomic_drop (once_cell s) of Some v \<Rightarrow> [v] | None \<Rightarrow> [])\<rparr>)"

inductive once_reach :: "'f \<Rightarrow> 'f once_sys \<Rightarrow> bool" for f where
  once_start: "once_reach f (once_init f)"
| once_next: "once_reach f s \<Longrightarrow> once_step s t \<Longrightarrow> once_reach f t"

text \<open>
  An uninterrupted wake is the exchange followed, when it was won, by the read: the two grains describe one
  program.
\<close>

lemma wake_is_exchange_and_read:
  assumes "i < length (once_pcs s)" "once_pcs s ! i = Holding" "wake (once_cell s) = (called, cell)"
  shows "once_step\<^sup>*\<^sup>* s (s\<lparr>once_cell := cell, once_reads := once_reads s @ (case called of Some f \<Rightarrow> [f] | None \<Rightarrow> []),
    once_pcs := (once_pcs s)[i := Released]\<rparr>)"
proof -
  obtain ok where t: "take_claims (once_cell s) = (ok, cell)" and
    called: "called = (if ok then Some (take_reads cell) else None)"
    using assms(3) by (auto simp: wake_def atomic_take_def simp del: atomic_take_simps wake_simps
      split: prod.split_asm option.split_asm if_split_asm)
  let ?s = "s\<lparr>once_cell := cell, once_pcs := (once_pcs s)[i := if ok then Claimed else Released]\<rparr>"
  have 1: "once_step s ?s" by (rule exchange[OF assms(1,2) t])
  show ?thesis
  proof (cases ok)
    case True
    from read_and_call[of i ?s] assms(1) True
    have "once_step ?s (?s\<lparr>once_reads := once_reads s @ [take_reads cell], once_pcs := (once_pcs s)[i := Released]\<rparr>)" by simp
    with 1 show ?thesis by (simp add: called True)
  next
    case False
    with 1 have "once_step s (s\<lparr>once_cell := cell, once_reads := once_reads s, once_pcs := (once_pcs s)[i := Released]\<rparr>)" by simp
    then show ?thesis by (auto simp: called False)
  qed
qed

text \<open>
  The inductive invariant: the flag is set exactly when one holder has claimed the value or
  has already read it, and the destructor runs after every holder is gone.
\<close>

definition once_inv :: "'f \<Rightarrow> 'f once_sys \<Rightarrow> bool" where
  "once_inv f s \<longleftrightarrow>
     ao_value (once_cell s) = f \<and>
     set (once_reads s) \<subseteq> {f} \<and>
     length (once_reads s) + count_list (once_pcs s) Claimed = (if ao_used (once_cell s) then 1 else 0) \<and>
     (once_freed s \<longrightarrow> list_all (\<lambda>p. p = Released) (once_pcs s)) \<and>
     once_drops s = (if once_freed s \<and> \<not> ao_used (once_cell s) then [f] else [])"

lemma not_all_released:
  "i < length ps \<Longrightarrow> ps ! i \<noteq> Released \<Longrightarrow> \<not> list_all (\<lambda>p. p = Released) ps"
  by (auto simp: list_all_length)

lemma count_all_released: "list_all (\<lambda>p. p = Released) ps \<Longrightarrow> count_list ps Claimed = 0"
  by (induction ps) auto

lemma once_inv_init: "once_inv f (once_init f)"
  by (simp add: once_inv_def once_init_def wake_once_fn_def)

lemma once_step_inv: "once_step s t \<Longrightarrow> once_inv f s \<Longrightarrow> once_inv f t"
proof (induction rule: once_step.induct)
  case (clone i s)
  then show ?case using not_all_released[of i "once_pcs s"] by (auto simp: once_inv_def)
next
  case (give_up i s)
  then show ?case
    using not_all_released[of i "once_pcs s"] count_list_update[of i "once_pcs s" Released Claimed]
    by (auto simp: once_inv_def)
next
  case (wake_at_once i s called cell)
  then show ?case
    using not_all_released[of i "once_pcs s"] count_list_update[of i "once_pcs s" Released Claimed]
    by (auto simp: once_inv_def split: if_splits)
next
  case (exchange i s ok cell)
  then show ?case
    using not_all_released[of i "once_pcs s"] count_list_update[of i "once_pcs s" "if ok then Claimed else Released" Claimed]
    by (auto simp: once_inv_def take_claims_def compare_exchange_def split: if_splits)
next
  case (read_and_call i s)
  then show ?case
    using not_all_released[of i "once_pcs s"] count_list_update[of i "once_pcs s" Released Claimed]
    by (auto simp: once_inv_def take_reads_def split: if_splits)
next
  case (free s)
  then show ?case by (auto simp: once_inv_def)
qed

lemma once_reach_inv: "once_reach f s \<Longrightarrow> once_inv f s"
  by (induction rule: once_reach.induct) (auto intro: once_inv_init once_step_inv)

text \<open>
  C14 (safety). Whatever the interleaving of clones, wakes and drops of one waker, the closure is
  moved out of its cell at most once, it is never moved out and dropped in place, and once the
  cell is freed it has been consumed exactly once: run by one waker, or dropped by the destructor.
\<close>
theorem wake_once_exactly_once:
  assumes "once_reach f s"
  shows "length (once_reads s) + length (once_drops s) \<le> 1 \<and>
    (once_freed s \<longrightarrow> once_reads s @ once_drops s = [f])"
proof -
  have inv: "once_inv f s" by (rule once_reach_inv) (rule assms)
  then have "once_freed s \<longrightarrow> count_list (once_pcs s) Claimed = 0"
    by (simp add: once_inv_def count_all_released)
  with inv show ?thesis
    by (cases "once_reads s") (auto simp: once_inv_def split: if_splits)
qed

text \<open>A run of two holders in which the second loses the exchange, up to the destructor.\<close>

abbreviation once_at :: "'f \<Rightarrow> bool \<Rightarrow> waker_pc list \<Rightarrow> 'f list \<Rightarrow> bool \<Rightarrow> 'f once_sys" where
  "once_at f u ps rs fr \<equiv> \<lparr>once_cell = \<lparr>ao_used = u, ao_value = f\<rparr>, once_pcs = ps, once_reads = rs, once_drops = [],
     once_freed = fr\<rparr>"

lemma once_reach_example: "once_reach f (once_at f True [Released, Released] [f] True)"
proof -
  have "once_reach f (once_at f False [Holding] [] False)"
    using once_start[of f] by (simp add: once_init_def wake_once_fn_def)
  then have "once_reach f (once_at f False [Holding, Holding] [] False)"
    by (rule once_next) (use once_step.clone[of 0 "once_at f False [Holding] [] False"] in simp)
  then have "once_reach f (once_at f True [Claimed, Holding] [] False)"
    by (rule once_next) (use exchange[of 0 "once_at f False [Holding, Holding] [] False" True]
      in \<open>simp add: take_claims_def compare_exchange_def\<close>)
  then have "once_reach f (once_at f True [Claimed, Released] [] False)"
    by (rule once_next) (use wake_at_once[of 1 "once_at f True [Claimed, Holding] [] False" None] in simp)
  then have "once_reach f (once_at f True [Released, Released] [f] False)"
    by (rule once_next) (use read_and_call[of 0 "once_at f True [Claimed, Released] [] False"] in \<open>simp add: take_reads_def\<close>)
  then show ?thesis
    by (rule once_next) (use free[of "once_at f True [Released, Released] [f] False"] in simp)
qed

theorem wake_once_exactly_once_witness:
  "\<exists>s. once_reach (7::nat) s \<and> once_freed s \<and> once_pcs s = [Released, Released] \<and> once_reads s @ once_drops s = [7]"
  using wake_once_exactly_once[OF once_reach_example[of "7::nat"]] once_reach_example[of "7::nat"] by fastforce

end
