(* ===== verification/Shared.thy ===== *)
theory Shared
  imports Event Wake_Fn
begin

text \<open>
  What the stack shares with streams, sockets and wakers: the request channel, the registered
  wakers, the buffers, and a log of what happens to buffers and result channels. The closures that
  \<^verbatim>\<open>src/tcp_stack/mod.rs\<close> hands to \<^verbatim>\<open>wake_once_fn\<close> are a datatype with one constructor per closure,
  which holds the captured variables; \<open>run_waker_fn\<close> is their code.

  The result channels are flume's, and the sources ignore what \<^verbatim>\<open>send\<close> on them returns, so a send is
  an entry of the log; so is the drop of a sender that never sent (\<open>Hung_up\<close>), which makes
  the receiver's \<^verbatim>\<open>recv_async\<close> fail. The log keeps the order of these effects with the drops of
  buffer references, which the threads on the other side can observe.
\<close>

section \<open>State\<close>

datatype reply =
    Reply_usize "nat io_result"
  | Reply_from "(nat \<times> socket_addr) io_result"
  | Reply_unit "unit io_result"

datatype action =
    Dropped_buf buf_id
  | Replied tx_id reply
  | Hung_up tx_id

datatype waker_fn =
    Wake_shutdown tx_id
  | Wake_close socket_handle
  | Wake_ready socket_handle
  | Wake_write socket_handle buf_id tx_id
  | Wake_read socket_handle buf_id tx_id
  | Wake_send socket_handle socket_addr buf_id tx_id
  | Wake_recv socket_handle buf_id tx_id

text \<open>A waker is an index into the store; a cell whose last \<^verbatim>\<open>Arc\<close> is gone is \<^const>\<open>None\<close>.\<close>

type_synonym waker_id = nat

record ('c, 'e, 'b) shared =
  sh_ch :: "('c, 'e) notify_channel"
  sh_wakers :: "waker_fn atomic_option option list"
  sh_bufs :: "'b shared_buf arcs"
  sh_trace :: "action list"

record ('c, 'e, 'l, 'b) shared_deps =
  d_cb :: "('c, operation_event) crossbeam"
  d_ev :: "('e, 'l) event_crate"
  d_io :: "'b io_buf_crate"

section \<open>Primitive effects\<close>

definition send_event ::
  "('c, 'e, 'l, 'b, 'y) shared_deps_scheme \<Rightarrow> operation_event \<Rightarrow> ('c, 'e, 'b, 'z) shared_scheme
   \<Rightarrow> operation_event send_result \<times> ('c, 'e, 'b, 'z) shared_scheme" where
  "send_event D ev s = (let (r, ch) = notify_send (d_cb D) (d_ev D) ev (sh_ch s) in (r, s\<lparr>sh_ch := ch\<rparr>))"

definition drop_buf :: "buf_id \<Rightarrow> ('c, 'e, 'b, 'z) shared_scheme \<Rightarrow> ('c, 'e, 'b, 'z) shared_scheme" where
  "drop_buf b s = s\<lparr>sh_bufs := arc_drop b (sh_bufs s), sh_trace := sh_trace s @ [Dropped_buf b]\<rparr>"

definition send_reply :: "tx_id \<Rightarrow> reply \<Rightarrow> ('c, 'e, 'b, 'z) shared_scheme \<Rightarrow> ('c, 'e, 'b, 'z) shared_scheme" where
  "send_reply t r s = s\<lparr>sh_trace := sh_trace s @ [Replied t r]\<rparr>"

definition drop_tx :: "tx_id \<Rightarrow> ('c, 'e, 'b, 'z) shared_scheme \<Rightarrow> ('c, 'e, 'b, 'z) shared_scheme" where
  "drop_tx t s = s\<lparr>sh_trace := sh_trace s @ [Hung_up t]\<rparr>"

text \<open>The fields of an event are dropped in the order of their declaration.\<close>

fun drop_event :: "operation_event \<Rightarrow> ('c, 'e, 'b, 'z) shared_scheme \<Rightarrow> ('c, 'e, 'b, 'z) shared_scheme" where
  "drop_event (Ready h) s = s"
| "drop_event (Read h b t) s = drop_tx t (drop_buf b s)"
| "drop_event (Write h b t) s = drop_tx t (drop_buf b s)"
| "drop_event (Recv h b t) s = drop_tx t (drop_buf b s)"
| "drop_event (Send h a b t) s = drop_tx t (drop_buf b s)"
| "drop_event (Shutdown h t) s = drop_tx t s"
| "drop_event (Close h) s = s"

section \<open>The closures given to wakers\<close>

text \<open>The code of each closure of \<^verbatim>\<open>src/tcp_stack/mod.rs\<close>, one definition per closure.\<close>

definition shutdown_closure ::
  "('c, 'e, 'l, 'b, 'y) shared_deps_scheme \<Rightarrow> tx_id \<Rightarrow> ('c, 'e, 'b, 'z) shared_scheme
   \<Rightarrow> ('c, 'e, 'b, 'z) shared_scheme outcome" where
  "shutdown_closure D t s = Inr (send_reply t (Reply_unit (Inr ())) s)"

definition close_closure ::
  "('c, 'e, 'l, 'b, 'y) shared_deps_scheme \<Rightarrow> socket_handle \<Rightarrow> ('c, 'e, 'b, 'z) shared_scheme
   \<Rightarrow> ('c, 'e, 'b, 'z) shared_scheme outcome" where
  "close_closure D h s = Inr (snd (send_event D (Close (Typed_Tcp h)) s))"

definition ready_closure ::
  "('c, 'e, 'l, 'b, 'y) shared_deps_scheme \<Rightarrow> socket_handle \<Rightarrow> ('c, 'e, 'b, 'z) shared_scheme
   \<Rightarrow> ('c, 'e, 'b, 'z) shared_scheme outcome" where
  "ready_closure D h s = Inr (snd (send_event D (Ready (Typed_Tcp h)) s))"

definition write_closure ::
  "('c, 'e, 'l, 'b, 'y) shared_deps_scheme \<Rightarrow> socket_handle \<Rightarrow> buf_id \<Rightarrow> tx_id \<Rightarrow> ('c, 'e, 'b, 'z) shared_scheme
   \<Rightarrow> ('c, 'e, 'b, 'z) shared_scheme outcome" where
  "write_closure D h b t s =
     (case send_event D (Write h b t) s of
        (Sent, s') \<Rightarrow> Inr s'
      | (SendError (Write _ b' t'), s') \<Rightarrow>
          Inr (send_reply t' (Reply_usize (Inl (Error_new BrokenPipe ''wake TCP write failed''))) (drop_buf b' s'))
      | (SendError _, s') \<Rightarrow> Inl Panic_unreachable)"

definition read_closure ::
  "('c, 'e, 'l, 'b, 'y) shared_deps_scheme \<Rightarrow> socket_handle \<Rightarrow> buf_id \<Rightarrow> tx_id \<Rightarrow> ('c, 'e, 'b, 'z) shared_scheme
   \<Rightarrow> ('c, 'e, 'b, 'z) shared_scheme outcome" where
  "read_closure D h b t s =
     (case send_event D (Read h b t) s of
        (Sent, s') \<Rightarrow> Inr s'
      | (SendError (Read _ b' t'), s') \<Rightarrow>
          Inr (send_reply t' (Reply_usize (Inl (Error_new BrokenPipe ''wake TCP read failed''))) (drop_buf b' s'))
      | (SendError _, s') \<Rightarrow> Inl Panic_unreachable)"

definition send_closure ::
  "('c, 'e, 'l, 'b, 'y) shared_deps_scheme \<Rightarrow> socket_handle \<Rightarrow> socket_addr \<Rightarrow> buf_id \<Rightarrow> tx_id \<Rightarrow> ('c, 'e, 'b, 'z) shared_scheme
   \<Rightarrow> ('c, 'e, 'b, 'z) shared_scheme outcome" where
  "send_closure D h a b t s =
     (case send_event D (Send h a b t) s of
        (Sent, s') \<Rightarrow> Inr s'
      | (SendError (Send _ _ b' t'), s') \<Rightarrow>
          Inr (send_reply t' (Reply_usize (Inl (Error_new BrokenPipe ''wake UDP write failed''))) (drop_buf b' s'))
      | (SendError _, s') \<Rightarrow> Inl Panic_unreachable)"

definition recv_closure ::
  "('c, 'e, 'l, 'b, 'y) shared_deps_scheme \<Rightarrow> socket_handle \<Rightarrow> buf_id \<Rightarrow> tx_id \<Rightarrow> ('c, 'e, 'b, 'z) shared_scheme
   \<Rightarrow> ('c, 'e, 'b, 'z) shared_scheme outcome" where
  "recv_closure D h b t s =
     (case send_event D (Recv h b t) s of
        (Sent, s') \<Rightarrow> Inr s'
      | (SendError (Recv _ b' t'), s') \<Rightarrow>
          Inr (send_reply t' (Reply_from (Inl (Error_new BrokenPipe ''wake UDP read failed''))) (drop_buf b' s'))
      | (SendError _, s') \<Rightarrow> Inl Panic_unreachable)"

fun run_waker_fn ::
  "('c, 'e, 'l, 'b, 'y) shared_deps_scheme \<Rightarrow> waker_fn \<Rightarrow> ('c, 'e, 'b, 'z) shared_scheme
   \<Rightarrow> ('c, 'e, 'b, 'z) shared_scheme outcome" where
  "run_waker_fn D (Wake_shutdown t) s = shutdown_closure D t s"
| "run_waker_fn D (Wake_close h) s = close_closure D h s"
| "run_waker_fn D (Wake_ready h) s = ready_closure D h s"
| "run_waker_fn D (Wake_write h b t) s = write_closure D h b t s"
| "run_waker_fn D (Wake_read h b t) s = read_closure D h b t s"
| "run_waker_fn D (Wake_send h a b t) s = send_closure D h a b t s"
| "run_waker_fn D (Wake_recv h b t) s = recv_closure D h b t s"

lemmas closure_defs [simp] = shutdown_closure_def close_closure_def ready_closure_def write_closure_def
  read_closure_def send_closure_def recv_closure_def

text \<open>
  Dropping a closure that never ran drops its captured variables. The language leaves their order
  unspecified; the compiler captures them in the order of their first use in the body, \<^verbatim>\<open>tx\<close>, \<^verbatim>\<open>handle\<close>,
  \<^verbatim>\<open>buffer\<close>, \<^verbatim>\<open>result_tx\<close>, and drops them in this order, which the model follows.
\<close>

fun drop_waker_fn :: "waker_fn \<Rightarrow> ('c, 'e, 'b, 'z) shared_scheme \<Rightarrow> ('c, 'e, 'b, 'z) shared_scheme" where
  "drop_waker_fn (Wake_shutdown t) s = drop_tx t s"
| "drop_waker_fn (Wake_close h) s = s"
| "drop_waker_fn (Wake_ready h) s = s"
| "drop_waker_fn (Wake_write h b t) s = drop_tx t (drop_buf b s)"
| "drop_waker_fn (Wake_read h b t) s = drop_tx t (drop_buf b s)"
| "drop_waker_fn (Wake_send h a b t) s = drop_tx t (drop_buf b s)"
| "drop_waker_fn (Wake_recv h b t) s = drop_tx t (drop_buf b s)"

text \<open>\<^verbatim>\<open>&wake_once_fn(closure)\<close>: a new cell of the store.\<close>

definition new_waker :: "waker_fn \<Rightarrow> ('c, 'e, 'b, 'z) shared_scheme \<Rightarrow> waker_id \<times> ('c, 'e, 'b, 'z) shared_scheme" where
  "new_waker f s = (length (sh_wakers s), s\<lparr>sh_wakers := sh_wakers s @ [Some (wake_once_fn f)]\<rparr>)"

text \<open>
  What a call into smoltcp does with the wakers it holds: it wakes them, or drops its last
  reference. Nothing restricts which ones, how often or in what order.
\<close>

datatype waker_act = Woken waker_id | Released waker_id

fun do_waker_act ::
  "('c, 'e, 'l, 'b, 'y) shared_deps_scheme \<Rightarrow> waker_act \<Rightarrow> ('c, 'e, 'b, 'z) shared_scheme
   \<Rightarrow> ('c, 'e, 'b, 'z) shared_scheme outcome" where
  "do_waker_act D (Woken w) s =
     (if w < length (sh_wakers s) then
        (case sh_wakers s ! w of
           None \<Rightarrow> Inr s
         | Some cell \<Rightarrow>
             (case wake cell of
                (Some f, cell') \<Rightarrow> run_waker_fn D f (s\<lparr>sh_wakers := (sh_wakers s)[w := Some cell']\<rparr>)
              | (None, cell') \<Rightarrow> Inr (s\<lparr>sh_wakers := (sh_wakers s)[w := Some cell']\<rparr>)))
      else Inr s)"
| "do_waker_act D (Released w) s =
     (if w < length (sh_wakers s) then
        (case sh_wakers s ! w of
           None \<Rightarrow> Inr s
         | Some cell \<Rightarrow>
             Inr (let s' = s\<lparr>sh_wakers := (sh_wakers s)[w := None]\<rparr>
                  in case atomic_drop cell of Some f \<Rightarrow> drop_waker_fn f s' | None \<Rightarrow> s'))
      else Inr s)"

definition do_waker_acts ::
  "('c, 'e, 'l, 'b, 'y) shared_deps_scheme \<Rightarrow> waker_act list \<Rightarrow> ('c, 'e, 'b, 'z) shared_scheme
   \<Rightarrow> ('c, 'e, 'b, 'z) shared_scheme outcome" where
  "do_waker_acts D acts s = for_each (do_waker_act D) acts s"

end
