(* ===== verification/Virtual_Interface.thy ===== *)
theory Virtual_Interface
  imports Prelude
begin

text \<open>
  \<^verbatim>\<open>src/virtual_interface.rs\<close>: the network device handed to smoltcp, two packet queues. The host
  pushes received packets and drains packets to send; smoltcp reaches the queues only through
  the \<^verbatim>\<open>Device\<close> trait and its two token types.

  The \<^verbatim>\<open>bytes\<close> crate is a parameter, a record of the two functions the source calls; a buffer is
  its byte string. The device capabilities are smoltcp's and stay abstract (\<open>'cap\<close>).
\<close>

section \<open>State and operations\<close>

record bytes_crate =
  bm_zeroed :: "nat \<Rightarrow> bytes"      \<comment> \<open>\<^verbatim>\<open>BytesMut::zeroed\<close>\<close>
  bm_freeze :: "bytes \<Rightarrow> bytes"     \<comment> \<open>\<^verbatim>\<open>BytesMut::freeze\<close>\<close>

text \<open>
  Documented behaviour of the \<^verbatim>\<open>bytes\<close> crate: a zeroed buffer has the requested length and holds
  zeros, and freezing keeps the content.
\<close>

definition bytes_laws :: "bytes_crate \<Rightarrow> bool" where
  "bytes_laws B \<longleftrightarrow> (\<forall>n. bm_zeroed B n = replicate n 0) \<and> (\<forall>b. bm_freeze B b = b)"

record 'cap virtual_interface =
  vi_cap :: 'cap
  vi_tx_queue :: "bytes list"
  vi_rx_queue :: "bytes list"

definition vi_new :: "'cap \<Rightarrow> 'cap virtual_interface" where
  "vi_new cap = \<lparr>vi_cap = cap, vi_tx_queue = [], vi_rx_queue = []\<rparr>"

definition push_receive_packet :: "bytes \<Rightarrow> 'cap virtual_interface \<Rightarrow> 'cap virtual_interface" where
  "push_receive_packet packet vi = vi\<lparr>vi_rx_queue := vi_rx_queue vi @ [packet]\<rparr>"

text \<open>\<^verbatim>\<open>drain(..)\<close>: the iterator yields the queue from the front; dropping it leaves the queue empty.\<close>

definition pop_all_send_packets :: "'cap virtual_interface \<Rightarrow> bytes list \<times> 'cap virtual_interface" where
  "pop_all_send_packets vi = (vi_tx_queue vi, vi\<lparr>vi_tx_queue := []\<rparr>)"

text \<open>The tokens borrow one queue each; they carry no other data.\<close>

datatype virtual_rx_token = VirtualRxToken
datatype virtual_tx_token = VirtualTxToken

definition vi_receive :: "'cap virtual_interface \<Rightarrow> (virtual_rx_token \<times> virtual_tx_token) option" where
  "vi_receive vi = (if vi_rx_queue vi = [] then None else Some (VirtualRxToken, VirtualTxToken))"

definition vi_transmit :: "'cap virtual_interface \<Rightarrow> virtual_tx_token option" where
  "vi_transmit vi = Some VirtualTxToken"

definition capabilities :: "'cap virtual_interface \<Rightarrow> 'cap" where
  "capabilities vi = vi_cap vi"

text \<open>\<^verbatim>\<open>RxToken::consume\<close>: pops the front packet (\<^verbatim>\<open>unwrap\<close>), hands it to the closure, drops it.\<close>

definition rx_consume ::
  "virtual_rx_token \<Rightarrow> (bytes \<Rightarrow> 'r) \<Rightarrow> 'cap virtual_interface \<Rightarrow> ('r \<times> 'cap virtual_interface) outcome" where
  "rx_consume tok f vi =
     (case vi_rx_queue vi of
        [] \<Rightarrow> Inl Panic_unwrap
      | buf # rest \<Rightarrow> Inr (f buf, vi\<lparr>vi_rx_queue := rest\<rparr>))"

text \<open>
  \<^verbatim>\<open>TxToken::consume\<close>: a zeroed buffer of the requested length is filled by the closure, which
  returns its result and the new content of the slice, and appended to the queue.
\<close>

definition tx_consume ::
  "bytes_crate \<Rightarrow> virtual_tx_token \<Rightarrow> nat \<Rightarrow> (bytes \<Rightarrow> 'r \<times> bytes) \<Rightarrow> 'cap virtual_interface
   \<Rightarrow> 'r \<times> 'cap virtual_interface" where
  "tx_consume B tok len f vi =
     (let buf = bm_zeroed B len; (res, buf') = f buf
      in (res, vi\<lparr>vi_tx_queue := vi_tx_queue vi @ [bm_freeze B buf']\<rparr>))"

section \<open>What a driver of the device can do\<close>

text \<open>
  A driver that has only the \<^verbatim>\<open>Device\<close> trait can consume a receive token it was given, with a
  closure that sees one packet, or consume a transmit token with a closure that fills a slice
  (and cannot change its length). Each use leaves a label.
\<close>

datatype dev_event = Rx bytes | Tx bytes

inductive device_step ::
  "bytes_crate \<Rightarrow> 'cap virtual_interface \<Rightarrow> dev_event \<Rightarrow> 'cap virtual_interface \<Rightarrow> bool" for B where
  dev_rx: "\<lbrakk>vi_receive vi = Some (rt, tt); rx_consume rt (\<lambda>b. b) vi = Inr (p, vi')\<rbrakk>
    \<Longrightarrow> device_step B vi (Rx p) vi'"
| dev_tx: "\<lbrakk>vi_transmit vi = Some tt; length (f (bm_zeroed B len)) = len;
      tx_consume B tt len (\<lambda>b. ((), f b)) vi = ((), vi'); p = last (vi_tx_queue vi')\<rbrakk>
    \<Longrightarrow> device_step B vi (Tx p) vi'"

inductive_simps device_step_Rx: "device_step B vi (Rx p) vi'"
inductive_simps device_step_Tx: "device_step B vi (Tx p) vi'"

lemmas vi_defs = vi_receive_def vi_transmit_def rx_consume_def tx_consume_def

lemma device_step_rx_iff:
  "device_step B vi (Rx p) vi' \<longleftrightarrow>
     (\<exists>ps. vi_rx_queue vi = p # ps \<and> vi' = vi\<lparr>vi_rx_queue := ps\<rparr>)"
  by (auto simp: device_step_Rx vi_defs split: list.splits if_splits)

lemma device_step_txD:
  "device_step B vi (Tx p) vi' \<Longrightarrow> vi' = vi\<lparr>vi_tx_queue := vi_tx_queue vi @ [p]\<rparr>"
  by (auto simp: device_step_Tx vi_defs Let_def split: prod.splits)

fun rx_of :: "dev_event list \<Rightarrow> bytes list" where
  "rx_of [] = []"
| "rx_of (Rx p # es) = p # rx_of es"
| "rx_of (Tx p # es) = rx_of es"

fun tx_of :: "dev_event list \<Rightarrow> bytes list" where
  "tx_of [] = []"
| "tx_of (Rx p # es) = tx_of es"
| "tx_of (Tx p # es) = p # tx_of es"

lemma rx_of_append [simp]: "rx_of (xs @ ys) = rx_of xs @ rx_of ys"
  by (induction xs rule: rx_of.induct) auto

lemma tx_of_append [simp]: "tx_of (xs @ ys) = tx_of xs @ tx_of ys"
  by (induction xs rule: tx_of.induct) auto

section \<open>The contract of a packet device\<close>

text \<open>
  The interface between the stack, which owns the device, and its driver: two first-in
  first-out queues. Receiving takes from the front of one, sending appends to the other, and
  nothing else is touched.
\<close>

locale packet_device =
  fixes step :: "'d \<Rightarrow> dev_event \<Rightarrow> 'd \<Rightarrow> bool"
    and rxq :: "'d \<Rightarrow> bytes list"
    and txq :: "'d \<Rightarrow> bytes list"
    and caps :: "'d \<Rightarrow> 'cap"
    and push :: "bytes \<Rightarrow> 'd \<Rightarrow> 'd"
    and drain :: "'d \<Rightarrow> bytes list \<times> 'd"
  assumes rx_law: "step d (Rx p) d' \<Longrightarrow> rxq d = p # rxq d' \<and> txq d' = txq d \<and> caps d' = caps d"
    and tx_law: "step d (Tx p) d' \<Longrightarrow> rxq d' = rxq d \<and> txq d' = txq d @ [p] \<and> caps d' = caps d"
    and push_law: "rxq (push p d) = rxq d @ [p] \<and> txq (push p d) = txq d \<and> caps (push p d) = caps d"
    and drain_law: "drain d = (ps, d') \<Longrightarrow> ps = txq d \<and> txq d' = [] \<and> rxq d' = rxq d \<and> caps d' = caps d"
begin

lemma run_conserves:
  assumes "run step d es d'"
  shows "rxq d = rx_of es @ rxq d' \<and> txq d' = txq d @ tx_of es \<and> caps d' = caps d"
  using assms
proof (induction rule: run.induct)
  case (run_nil d)
  then show ?case by simp
next
  case (run_snoc d es t e u)
  then show ?case by (cases e) (auto dest: rx_law tx_law)
qed

text \<open>One turn of the host: push at most one packet, let the driver run, drain.\<close>

lemma turn_conserves:
  assumes "run step (case pkt of None \<Rightarrow> d | Some p \<Rightarrow> push p d) es d1" and "drain d1 = (out, d2)"
  shows "rxq d @ (case pkt of None \<Rightarrow> [] | Some p \<Rightarrow> [p]) = rx_of es @ rxq d2"
    and "out = txq d @ tx_of es" and "txq d2 = []" and "caps d2 = caps d"
  using run_conserves[OF assms(1)] drain_law[OF assms(2)] push_law[of _ d]
  by (auto split: option.splits)

end

interpretation vif: packet_device "device_step B" vi_rx_queue vi_tx_queue vi_cap
  push_receive_packet pop_all_send_packets for B
  by unfold_locales
    (auto simp: device_step_rx_iff push_receive_packet_def pop_all_send_packets_def
      dest!: device_step_txD)

section \<open>Properties\<close>

text \<open>The lifetime of the device: host and driver take turns in any order.\<close>

datatype iface_event = Pushed bytes | Driver dev_event | Popped "bytes list"

inductive iface_step ::
  "bytes_crate \<Rightarrow> 'cap virtual_interface \<Rightarrow> iface_event \<Rightarrow> 'cap virtual_interface \<Rightarrow> bool" for B where
  iface_push: "iface_step B vi (Pushed p) (push_receive_packet p vi)"
| iface_driver: "device_step B vi e vi' \<Longrightarrow> iface_step B vi (Driver e) vi'"
| iface_pop: "pop_all_send_packets vi = (ps, vi') \<Longrightarrow> iface_step B vi (Popped ps) vi'"

fun pushed_of :: "iface_event list \<Rightarrow> bytes list" where
  "pushed_of [] = []"
| "pushed_of (Pushed p # es) = p # pushed_of es"
| "pushed_of (e # es) = pushed_of es"

fun popped_of :: "iface_event list \<Rightarrow> bytes list" where
  "popped_of [] = []"
| "popped_of (Popped ps # es) = ps @ popped_of es"
| "popped_of (e # es) = popped_of es"

fun driver_of :: "iface_event list \<Rightarrow> dev_event list" where
  "driver_of [] = []"
| "driver_of (Driver e # es) = e # driver_of es"
| "driver_of (e # es) = driver_of es"

lemma pushed_of_append [simp]: "pushed_of (xs @ ys) = pushed_of xs @ pushed_of ys"
  by (induction xs rule: pushed_of.induct) auto

lemma popped_of_append [simp]: "popped_of (xs @ ys) = popped_of xs @ popped_of ys"
  by (induction xs rule: popped_of.induct) auto

lemma driver_of_append [simp]: "driver_of (xs @ ys) = driver_of xs @ driver_of ys"
  by (induction xs rule: driver_of.induct) auto

text \<open>
  The device neither loses, duplicates nor reorders packets: over any interleaving of
  host and driver from a new device, the packets the driver has received followed by those still
  queued are exactly the packets pushed, in order, and the packets drained followed by those still
  queued are exactly the packets the driver sent; the capabilities never change.
\<close>
theorem device_fifo:
  assumes "run (iface_step B) (vi_new cap) es vi"
  shows "rx_of (driver_of es) @ vi_rx_queue vi = pushed_of es \<and>
    popped_of es @ vi_tx_queue vi = tx_of (driver_of es) \<and> capabilities vi = cap"
  using assms
proof (induction "vi_new cap" es vi rule: run.induct)
  case run_nil
  then show ?case by (simp add: vi_new_def capabilities_def)
next
  case (run_snoc es t e u)
  from run_snoc(3) run_snoc(2) show ?case
  proof cases
    case (iface_driver d)
    with run_snoc(2) show ?thesis
      by (cases d) (auto simp: device_step_rx_iff capabilities_def dest!: device_step_txD)
  qed (auto simp: push_receive_packet_def pop_all_send_packets_def capabilities_def)
qed

text \<open>A driver that receives the one packet pushed and sends a one-byte answer.\<close>

theorem device_fifo_witness:
  "\<exists>vi. run (iface_step \<lparr>bm_zeroed = (\<lambda>n. replicate n 0), bm_freeze = (\<lambda>b. b)\<rparr>) (vi_new (1500 :: nat))
      [Pushed [1, 2], Driver (Rx [1, 2]), Driver (Tx [9]), Popped [[9]]] vi \<and>
    vi_rx_queue vi = [] \<and> vi_tx_queue vi = []"
proof -
  let ?B = "\<lparr>bm_zeroed = (\<lambda>n. replicate n 0), bm_freeze = (\<lambda>b. b)\<rparr>"
  let ?v = "\<lambda>rx tx. \<lparr>vi_cap = 1500 :: nat, vi_tx_queue = tx, vi_rx_queue = rx\<rparr>"
  have 1: "iface_step ?B (vi_new 1500) (Pushed [1, 2]) (?v [[1, 2]] [])"
    using iface_push[of ?B "vi_new (1500 :: nat)" "[1, 2]"] by (simp add: vi_new_def push_receive_packet_def)
  have 2: "iface_step ?B (?v [[1, 2]] []) (Driver (Rx [1, 2])) (?v [] [])"
    by (rule iface_driver) (simp add: device_step_rx_iff)
  have 3: "iface_step ?B (?v [] []) (Driver (Tx [9])) (?v [] [[9]])"
    by (rule iface_driver, rule dev_tx[of _ VirtualTxToken "\<lambda>_. [9]" _ 1])
      (simp_all add: vi_transmit_def tx_consume_def)
  have 4: "iface_step ?B (?v [] [[9]]) (Popped [[9]]) (?v [] [])"
    by (rule iface_pop) (simp add: pop_all_send_packets_def)
  note run = run_snoc[where step = "iface_step ?B"]
  from run[OF run[OF run[OF run_single[where step = "iface_step ?B", OF 1] 2] 3] 4]
  have r: "run (iface_step ?B) (vi_new 1500) [Pushed [1, 2], Driver (Rx [1, 2]), Driver (Tx [9]), Popped [[9]]] (?v [] [])"
    by simp
  with device_fifo[OF r] show ?thesis by auto
qed

text \<open>
  The tokens cannot fail. A receive token that \<^verbatim>\<open>receive\<close> handed out, consumed after any use
  of transmit tokens, finds its packet: the \<^verbatim>\<open>unwrap\<close> never panics, and the closure sees the oldest
  packet of the queue. Consuming a transmit token gives the closure a zeroed slice of the requested
  length and appends exactly what the closure leaves there.
\<close>
theorem tokens_never_fail:
  assumes "bytes_laws B"
  shows "(vi_receive vi = Some (rt, tt) \<longrightarrow>
      rx_consume rt f (vi\<lparr>vi_tx_queue := sent\<rparr>) =
        Inr (f (hd (vi_rx_queue vi)), vi\<lparr>vi_tx_queue := sent, vi_rx_queue := tl (vi_rx_queue vi)\<rparr>)) \<and>
    tx_consume B tt len g vi =
      (fst (g (replicate len 0)), vi\<lparr>vi_tx_queue := vi_tx_queue vi @ [snd (g (replicate len 0))]\<rparr>)"
  using assms
  by (auto simp: vi_receive_def rx_consume_def tx_consume_def bytes_laws_def Let_def
    split: if_splits list.splits prod.splits)

theorem tokens_never_fail_witness:
  "rx_consume VirtualRxToken hd \<lparr>vi_cap = 0 :: nat, vi_tx_queue = [], vi_rx_queue = [[1, 2, 3], [4]]\<rparr> =
    Inr (1, \<lparr>vi_cap = 0 :: nat, vi_tx_queue = [], vi_rx_queue = [[4]]\<rparr>)"
  using tokens_never_fail[of "\<lparr>bm_zeroed = (\<lambda>n. replicate n 0), bm_freeze = (\<lambda>b. b)\<rparr>"
      "\<lparr>vi_cap = 0 :: nat, vi_tx_queue = [], vi_rx_queue = [[1, 2, 3], [4]]\<rparr>" VirtualRxToken VirtualTxToken hd "[]" 0 "\<lambda>b. ((), b)"]
  by (simp add: bytes_laws_def vi_receive_def)

end
