(* ===== verification/Packet.thy ===== *)
theory Packet
  imports Prelude "HOL-Library.Monad_Syntax"
begin

text \<open>
  \<^verbatim>\<open>parse_packet\<close> of \<^verbatim>\<open>src/tcp_stack/mod.rs\<close>: the classification of an incoming layer-3 packet that
  decides whether the stack opens a socket for it. The header views of \<^verbatim>\<open>smoltcp::wire\<close> are a
  parameter, a record of the constructors and accessors the source calls; a view is the buffer it
  wraps, and a \<^verbatim>\<open>Result\<close> on which the source calls \<^verbatim>\<open>ok()?\<close> is an option.
\<close>

section \<open>Definitions\<close>

datatype ip_version = Ipv4 | Ipv6
datatype ip_protocol = Proto_Tcp | Proto_Udp | Proto_other u8

record wire_crate =
  w_ip_version :: "bytes \<Rightarrow> ip_version option"
  w_ipv4_new_checked :: "bytes \<Rightarrow> bytes option"
  w_ipv4_payload :: "bytes \<Rightarrow> bytes"
  w_ipv4_src_addr :: "bytes \<Rightarrow> u32"
  w_ipv4_dst_addr :: "bytes \<Rightarrow> u32"
  w_ipv4_next_header :: "bytes \<Rightarrow> ip_protocol"
  w_ipv6_new_checked :: "bytes \<Rightarrow> bytes option"
  w_ipv6_payload :: "bytes \<Rightarrow> bytes"
  w_ipv6_src_addr :: "bytes \<Rightarrow> u128"
  w_ipv6_dst_addr :: "bytes \<Rightarrow> u128"
  w_ipv6_next_header :: "bytes \<Rightarrow> ip_protocol"
  w_tcp_new_checked :: "bytes \<Rightarrow> bytes option"
  w_tcp_syn :: "bytes \<Rightarrow> bool"
  w_tcp_ack :: "bytes \<Rightarrow> bool"
  w_tcp_src_port :: "bytes \<Rightarrow> u16"
  w_tcp_dst_port :: "bytes \<Rightarrow> u16"
  w_udp_new_checked :: "bytes \<Rightarrow> bytes option"
  w_udp_src_port :: "bytes \<Rightarrow> u16"
  w_udp_dst_port :: "bytes \<Rightarrow> u16"

datatype packet_type =
    PacketType_Tcp (pt_src: socket_addr) (pt_dst: socket_addr)
  | PacketType_Udp (pt_src: socket_addr) (pt_dst: socket_addr)

definition parse_packet :: "wire_crate \<Rightarrow> bytes \<Rightarrow> packet_type option" where
  "parse_packet W buf = do {
     ip_version \<leftarrow> w_ip_version W buf;
     case ip_version of
       Ipv4 \<Rightarrow> do {
         packet \<leftarrow> w_ipv4_new_checked W buf;
         let payload = w_ipv4_payload W packet;
         let src_addr = w_ipv4_src_addr W packet;
         let dst_addr = w_ipv4_dst_addr W packet;
         case w_ipv4_next_header W packet of
           Proto_Tcp \<Rightarrow> do {
             tcp_packet \<leftarrow> w_tcp_new_checked W payload;
             if w_tcp_syn W tcp_packet \<and> \<not> w_tcp_ack W tcp_packet
             then Some (PacketType_Tcp
                    (SocketAddrV4 src_addr (w_tcp_src_port W tcp_packet))
                    (SocketAddrV4 dst_addr (w_tcp_dst_port W tcp_packet)))
             else None }
         | Proto_Udp \<Rightarrow> do {
             udp_packet \<leftarrow> w_udp_new_checked W payload;
             Some (PacketType_Udp
               (SocketAddrV4 src_addr (w_udp_src_port W udp_packet))
               (SocketAddrV4 dst_addr (w_udp_dst_port W udp_packet))) }
         | Proto_other _ \<Rightarrow> None }
     | Ipv6 \<Rightarrow> do {
         packet \<leftarrow> w_ipv6_new_checked W buf;
         let payload = w_ipv6_payload W packet;
         let src_addr = w_ipv6_src_addr W packet;
         let dst_addr = w_ipv6_dst_addr W packet;
         case w_ipv6_next_header W packet of
           Proto_Tcp \<Rightarrow> do {
             tcp_packet \<leftarrow> w_tcp_new_checked W payload;
             if w_tcp_syn W tcp_packet \<and> \<not> w_tcp_ack W tcp_packet
             then Some (PacketType_Tcp
                    (SocketAddrV6 src_addr (w_tcp_src_port W tcp_packet) 0 0)
                    (SocketAddrV6 dst_addr (w_tcp_dst_port W tcp_packet) 0 0))
             else None }
         | Proto_Udp \<Rightarrow> do {
             udp_packet \<leftarrow> w_udp_new_checked W payload;
             Some (PacketType_Udp
               (SocketAddrV6 src_addr (w_udp_src_port W udp_packet) 0 0)
               (SocketAddrV6 dst_addr (w_udp_dst_port W udp_packet) 0 0)) }
         | Proto_other _ \<Rightarrow> None } }"

section \<open>The classifier behind the two branches\<close>

text \<open>
  A version-independent reading of the network header, and a classifier of the transport header
  over it. The specification has one branch per transport protocol; the source writes each twice.
\<close>

definition ip_view :: "wire_crate \<Rightarrow> bytes \<Rightarrow> (ip_addr \<times> ip_addr \<times> ip_protocol \<times> bytes) option" where
  "ip_view W buf =
     (case w_ip_version W buf of
        None \<Rightarrow> None
      | Some Ipv4 \<Rightarrow> map_option (\<lambda>p. (IpV4 (w_ipv4_src_addr W p), IpV4 (w_ipv4_dst_addr W p),
                       w_ipv4_next_header W p, w_ipv4_payload W p)) (w_ipv4_new_checked W buf)
      | Some Ipv6 \<Rightarrow> map_option (\<lambda>p. (IpV6 (w_ipv6_src_addr W p), IpV6 (w_ipv6_dst_addr W p),
                       w_ipv6_next_header W p, w_ipv6_payload W p)) (w_ipv6_new_checked W buf))"

fun classify :: "wire_crate \<Rightarrow> ip_addr \<times> ip_addr \<times> ip_protocol \<times> bytes \<Rightarrow> packet_type option" where
  "classify W (s, d, Proto_Tcp, payload) =
     (case w_tcp_new_checked W payload of
        Some t \<Rightarrow> if w_tcp_syn W t \<and> \<not> w_tcp_ack W t
          then Some (PacketType_Tcp (SocketAddr_new s (w_tcp_src_port W t)) (SocketAddr_new d (w_tcp_dst_port W t)))
          else None
      | None \<Rightarrow> None)"
| "classify W (s, d, Proto_Udp, payload) =
     (case w_udp_new_checked W payload of
        Some u \<Rightarrow> Some (PacketType_Udp (SocketAddr_new s (w_udp_src_port W u)) (SocketAddr_new d (w_udp_dst_port W u)))
      | None \<Rightarrow> None)"
| "classify W (s, d, Proto_other n, payload) = None"

lemma parse_packet_bind:
  "parse_packet W buf = Option.bind (ip_view W buf) (classify W)"
proof (cases "w_ip_version W buf")
  case (Some v)
  then show ?thesis
    by (cases v)
      (auto simp: parse_packet_def ip_view_def Let_def bind_map_option comp_def
        split: ip_protocol.splits option.splits Option.bind_splits)
qed (simp add: parse_packet_def ip_view_def)

text \<open>
  C33 (equivalence). The IPv4 and the IPv6 branch of \<^verbatim>\<open>parse_packet\<close> implement one and the same
  classification of the transport header: it is the version-independent classifier applied to
  the network header.
\<close>
theorem parse_packet_classify:
  "parse_packet W buf = Option.bind (ip_view W buf) (classify W)"
  by (rule parse_packet_bind)

lemma classify_normal:
  "classify W v = Some pt \<Longrightarrow> addr_normal (pt_src pt) \<and> addr_normal (pt_dst pt)"
  by (cases "(W, v)" rule: classify.cases) (auto split: option.splits if_splits)

lemma parse_packet_normal:
  assumes "parse_packet W buf = Some pt"
  shows "addr_normal (pt_src pt) \<and> addr_normal (pt_dst pt)"
proof -
  from assms obtain v where "classify W v = Some pt"
    unfolding parse_packet_bind by (auto simp: bind_eq_Some_conv)
  then show ?thesis by (rule classify_normal)
qed

text \<open>
  C32 (functional). A packet asks for a TCP socket exactly when its network header is valid, carries
  TCP, its TCP header is valid, and it has SYN set and ACK clear: no other segment of a connection
  ever opens a socket. The socket address is the packet's destination address and port, in the
  normal form in which it can be compared with the address of a bound socket.
\<close>
theorem parse_packet_tcp_iff:
  "parse_packet W buf = Some (PacketType_Tcp src dst) \<longleftrightarrow>
     (\<exists>s d payload t. ip_view W buf = Some (s, d, Proto_Tcp, payload) \<and>
        w_tcp_new_checked W payload = Some t \<and> w_tcp_syn W t \<and> \<not> w_tcp_ack W t \<and>
        src = SocketAddr_new s (w_tcp_src_port W t) \<and> dst = SocketAddr_new d (w_tcp_dst_port W t))"
proof -
  have "classify W (s, d, pr, payload) = Some (PacketType_Tcp src dst) \<longleftrightarrow>
      (pr = Proto_Tcp \<and> (\<exists>t. w_tcp_new_checked W payload = Some t \<and> w_tcp_syn W t \<and> \<not> w_tcp_ack W t \<and>
        src = SocketAddr_new s (w_tcp_src_port W t) \<and> dst = SocketAddr_new d (w_tcp_dst_port W t)))"
    for s d pr payload
    by (cases pr) (auto split: option.splits)
  then show ?thesis
    unfolding parse_packet_bind by (auto simp: bind_eq_Some_conv)
qed

end
