(* ===== verification/Smoltcp.thy ===== *)
theory Smoltcp
  imports Shared Virtual_Interface Packet
begin

text \<open>
  The parts of smoltcp that \<^verbatim>\<open>src/tcp_stack/mod.rs\<close> calls, as parameters: one record of functions
  for TCP sockets, UDP sockets, the socket set and the interface, over abstract types for their
  states. A method that takes \<^verbatim>\<open>&mut self\<close> returns the new state; a \<^verbatim>\<open>&mut [u8]\<close> argument is returned
  too. Calls that can wake or drop registered wakers also return what they did to them. Errors of
  smoltcp are kept as text, but for the one variant the source matches on.
\<close>

section \<open>Sockets\<close>

datatype tcp_recv_error = RecvError_Finished | RecvError_other string

record 'tcp tcp_crate =
  t_new :: "bytes \<Rightarrow> bytes \<Rightarrow> 'tcp"               \<comment> \<open>receive and transmit storage\<close>
  t_set_nagle_enabled :: "bool \<Rightarrow> 'tcp \<Rightarrow> 'tcp"
  t_listen :: "socket_addr \<Rightarrow> 'tcp \<Rightarrow> string + 'tcp"
  t_close :: "'tcp \<Rightarrow> 'tcp \<times> waker_act list"
  t_is_active :: "'tcp \<Rightarrow> bool"
  t_may_recv :: "'tcp \<Rightarrow> bool"
  t_may_send :: "'tcp \<Rightarrow> bool"
  t_can_send :: "'tcp \<Rightarrow> bool"
  t_recv_queue :: "'tcp \<Rightarrow> nat"
  t_state :: "'tcp \<Rightarrow> string"
  t_send_slice :: "bytes \<Rightarrow> 'tcp \<Rightarrow> (string + nat) \<times> 'tcp"
  t_recv_slice :: "bytes \<Rightarrow> 'tcp \<Rightarrow> (tcp_recv_error + nat) \<times> bytes \<times> 'tcp"
  t_register_send_waker :: "waker_id \<Rightarrow> 'tcp \<Rightarrow> 'tcp \<times> waker_act list"
  t_register_recv_waker :: "waker_id \<Rightarrow> 'tcp \<Rightarrow> 'tcp \<times> waker_act list"
  t_remote_endpoint :: "'tcp \<Rightarrow> (ip_addr \<times> u16) option"
  t_local_endpoint :: "'tcp \<Rightarrow> (ip_addr \<times> u16) option"

record 'udp udp_crate =
  u_new :: "nat \<Rightarrow> bytes \<Rightarrow> nat \<Rightarrow> bytes \<Rightarrow> 'udp"    \<comment> \<open>receive, then transmit: metadata slots and storage\<close>
  u_bind :: "socket_addr \<Rightarrow> 'udp \<Rightarrow> string + 'udp"
  u_endpoint :: "'udp \<Rightarrow> ip_addr option \<times> u16"
  u_close :: "'udp \<Rightarrow> 'udp \<times> waker_act list"
  u_can_send :: "'udp \<Rightarrow> bool"
  u_can_recv :: "'udp \<Rightarrow> bool"
  u_send_slice :: "bytes \<Rightarrow> socket_addr \<Rightarrow> 'udp \<Rightarrow> string option \<times> 'udp"    \<comment> \<open>\<^const>\<open>None\<close>: \<^verbatim>\<open>Ok(())\<close>\<close>
  u_recv_slice :: "bytes \<Rightarrow> 'udp \<Rightarrow> (string + nat \<times> (ip_addr \<times> u16)) \<times> bytes \<times> 'udp"
  u_register_send_waker :: "waker_id \<Rightarrow> 'udp \<Rightarrow> 'udp \<times> waker_act list"
  u_register_recv_waker :: "waker_id \<Rightarrow> 'udp \<Rightarrow> 'udp \<times> waker_act list"

section \<open>Socket set and interface\<close>

datatype ('tcp, 'udp) socket = Socket_Tcp 'tcp | Socket_Udp 'udp

text \<open>
  \<^verbatim>\<open>get_mut\<close> and \<^verbatim>\<open>remove\<close> panic on an unknown handle (\<^const>\<open>None\<close>); \<open>ss_put\<close> is a write through the
  reference that \<^verbatim>\<open>get_mut\<close> returned. The socket that \<^verbatim>\<open>remove\<close> returns is dropped by the source, so
  its wakers are released.
\<close>

record ('ss, 'tcp, 'udp) set_crate =
  ss_new :: 'ss
  ss_add :: "('tcp, 'udp) socket \<Rightarrow> 'ss \<Rightarrow> socket_handle \<times> 'ss"
  ss_get :: "socket_handle \<Rightarrow> 'ss \<Rightarrow> ('tcp, 'udp) socket option"
  ss_put :: "socket_handle \<Rightarrow> ('tcp, 'udp) socket \<Rightarrow> 'ss \<Rightarrow> 'ss"
  ss_remove :: "socket_handle \<Rightarrow> 'ss \<Rightarrow> (waker_act list \<times> 'ss) option"

text \<open>An address with a prefix length, \<^verbatim>\<open>Ipv4Cidr\<close> and \<^verbatim>\<open>Ipv6Cidr\<close>.\<close>

record 'a cidr =
  cidr_address :: 'a
  cidr_prefix_len :: nat

datatype ip_cidr = IpCidr_Ipv4 "u32 cidr" | IpCidr_Ipv6 "u128 cidr"

record ('if, 'cap, 'ss, 'ck) iface_crate =
  cap_default :: 'cap
  cap_set_mtu :: "nat \<Rightarrow> 'cap \<Rightarrow> 'cap"
  cap_set_medium_ip :: "'cap \<Rightarrow> 'cap"
  cap_set_checksum :: "'ck \<Rightarrow> 'cap \<Rightarrow> 'cap"
  if_new :: "nat \<Rightarrow> 'cap virtual_interface \<Rightarrow> nat \<Rightarrow> 'if"      \<comment> \<open>seed, device, time\<close>
  if_set_any_ip :: "bool \<Rightarrow> 'if \<Rightarrow> 'if"
  if_push_addr :: "ip_cidr \<Rightarrow> 'if \<Rightarrow> 'if outcome"           \<comment> \<open>\<^verbatim>\<open>update_ip_addrs(|addrs| addrs.push(..).unwrap())\<close>\<close>
  if_add_default_ipv4_route :: "u32 \<Rightarrow> 'if \<Rightarrow> string + 'if"
  if_add_default_ipv6_route :: "u128 \<Rightarrow> 'if \<Rightarrow> string + 'if"
  if_poll :: "nat \<Rightarrow> 'if \<Rightarrow> 'cap virtual_interface \<Rightarrow> 'ss
     \<Rightarrow> 'if \<times> 'cap virtual_interface \<times> 'ss \<times> waker_act list"
  if_poll_delay :: "nat \<Rightarrow> 'if \<Rightarrow> 'ss \<Rightarrow> nat option"

record ('c, 'e, 'l, 'b, 'tcp, 'udp, 'ss, 'if, 'cap, 'ck) stack_deps =
  "('c, 'e, 'l, 'b) shared_deps" +
  d_wire :: wire_crate
  d_tcp :: "'tcp tcp_crate"
  d_udp :: "'udp udp_crate"
  d_set :: "('ss, 'tcp, 'udp) set_crate"
  d_iface :: "('if, 'cap, 'ss, 'ck) iface_crate"

section \<open>Documented behaviour\<close>

text \<open>
  The socket set is a collection indexed by handles: \<^verbatim>\<open>add\<close> returns a handle that is not in use,
  \<^verbatim>\<open>remove\<close> frees its handle, and each touches that handle only.
\<close>

definition set_laws :: "('ss, 'tcp, 'udp) set_crate \<Rightarrow> bool" where
  "set_laws S \<longleftrightarrow>
     (\<forall>h. ss_get S h (ss_new S) = None) \<and>
     (\<forall>x ss h ss'. ss_add S x ss = (h, ss') \<longrightarrow>
        ss_get S h ss = None \<and> (\<forall>h'. ss_get S h' ss' = (if h' = h then Some x else ss_get S h' ss))) \<and>
     (\<forall>h x ss h'. ss_get S h ss \<noteq> None \<longrightarrow>
        ss_get S h' (ss_put S h x ss) = (if h' = h then Some x else ss_get S h' ss)) \<and>
     (\<forall>h ss. ss_get S h ss \<noteq> None \<longrightarrow> (\<exists>acts ss'. ss_remove S h ss = Some (acts, ss') \<and>
        (\<forall>h'. ss_get S h' ss' = (if h' = h then None else ss_get S h' ss))))"

text \<open>
  A UDP socket that \<^verbatim>\<open>bind\<close> accepted has the given endpoint, and the operations other than \<^verbatim>\<open>bind\<close> and
  \<^verbatim>\<open>close\<close> do not change it.
\<close>

definition udp_laws :: "'udp udp_crate \<Rightarrow> bool" where
  "udp_laws U \<longleftrightarrow>
     (\<forall>a u u'. u_bind U a u = Inr u' \<longrightarrow> u_endpoint U u' = (Some (addr_ip a), addr_port a)) \<and>
     (\<forall>d a u. u_endpoint U (snd (u_send_slice U d a u)) = u_endpoint U u) \<and>
     (\<forall>d u. u_endpoint U (snd (snd (u_recv_slice U d u))) = u_endpoint U u) \<and>
     (\<forall>w u. u_endpoint U (fst (u_register_send_waker U w u)) = u_endpoint U u) \<and>
     (\<forall>w u. u_endpoint U (fst (u_register_recv_waker U w u)) = u_endpoint U u)"

text \<open>
  Polling the interface neither adds nor removes a socket, keeps the endpoints of UDP sockets, and
  uses the device only through its \<^verbatim>\<open>Device\<close> trait.
\<close>

fun same_socket :: "'udp udp_crate \<Rightarrow> ('tcp, 'udp) socket option \<Rightarrow> ('tcp, 'udp) socket option \<Rightarrow> bool" where
  "same_socket U None y \<longleftrightarrow> y = None"
| "same_socket U (Some (Socket_Tcp t)) y \<longleftrightarrow> (\<exists>t'. y = Some (Socket_Tcp t'))"
| "same_socket U (Some (Socket_Udp u)) y \<longleftrightarrow> (\<exists>u'. y = Some (Socket_Udp u') \<and> u_endpoint U u' = u_endpoint U u)"

definition iface_laws ::
  "bytes_crate \<Rightarrow> 'udp udp_crate \<Rightarrow> ('ss, 'tcp, 'udp) set_crate \<Rightarrow> ('if, 'cap, 'ss, 'ck) iface_crate \<Rightarrow> bool" where
  "iface_laws B U S I \<longleftrightarrow>
     (\<forall>now i vi ss i' vi' ss' acts. if_poll I now i vi ss = (i', vi', ss', acts) \<longrightarrow>
        (\<forall>h. same_socket U (ss_get S h ss) (ss_get S h ss')) \<and>
        (\<exists>es. run (device_step B) vi es vi'))"

end
