(* ===== verification/Stack.thy ===== *)
theory Stack
  imports Smoltcp
begin

text \<open>
  \<^verbatim>\<open>src/tcp_stack/mod.rs\<close>: the state of \<^verbatim>\<open>TcpStack\<close>, the handlers of each kind of request, and
  \<^verbatim>\<open>drive_once\<close>. The state extends the shared part by the stack's own fields. What the stack sends
  to the two acceptors is the list of everything sent (the sources ignore what those sends return).

  A handler returns the new state, or the panic that stops it. \<^verbatim>\<open>anyhow\<close> errors are their text. The
  two panic messages that print a handle are kept without it.
\<close>

section \<open>State\<close>

record tcp_info =
  ti_handle :: socket_handle
  ti_local_addr :: socket_addr
  ti_remote_addr :: socket_addr

record udp_info =
  ui_handle :: socket_handle
  ui_remote_addr :: socket_addr

record ('c, 'e, 'b, 'ss, 'if, 'cap) tcp_stack = "('c, 'e, 'b) shared" +
  st_ipv4_addr :: "u32 option"
  st_ipv4_gateway :: "u32 option"
  st_ipv6_addr :: "u128 option"
  st_ipv6_gateway :: "u128 option"
  st_tcp_socket_buf_size :: nat
  st_interface :: 'if
  st_virtual_iface :: "'cap virtual_interface"
  st_socket_set :: 'ss
  st_socket_handles :: "typed_socket_handle set"
  st_accepted_udp_sockets :: "socket_addr set"
  st_tcp_stream_tx :: "tcp_info io_result list"
  st_udp_stream_tx :: "udp_info io_result list"

definition SOCKET_BUF_SIZE :: nat where
  "SOCKET_BUF_SIZE = 128 * 1024"

definition MTU :: nat where
  "MTU = 1500"

section \<open>Sockets of the set\<close>

text \<open>\<^verbatim>\<open>get_mut::<T>(handle)\<close>: panics when the handle is unknown or the socket has another type.\<close>

definition get_tcp ::
  "('c, 'e, 'l, 'b, 'tcp, 'udp, 'ss, 'if, 'cap, 'ck) stack_deps \<Rightarrow> socket_handle
   \<Rightarrow> ('c, 'e, 'b, 'ss, 'if, 'cap) tcp_stack \<Rightarrow> 'tcp outcome" where
  "get_tcp D h s =
     (case ss_get (d_set D) h (st_socket_set s) of
        Some (Socket_Tcp t) \<Rightarrow> Inr t | _ \<Rightarrow> Inl Panic_socket_set)"

definition get_udp ::
  "('c, 'e, 'l, 'b, 'tcp, 'udp, 'ss, 'if, 'cap, 'ck) stack_deps \<Rightarrow> socket_handle
   \<Rightarrow> ('c, 'e, 'b, 'ss, 'if, 'cap) tcp_stack \<Rightarrow> 'udp outcome" where
  "get_udp D h s =
     (case ss_get (d_set D) h (st_socket_set s) of
        Some (Socket_Udp u) \<Rightarrow> Inr u | _ \<Rightarrow> Inl Panic_socket_set)"

definition put_socket ::
  "('c, 'e, 'l, 'b, 'tcp, 'udp, 'ss, 'if, 'cap, 'ck) stack_deps \<Rightarrow> socket_handle \<Rightarrow> ('tcp, 'udp) socket
   \<Rightarrow> ('c, 'e, 'b, 'ss, 'if, 'cap) tcp_stack \<Rightarrow> ('c, 'e, 'b, 'ss, 'if, 'cap) tcp_stack" where
  "put_socket D h x s = s\<lparr>st_socket_set := ss_put (d_set D) h x (st_socket_set s)\<rparr>"

definition create_tcp_socket :: "'tcp tcp_crate \<Rightarrow> nat \<Rightarrow> 'tcp" where
  "create_tcp_socket T socket_buf_size =
     (let tx_socket_buf = replicate socket_buf_size 0;
          rx_socket_buf = replicate socket_buf_size 0;
          socket = t_new T rx_socket_buf tx_socket_buf
      in t_set_nagle_enabled T False socket)"

definition create_udp_socket :: "'udp udp_crate \<Rightarrow> nat \<Rightarrow> 'udp" where
  "create_udp_socket U socket_buf_size =
     (let tx_socket_buf = replicate socket_buf_size 0;
          rx_socket_buf = replicate socket_buf_size 0
      in u_new U 4096 rx_socket_buf 4096 tx_socket_buf)"

text \<open>
  Registering a new closure with a socket: a new waker cell, the registration, and what it did to
  the wakers registered before.
\<close>

definition park_tcp ::
  "('c, 'e, 'l, 'b, 'tcp, 'udp, 'ss, 'if, 'cap, 'ck) stack_deps
   \<Rightarrow> (waker_id \<Rightarrow> 'tcp \<Rightarrow> 'tcp \<times> waker_act list) \<Rightarrow> waker_fn \<Rightarrow> socket_handle \<Rightarrow> 'tcp
   \<Rightarrow> ('c, 'e, 'b, 'ss, 'if, 'cap) tcp_stack \<Rightarrow> ('c, 'e, 'b, 'ss, 'if, 'cap) tcp_stack outcome" where
  "park_tcp D register f h sock s =
     (let (w, s1) = new_waker f s; (sock', acts) = register w sock
      in do_waker_acts D acts (put_socket D h (Socket_Tcp sock') s1))"

definition park_udp ::
  "('c, 'e, 'l, 'b, 'tcp, 'udp, 'ss, 'if, 'cap, 'ck) stack_deps
   \<Rightarrow> (waker_id \<Rightarrow> 'udp \<Rightarrow> 'udp \<times> waker_act list) \<Rightarrow> waker_fn \<Rightarrow> socket_handle \<Rightarrow> 'udp
   \<Rightarrow> ('c, 'e, 'b, 'ss, 'if, 'cap) tcp_stack \<Rightarrow> ('c, 'e, 'b, 'ss, 'if, 'cap) tcp_stack outcome" where
  "park_udp D register f h sock s =
     (let (w, s1) = new_waker f s; (sock', acts) = register w sock
      in do_waker_acts D acts (put_socket D h (Socket_Udp sock') s1))"

definition remove_tcp_socket ::
  "('c, 'e, 'l, 'b, 'tcp, 'udp, 'ss, 'if, 'cap, 'ck) stack_deps \<Rightarrow> socket_handle
   \<Rightarrow> ('c, 'e, 'b, 'ss, 'if, 'cap) tcp_stack \<Rightarrow> ('c, 'e, 'b, 'ss, 'if, 'cap) tcp_stack outcome" where
  "remove_tcp_socket D h s =
     (case ss_remove (d_set D) h (st_socket_set s) of
        None \<Rightarrow> Inl Panic_socket_set
      | Some (acts, ss') \<Rightarrow>
          obind (do_waker_acts D acts (s\<lparr>st_socket_set := ss'\<rparr>)) (\<lambda>s1.
          Inr (s1\<lparr>st_socket_handles := st_socket_handles s1 - {Typed_Tcp h}\<rparr>)))"

definition remove_udp_socket ::
  "('c, 'e, 'l, 'b, 'tcp, 'udp, 'ss, 'if, 'cap, 'ck) stack_deps \<Rightarrow> socket_handle \<Rightarrow> socket_addr
   \<Rightarrow> ('c, 'e, 'b, 'ss, 'if, 'cap) tcp_stack \<Rightarrow> ('c, 'e, 'b, 'ss, 'if, 'cap) tcp_stack outcome" where
  "remove_udp_socket D h dst s =
     (case ss_remove (d_set D) h (st_socket_set s) of
        None \<Rightarrow> Inl Panic_socket_set
      | Some (acts, ss') \<Rightarrow>
          obind (do_waker_acts D acts (s\<lparr>st_socket_set := ss'\<rparr>)) (\<lambda>s1.
          Inr (s1\<lparr>st_accepted_udp_sockets := st_accepted_udp_sockets s1 - {dst},
                  st_socket_handles := st_socket_handles s1 - {Typed_Udp h}\<rparr>)))"

section \<open>Opening sockets for new flows\<close>

definition init_tcp ::
  "('c, 'e, 'l, 'b, 'tcp, 'udp, 'ss, 'if, 'cap, 'ck) stack_deps \<Rightarrow> socket_addr
   \<Rightarrow> ('c, 'e, 'b, 'ss, 'if, 'cap) tcp_stack
   \<Rightarrow> (string option \<times> ('c, 'e, 'b, 'ss, 'if, 'cap) tcp_stack) outcome" where
  "init_tcp D dst s =
     (case t_listen (d_tcp D) dst (create_tcp_socket (d_tcp D) (st_tcp_socket_buf_size s)) of
        Inl e \<Rightarrow> Inr (Some e, s)
      | Inr socket \<Rightarrow>
          (let (handle, ss') = ss_add (d_set D) (Socket_Tcp socket) (st_socket_set s);
               s1 = s\<lparr>st_socket_set := ss',
                      st_socket_handles := insert (Typed_Tcp handle) (st_socket_handles s)\<rparr>
           in obind (get_tcp D handle s1) (\<lambda>sock.
              obind (park_tcp D (t_register_send_waker (d_tcp D)) (Wake_ready handle) handle sock s1) (\<lambda>s2.
              Inr (None, s2)))))"

definition try_init_udp ::
  "('c, 'e, 'l, 'b, 'tcp, 'udp, 'ss, 'if, 'cap, 'ck) stack_deps \<Rightarrow> socket_addr
   \<Rightarrow> ('c, 'e, 'b, 'ss, 'if, 'cap) tcp_stack
   \<Rightarrow> (string + bool) \<times> ('c, 'e, 'b, 'ss, 'if, 'cap) tcp_stack" where
  "try_init_udp D dst s =
     (if dst \<in> st_accepted_udp_sockets s then (Inr False, s)
      else
        (case u_bind (d_udp D) dst (create_udp_socket (d_udp D) SOCKET_BUF_SIZE) of
           Inl e \<Rightarrow> (Inl ''udp socket bind failed'', s)
         | Inr socket \<Rightarrow>
             (let (handle, ss') = ss_add (d_set D) (Socket_Udp socket) (st_socket_set s);
                  typed_handle = Typed_Udp handle;
                  s1 = s\<lparr>st_socket_set := ss',
                         st_socket_handles := insert typed_handle (st_socket_handles s),
                         st_accepted_udp_sockets := insert dst (st_accepted_udp_sockets s)\<rparr>
              in case send_event D (Ready typed_handle) s1 of
                   (SendError _, s2) \<Rightarrow> (Inl ''send udp ready event failed'', s2)
                 | (Sent, s2) \<Rightarrow> (Inr True, s2))))"

section \<open>Requests that change the life of a socket\<close>

definition handle_shutdown_event ::
  "('c, 'e, 'l, 'b, 'tcp, 'udp, 'ss, 'if, 'cap, 'ck) stack_deps \<Rightarrow> typed_socket_handle \<Rightarrow> tx_id
   \<Rightarrow> ('c, 'e, 'b, 'ss, 'if, 'cap) tcp_stack \<Rightarrow> ('c, 'e, 'b, 'ss, 'if, 'cap) tcp_stack outcome" where
  "handle_shutdown_event D typed_handle res_tx s =
     (if typed_handle \<in> st_socket_handles s then
        (case typed_handle of
           Typed_Tcp handle \<Rightarrow>
             obind (get_tcp D handle s) (\<lambda>socket.
             let (w, s1) = new_waker (Wake_shutdown res_tx) s;
                 (socket1, acts1) = t_register_send_waker (d_tcp D) w socket;
                 (socket2, acts2) = t_close (d_tcp D) socket1
             in do_waker_acts D (acts1 @ acts2) (put_socket D handle (Socket_Tcp socket2) s1))
         | Typed_Udp _ \<Rightarrow> Inl Panic_unreachable)
      else Inr (send_reply res_tx (Reply_unit (Inl (Error_new Other ''unknown shutdown event''))) s))"

definition handle_close_event ::
  "('c, 'e, 'l, 'b, 'tcp, 'udp, 'ss, 'if, 'cap, 'ck) stack_deps \<Rightarrow> typed_socket_handle
   \<Rightarrow> ('c, 'e, 'b, 'ss, 'if, 'cap) tcp_stack \<Rightarrow> ('c, 'e, 'b, 'ss, 'if, 'cap) tcp_stack outcome" where
  "handle_close_event D typed_handle s =
     (if typed_handle \<in> st_socket_handles s then
        (case typed_handle of
           Typed_Tcp handle \<Rightarrow>
             obind (get_tcp D handle s) (\<lambda>socket.
             let (socket1, acts) = t_close (d_tcp D) socket
             in obind (do_waker_acts D acts (put_socket D handle (Socket_Tcp socket1) s)) (\<lambda>s1.
                if \<not> t_is_active (d_tcp D) socket1 then remove_tcp_socket D handle s1
                else park_tcp D (t_register_recv_waker (d_tcp D)) (Wake_close handle) handle socket1 s1))
         | Typed_Udp handle \<Rightarrow>
             obind (get_udp D handle s) (\<lambda>socket.
             case u_endpoint (d_udp D) socket of
               (None, _) \<Rightarrow> Inl (Panic_expect ''udp should always bind an addr'')
             | (Some ip, port) \<Rightarrow>
                 (let addr = SocketAddr_new ip port;
                      (socket1, acts) = u_close (d_udp D) socket
                  in obind (do_waker_acts D acts (put_socket D handle (Socket_Udp socket1) s)) (\<lambda>s1.
                     remove_udp_socket D handle addr s1))))
      else Inr s)"

definition handle_ready_wake_event ::
  "('c, 'e, 'l, 'b, 'tcp, 'udp, 'ss, 'if, 'cap, 'ck) stack_deps \<Rightarrow> typed_socket_handle
   \<Rightarrow> ('c, 'e, 'b, 'ss, 'if, 'cap) tcp_stack \<Rightarrow> ('c, 'e, 'b, 'ss, 'if, 'cap) tcp_stack outcome" where
  "handle_ready_wake_event D typed_handle s =
     (case typed_handle of
        Typed_Tcp handle \<Rightarrow>
          obind (get_tcp D handle s) (\<lambda>socket.
          if \<not> t_may_recv (d_tcp D) socket then
            park_tcp D (t_register_recv_waker (d_tcp D)) (Wake_ready handle) handle socket s
          else
            (case t_remote_endpoint (d_tcp D) socket of
               None \<Rightarrow> Inl (Panic_expect ''tcp socket doesn't have local addr'')
             | Some (lip, lport) \<Rightarrow>
                 (case t_local_endpoint (d_tcp D) socket of
                    None \<Rightarrow> Inl (Panic_expect ''tcp socket doesn't have remote addr'')
                  | Some (rip, rport) \<Rightarrow>
                      Inr (s\<lparr>st_tcp_stream_tx := st_tcp_stream_tx s @
                        [Inr \<lparr>ti_handle = handle, ti_local_addr = SocketAddr_new lip lport,
                              ti_remote_addr = SocketAddr_new rip rport\<rparr>]\<rparr>))))
      | Typed_Udp handle \<Rightarrow>
          obind (get_udp D handle s) (\<lambda>socket.
          case u_endpoint (d_udp D) socket of
            (None, _) \<Rightarrow> Inl (Panic_expect ''udp should always bind an addr'')
          | (Some ip, port) \<Rightarrow>
              Inr (s\<lparr>st_udp_stream_tx := st_udp_stream_tx s @
                [Inr \<lparr>ui_handle = handle, ui_remote_addr = SocketAddr_new ip port\<rparr>]\<rparr>)))"

section \<open>Data transfer requests\<close>

text \<open>
  The value behind a buffer reference. \<open>answer\<close> is the pair of statements that ends a request with a
  buffer everywhere in the source: \<^verbatim>\<open>drop(buffer); let _ = result_tx.send(..);\<close>.
\<close>

definition buf_value :: "buf_id \<Rightarrow> ('c, 'e, 'b, 'z) shared_scheme \<Rightarrow> 'b shared_buf outcome" where
  "buf_value b s = (case sh_bufs s b of None \<Rightarrow> Inl Dangling_arc | Some c \<Rightarrow> Inr (arc_data c))"

definition set_buf :: "buf_id \<Rightarrow> 'b shared_buf \<Rightarrow> ('c, 'e, 'b, 'z) shared_scheme \<Rightarrow> ('c, 'e, 'b, 'z) shared_scheme" where
  "set_buf b v s = s\<lparr>sh_bufs := arc_update b (\<lambda>_. v) (sh_bufs s)\<rparr>"

definition answer :: "buf_id \<Rightarrow> tx_id \<Rightarrow> reply \<Rightarrow> ('c, 'e, 'b, 'z) shared_scheme \<Rightarrow> ('c, 'e, 'b, 'z) shared_scheme" where
  "answer b t r s = send_reply t r (drop_buf b s)"

fun handle_tcp_wake_event ::
  "('c, 'e, 'l, 'b, 'tcp, 'udp, 'ss, 'if, 'cap, 'ck) stack_deps \<Rightarrow> operation_event
   \<Rightarrow> ('c, 'e, 'b, 'ss, 'if, 'cap) tcp_stack \<Rightarrow> ('c, 'e, 'b, 'ss, 'if, 'cap) tcp_stack outcome" where
  "handle_tcp_wake_event D (Write handle buffer result_tx) s =
     (if Typed_Tcp handle \<notin> st_socket_handles s then
        Inr (answer buffer result_tx (Reply_usize (Inl (Error_from NotFound))) s)
      else
        obind (get_tcp D handle s) (\<lambda>socket.
        if \<not> t_can_send (d_tcp D) socket then
          if \<not> t_may_send (d_tcp D) socket then
            Inr (answer buffer result_tx (Reply_usize (Inl (Error_new BrokenPipe
              (''TCP send failed, socket state: '' @ t_state (d_tcp D) socket)))) s)
          else park_tcp D (t_register_send_waker (d_tcp D)) (Wake_write handle buffer result_tx) handle socket s
        else
          obind (buf_value buffer s) (\<lambda>sb.
          let (res, socket') = t_send_slice (d_tcp D) (as_slice (d_io D) sb) socket;
              s1 = put_socket D handle (Socket_Tcp socket') s
          in case res of
               Inl err \<Rightarrow> Inr (answer buffer result_tx (Reply_usize (Inl (Error_new Other err))) s1)
             | Inr n \<Rightarrow> Inr (answer buffer result_tx (Reply_usize (Inr n)) s1))))"
| "handle_tcp_wake_event D (Read handle buffer result_tx) s =
     (if Typed_Tcp handle \<notin> st_socket_handles s then
        Inr (answer buffer result_tx (Reply_usize (Inl (Error_from NotFound))) s)
      else
        obind (get_tcp D handle s) (\<lambda>socket.
        if t_recv_queue (d_tcp D) socket = 0 then
          if \<not> t_may_recv (d_tcp D) socket then
            Inr (answer buffer result_tx (Reply_usize (Inr 0)) s)
          else park_tcp D (t_register_recv_waker (d_tcp D)) (Wake_read handle buffer result_tx) handle socket s
        else
          obind (buf_value buffer s) (\<lambda>sb.
          let (res, mem, socket') = t_recv_slice (d_tcp D) (as_slice_mut (d_io D) sb) socket;
              sb1 = write_slice_mut (d_io D) mem sb;
              s1 = set_buf buffer sb1 (put_socket D handle (Socket_Tcp socket') s)
          in case res of
               Inl RecvError_Finished \<Rightarrow> Inr (answer buffer result_tx (Reply_usize (Inr 0)) s1)
             | Inl (RecvError_other err) \<Rightarrow> Inr (answer buffer result_tx (Reply_usize (Inl (Error_new Other err))) s1)
             | Inr n \<Rightarrow>
                 Inr (answer buffer result_tx (Reply_usize (Inr n))
                        (set_buf buffer (set_initiated_len (d_io D) n sb1) s1)))))"
| "handle_tcp_wake_event D (Recv _ _ _) s = Inl Panic_unreachable"
| "handle_tcp_wake_event D (Send _ _ _ _) s = Inl Panic_unreachable"
| "handle_tcp_wake_event D (Ready _) s = Inl Panic_unreachable"
| "handle_tcp_wake_event D (Shutdown _ _) s = Inl Panic_unreachable"
| "handle_tcp_wake_event D (Close _) s = Inl Panic_unreachable"

definition handle_tcp_wake_events ::
  "('c, 'e, 'l, 'b, 'tcp, 'udp, 'ss, 'if, 'cap, 'ck) stack_deps \<Rightarrow> operation_event list
   \<Rightarrow> ('c, 'e, 'b, 'ss, 'if, 'cap) tcp_stack \<Rightarrow> ('c, 'e, 'b, 'ss, 'if, 'cap) tcp_stack outcome" where
  "handle_tcp_wake_events D events s = for_each (handle_tcp_wake_event D) events s"

fun handle_udp_wake_event ::
  "('c, 'e, 'l, 'b, 'tcp, 'udp, 'ss, 'if, 'cap, 'ck) stack_deps \<Rightarrow> operation_event
   \<Rightarrow> ('c, 'e, 'b, 'ss, 'if, 'cap) tcp_stack \<Rightarrow> ('c, 'e, 'b, 'ss, 'if, 'cap) tcp_stack outcome" where
  "handle_udp_wake_event D (Send handle src buffer result_tx) s =
     (if Typed_Udp handle \<notin> st_socket_handles s then
        Inr (answer buffer result_tx (Reply_usize (Inl (Error_from NotFound))) s)
      else
        obind (get_udp D handle s) (\<lambda>socket.
        if \<not> u_can_send (d_udp D) socket then
          park_udp D (u_register_send_waker (d_udp D)) (Wake_send handle src buffer result_tx) handle socket s
        else
          obind (buf_value buffer s) (\<lambda>sb.
          let (res, socket') = u_send_slice (d_udp D) (as_slice (d_io D) sb) src socket;
              s1 = put_socket D handle (Socket_Udp socket') s
          in case res of
               Some err \<Rightarrow> Inr (answer buffer result_tx (Reply_usize (Inl (Error_new Other err))) s1)
             | None \<Rightarrow>
                 (let len = length (as_slice (d_io D) sb)
                  in Inr (answer buffer result_tx (Reply_usize (Inr len)) s1)))))"
| "handle_udp_wake_event D (Recv handle buffer result_tx) s =
     (if Typed_Udp handle \<notin> st_socket_handles s then
        Inr (answer buffer result_tx (Reply_from (Inl (Error_from NotFound))) s)
      else
        obind (get_udp D handle s) (\<lambda>socket.
        if \<not> u_can_recv (d_udp D) socket then
          park_udp D (u_register_recv_waker (d_udp D)) (Wake_recv handle buffer result_tx) handle socket s
        else
          obind (buf_value buffer s) (\<lambda>sb.
          let (res, mem, socket') = u_recv_slice (d_udp D) (as_slice_mut (d_io D) sb) socket;
              sb1 = write_slice_mut (d_io D) mem sb;
              s1 = set_buf buffer sb1 (put_socket D handle (Socket_Udp socket') s)
          in case res of
               Inl err \<Rightarrow> Inr (answer buffer result_tx (Reply_from (Inl (Error_new Other err))) s1)
             | Inr (n, (ip, port)) \<Rightarrow>
                 (let addr = SocketAddr_new ip port
                  in Inr (answer buffer result_tx (Reply_from (Inr (n, addr)))
                            (set_buf buffer (set_initiated_len (d_io D) n sb1) s1))))))"
| "handle_udp_wake_event D (Write _ _ _) s = Inl Panic_unreachable"
| "handle_udp_wake_event D (Read _ _ _) s = Inl Panic_unreachable"
| "handle_udp_wake_event D (Ready _) s = Inl Panic_unreachable"
| "handle_udp_wake_event D (Shutdown _ _) s = Inl Panic_unreachable"
| "handle_udp_wake_event D (Close _) s = Inl Panic_unreachable"

definition handle_udp_wake_events ::
  "('c, 'e, 'l, 'b, 'tcp, 'udp, 'ss, 'if, 'cap, 'ck) stack_deps \<Rightarrow> operation_event list
   \<Rightarrow> ('c, 'e, 'b, 'ss, 'if, 'cap) tcp_stack \<Rightarrow> ('c, 'e, 'b, 'ss, 'if, 'cap) tcp_stack outcome" where
  "handle_udp_wake_events D events s = for_each (handle_udp_wake_event D) events s"

section \<open>One turn of the event loop\<close>

text \<open>
  The \<^verbatim>\<open>for event in events\<close> loop of \<^verbatim>\<open>drive_once\<close>: transfers are set aside in two lists, the other
  requests are handled on the spot.
\<close>

fun dispatch_events ::
  "('c, 'e, 'l, 'b, 'tcp, 'udp, 'ss, 'if, 'cap, 'ck) stack_deps \<Rightarrow> operation_event list
   \<Rightarrow> operation_event list \<times> operation_event list \<times> ('c, 'e, 'b, 'ss, 'if, 'cap) tcp_stack
   \<Rightarrow> (operation_event list \<times> operation_event list \<times> ('c, 'e, 'b, 'ss, 'if, 'cap) tcp_stack) outcome" where
  "dispatch_events D [] st = Inr st"
| "dispatch_events D (event # events) (tcp_events, udp_events, s) =
     (case event of
        Read _ _ _ \<Rightarrow> dispatch_events D events (tcp_events @ [event], udp_events, s)
      | Write _ _ _ \<Rightarrow> dispatch_events D events (tcp_events @ [event], udp_events, s)
      | Recv _ _ _ \<Rightarrow> dispatch_events D events (tcp_events, udp_events @ [event], s)
      | Send _ _ _ _ \<Rightarrow> dispatch_events D events (tcp_events, udp_events @ [event], s)
      | Ready typed_handle \<Rightarrow>
          obind (handle_ready_wake_event D typed_handle s) (\<lambda>s1.
          dispatch_events D events (tcp_events, udp_events, s1))
      | Shutdown handle result_tx \<Rightarrow>
          obind (handle_shutdown_event D handle result_tx s) (\<lambda>s1.
          dispatch_events D events (tcp_events, udp_events, s1))
      | Close typed_handle \<Rightarrow>
          obind (handle_close_event D typed_handle s) (\<lambda>s1.
          dispatch_events D events (tcp_events, udp_events, s1)))"

definition drive_events ::
  "('c, 'e, 'l, 'b, 'tcp, 'udp, 'ss, 'if, 'cap, 'ck) stack_deps \<Rightarrow> operation_event list
   \<Rightarrow> ('c, 'e, 'b, 'ss, 'if, 'cap) tcp_stack \<Rightarrow> ('c, 'e, 'b, 'ss, 'if, 'cap) tcp_stack outcome" where
  "drive_events D events s =
     obind (dispatch_events D events ([], [], s)) (\<lambda>(tcp_events, udp_events, s1).
     obind (if tcp_events \<noteq> [] then handle_tcp_wake_events D tcp_events s1 else Inr s1) (\<lambda>s2.
     if udp_events \<noteq> [] then handle_udp_wake_events D udp_events s2 else Inr s2))"

text \<open>
  The part of \<^verbatim>\<open>drive_once\<close> for an incoming packet. \<^const>\<open>Some\<close> is the error that \<^verbatim>\<open>?\<close> returns, before
  the packet reaches the device.
\<close>

definition drive_packet ::
  "('c, 'e, 'l, 'b, 'tcp, 'udp, 'ss, 'if, 'cap, 'ck) stack_deps \<Rightarrow> bytes
   \<Rightarrow> ('c, 'e, 'b, 'ss, 'if, 'cap) tcp_stack
   \<Rightarrow> (string option \<times> ('c, 'e, 'b, 'ss, 'if, 'cap) tcp_stack) outcome" where
  "drive_packet D packet s =
     obind (case parse_packet (d_wire D) packet of
              None \<Rightarrow> Inr (None, s)
            | Some (PacketType_Tcp src dst) \<Rightarrow> init_tcp D dst s
            | Some (PacketType_Udp src dst) \<Rightarrow>
                (case try_init_udp D dst s of
                   (Inl e, s1) \<Rightarrow> Inr (Some e, s1)
                 | (Inr _, s1) \<Rightarrow> Inr (None, s1))) (\<lambda>(err, s1).
     case err of
       Some e \<Rightarrow> Inr (Some e, s1)
     | None \<Rightarrow> Inr (None, s1\<lparr>st_virtual_iface := push_receive_packet packet (st_virtual_iface s1)\<rparr>))"

definition poll_interface ::
  "('c, 'e, 'l, 'b, 'tcp, 'udp, 'ss, 'if, 'cap, 'ck) stack_deps \<Rightarrow> nat
   \<Rightarrow> ('c, 'e, 'b, 'ss, 'if, 'cap) tcp_stack \<Rightarrow> ('c, 'e, 'b, 'ss, 'if, 'cap) tcp_stack outcome" where
  "poll_interface D timestamp s =
     (let (i, vi, ss, acts) = if_poll (d_iface D) timestamp (st_interface s) (st_virtual_iface s) (st_socket_set s)
      in do_waker_acts D acts (s\<lparr>st_interface := i, st_virtual_iface := vi, st_socket_set := ss\<rparr>))"

text \<open>
  \<^verbatim>\<open>drive_once\<close>. The clock reading is an argument. An early return drops the batch of events.
\<close>

definition drive_once ::
  "('c, 'e, 'l, 'b, 'tcp, 'udp, 'ss, 'if, 'cap, 'ck) stack_deps \<Rightarrow> nat \<Rightarrow> bytes option \<Rightarrow> events option
   \<Rightarrow> ('c, 'e, 'b, 'ss, 'if, 'cap) tcp_stack
   \<Rightarrow> ((string + bytes list \<times> nat option) \<times> ('c, 'e, 'b, 'ss, 'if, 'cap) tcp_stack) outcome" where
  "drive_once D timestamp packet events s =
     obind (case packet of None \<Rightarrow> Inr (None, s) | Some p \<Rightarrow> drive_packet D p s) (\<lambda>(err, s1).
     case err of
       Some e \<Rightarrow>
         Inr (Inl e, fold drop_event (case events of None \<Rightarrow> [] | Some evs \<Rightarrow> events_list evs) s1)
     | None \<Rightarrow>
         obind (poll_interface D timestamp s1) (\<lambda>s2.
         obind (case events of None \<Rightarrow> Inr s2 | Some evs \<Rightarrow> drive_events D (events_list evs) s2) (\<lambda>s3.
         let sleep = if_poll_delay (d_iface D) timestamp (st_interface s3) (st_socket_set s3);
             (packets, vi) = pop_all_send_packets (st_virtual_iface s3)
         in Inr (Inr (packets, sleep), s3\<lparr>st_virtual_iface := vi\<rparr>))))"

declare drive_once_def [turn_defs] poll_interface_def [turn_defs] drive_events_def [turn_defs]
  drive_packet_def [turn_defs] parse_packet_def [turn_defs] init_tcp_def [turn_defs] create_tcp_socket_def [turn_defs]
  park_tcp_def [turn_defs] get_tcp_def [turn_defs] put_socket_def [turn_defs]
  handle_tcp_wake_events_def [turn_defs] handle_ready_wake_event_def [turn_defs]
  buf_value_def [turn_defs] set_buf_def [turn_defs] answer_def [turn_defs]

declare do_waker_acts_def [turn_defs] new_waker_def [turn_defs] wake_once_fn_def [turn_defs]
  send_event_def [turn_defs] notify_send_def [turn_defs] send_reply_def [turn_defs] drop_buf_def [turn_defs]
  as_slice_mut_def [turn_defs] write_slice_mut_def [turn_defs] set_initiated_len_def [turn_defs]
  arc_update_def [turn_defs] arc_drop_def [turn_defs]
  pop_all_send_packets_def [turn_defs] push_receive_packet_def [turn_defs]

end
