(* ===== verification/Accounting.thy ===== *)
theory Accounting
  imports Shared
begin

text \<open>
  The bookkeeping behind the safety of the shared buffers. A request is the sending half of a
  result channel with the buffer reference that travels with it. At any time it is in one place:
  in the request channel, in a closure registered with a socket, or in the hands of the code that
  handles it; it leaves by a reply or by a hang-up, and its buffer reference is dropped just before.
\<close>

section \<open>Where requests are\<close>

type_synonym request = "tx_id \<times> buf_id option"

fun ev_reqs :: "operation_event \<Rightarrow> request multiset" where
  "ev_reqs (Ready h) = {#}"
| "ev_reqs (Read h b t) = {#(t, Some b)#}"
| "ev_reqs (Write h b t) = {#(t, Some b)#}"
| "ev_reqs (Recv h b t) = {#(t, Some b)#}"
| "ev_reqs (Send h a b t) = {#(t, Some b)#}"
| "ev_reqs (Shutdown h t) = {#(t, None)#}"
| "ev_reqs (Close h) = {#}"

fun waker_reqs :: "waker_fn \<Rightarrow> request multiset" where
  "waker_reqs (Wake_shutdown t) = {#(t, None)#}"
| "waker_reqs (Wake_close h) = {#}"
| "waker_reqs (Wake_ready h) = {#}"
| "waker_reqs (Wake_write h b t) = {#(t, Some b)#}"
| "waker_reqs (Wake_read h b t) = {#(t, Some b)#}"
| "waker_reqs (Wake_send h a b t) = {#(t, Some b)#}"
| "waker_reqs (Wake_recv h b t) = {#(t, Some b)#}"

definition cell_reqs :: "waker_fn atomic_option option \<Rightarrow> request multiset" where
  "cell_reqs c = (case c of None \<Rightarrow> {#} | Some a \<Rightarrow> if ao_used a then {#} else waker_reqs (ao_value a))"

lemma cell_reqs_simps [simp]:
  "cell_reqs None = {#}"
  "cell_reqs (Some a) = (if ao_used a then {#} else waker_reqs (ao_value a))"
  by (simp_all add: cell_reqs_def)

definition events_reqs :: "operation_event list \<Rightarrow> request multiset" where
  "events_reqs es = sum_list (map ev_reqs es)"

lemma events_reqs_simps [simp]:
  "events_reqs [] = {#}" "events_reqs (e # es) = ev_reqs e + events_reqs es"
  "events_reqs (es @ fs) = events_reqs es + events_reqs fs"
  by (simp_all add: events_reqs_def)

definition held :: "('c \<Rightarrow> operation_event list) \<Rightarrow> ('c, 'e, 'b, 'z) shared_scheme \<Rightarrow> request multiset" where
  "held q s = events_reqs (q (nc_chan (sh_ch s))) + sum_list (map cell_reqs (sh_wakers s))"

lemma sum_list_update_mset:
  fixes f :: "'a \<Rightarrow> 'm multiset"
  shows "i < length xs \<Longrightarrow> sum_list (map f (xs[i := y])) + f (xs ! i) = sum_list (map f xs) + f y"
proof (induction xs arbitrary: i)
  case (Cons x xs)
  then show ?case by (cases i) (auto simp: ac_simps)
qed simp

lemma filter_mset_none: "filter_mset P M = {#} \<longleftrightarrow> (\<forall>x. x \<in># M \<longrightarrow> \<not> P x)"
  by (induction M) auto

section \<open>How requests leave\<close>

text \<open>
  A well-formed piece of the log is a sequence of blocks: a reply or a hang-up, with the drop of
  the request's buffer reference right before it when it has one. The second argument collects
  the requests that left.
\<close>

inductive block_trace :: "action list \<Rightarrow> request multiset \<Rightarrow> bool" where
  bt_nil [simp, intro]: "block_trace [] {#}"
| bt_reply_buf: "block_trace tr M \<Longrightarrow> block_trace (tr @ [Dropped_buf b, Replied t r]) (M + {#(t, Some b)#})"
| bt_hangup_buf: "block_trace tr M \<Longrightarrow> block_trace (tr @ [Dropped_buf b, Hung_up t]) (M + {#(t, Some b)#})"
| bt_reply: "block_trace tr M \<Longrightarrow> block_trace (tr @ [Replied t r]) (M + {#(t, None)#})"
| bt_hangup: "block_trace tr M \<Longrightarrow> block_trace (tr @ [Hung_up t]) (M + {#(t, None)#})"

lemma block_trace_append:
  "block_trace tr' M' \<Longrightarrow> block_trace tr M \<Longrightarrow> block_trace (tr @ tr') (M + M')"
proof (induction rule: block_trace.induct)
  case (bt_reply_buf tr' M' b t r)
  then show ?case using block_trace.bt_reply_buf[of "tr @ tr'" "M + M'" b t r] by simp
next
  case (bt_hangup_buf tr' M' b t)
  then show ?case using block_trace.bt_hangup_buf[of "tr @ tr'" "M + M'" b t] by simp
next
  case (bt_reply tr' M' t r)
  then show ?case using block_trace.bt_reply[of "tr @ tr'" "M + M'" t r] by simp
next
  case (bt_hangup tr' M' t)
  then show ?case using block_trace.bt_hangup[of "tr @ tr'" "M + M'" t] by simp
qed simp

section \<open>Reference counts\<close>

definition buf_count :: "request multiset \<Rightarrow> buf_id \<Rightarrow> nat" where
  "buf_count M b = size (filter_mset (\<lambda>p. snd p = Some b) M)"

lemma buf_count_simps [simp]:
  "buf_count {#} b = 0" "buf_count (M + N) b = buf_count M b + buf_count N b"
  "buf_count (add_mset p M) b = (if snd p = Some b then Suc (buf_count M b) else buf_count M b)"
  by (simp_all add: buf_count_def)

text \<open>
  \<open>owned u q R s\<close>: every strong count is what the requests in \<open>s\<close> and the requests \<open>R\<close> in hand
  hold, plus \<open>u\<close>, the references of the waiting futures.
\<close>

definition owned ::
  "(buf_id \<Rightarrow> nat) \<Rightarrow> ('c \<Rightarrow> operation_event list) \<Rightarrow> request multiset \<Rightarrow> ('c, 'e, 'b, 'z) shared_scheme \<Rightarrow> bool" where
  "owned u q R s \<longleftrightarrow> (\<forall>b. strong_count (sh_bufs s) b = buf_count (held q s + R) b + u b)"

text \<open>
  UDP sockets have no shutdown: a request to shut one down is the one that would panic. \<open>calm q s\<close>: there
  is none in the channel.
\<close>

fun udp_shutdown :: "operation_event \<Rightarrow> bool" where
  "udp_shutdown (Shutdown (Typed_Udp _) _) = True"
| "udp_shutdown _ = False"

definition calm :: "('c \<Rightarrow> operation_event list) \<Rightarrow> ('c, 'e, 'b, 'z) shared_scheme \<Rightarrow> bool" where
  "calm q s \<longleftrightarrow> (\<forall>ev\<in>set (q (nc_chan (sh_ch s))). \<not> udp_shutdown ev)"

text \<open>
  \<open>accounts q R s R' s'\<close>: between \<open>s\<close> with the requests \<open>R\<close> in hand and \<open>s'\<close> with \<open>R'\<close> in hand, every
  request is accounted for, the log grew by whole blocks, the strong counts stay exact, and no
  shutdown of a UDP socket was requested.
\<close>

definition accounts ::
  "('c \<Rightarrow> operation_event list) \<Rightarrow> request multiset \<Rightarrow> ('c, 'e, 'b, 'z) shared_scheme
   \<Rightarrow> request multiset \<Rightarrow> ('c, 'e, 'b, 'z) shared_scheme \<Rightarrow> bool" where
  "accounts q R s R' s' \<longleftrightarrow>
     (\<exists>tr M. sh_trace s' = sh_trace s @ tr \<and> block_trace tr M \<and> held q s' + R' + M = held q s + R) \<and>
     (\<forall>u. owned u q R s \<longrightarrow> owned u q R' s') \<and> (calm q s \<longrightarrow> calm q s')"

lemma accountsI:
  assumes "sh_trace s' = sh_trace s @ tr" "block_trace tr M" "held q s' + R' + M = held q s + R"
    and "\<And>u. owned u q R s \<Longrightarrow> owned u q R' s'" "calm q s \<Longrightarrow> calm q s'"
  shows "accounts q R s R' s'"
  using assms unfolding accounts_def by blast

lemma accounts_owned: "accounts q R s R' s' \<Longrightarrow> owned u q R s \<Longrightarrow> owned u q R' s'"
  by (simp add: accounts_def)

lemma accounts_refl [simp, intro]: "accounts q R s R s"
  by (rule accountsI[of _ _ "[]" "{#}"]) simp_all

lemma accounts_trans [trans]:
  assumes "accounts q R s R' s'" "accounts q R' s' R'' s''"
  shows "accounts q R s R'' s''"
proof -
  from assms(1) obtain tr M where 1: "sh_trace s' = sh_trace s @ tr" "block_trace tr M"
    "held q s' + R' + M = held q s + R" and o1: "\<forall>u. owned u q R s \<longrightarrow> owned u q R' s'" "calm q s \<longrightarrow> calm q s'"
    unfolding accounts_def by blast
  from assms(2) obtain tr' M' where 2: "sh_trace s'' = sh_trace s' @ tr'" "block_trace tr' M'"
    "held q s'' + R'' + M' = held q s' + R'" and o2: "\<forall>u. owned u q R' s' \<longrightarrow> owned u q R'' s''"
    "calm q s' \<longrightarrow> calm q s''"
    unfolding accounts_def by blast
  show ?thesis
  proof (rule accountsI)
    show "sh_trace s'' = sh_trace s @ tr @ tr'" using 1 2 by simp
    show "block_trace (tr @ tr') (M + M')" using block_trace_append[OF 2(2) 1(2)] .
    have "held q s'' + R'' + (M + M') = (held q s'' + R'' + M') + M" by (simp add: ac_simps)
    then show "held q s'' + R'' + (M + M') = held q s + R" by (simp only: 2(3) 1(3))
    show "owned u q R'' s''" if "owned u q R s" for u using o1 o2 that by blast
    show "calm q s''" if "calm q s" using o1 o2 that by blast
  qed
qed

lemma accounts_same:
  assumes "sh_ch s' = sh_ch s" "sh_wakers s' = sh_wakers s" "sh_trace s' = sh_trace s"
    and "\<And>b. strong_count (sh_bufs s') b = strong_count (sh_bufs s) b"
  shows "accounts q R s R s'"
  by (rule accountsI[of _ _ "[]" "{#}"]) (use assms in \<open>simp_all add: held_def owned_def calm_def\<close>)

lemma accounts_reply_buf:
  "accounts q (R + {#(t, Some b)#}) s R (send_reply t r (drop_buf b s))"
  by (rule accountsI[of _ _ "[Dropped_buf b, Replied t r]" "{#(t, Some b)#}"])
    (use bt_reply_buf[OF bt_nil] in \<open>auto simp: send_reply_def drop_buf_def held_def owned_def calm_def split: if_splits\<close>)

lemma accounts_hangup_buf:
  "accounts q (R + {#(t, Some b)#}) s R (drop_tx t (drop_buf b s))"
  by (rule accountsI[of _ _ "[Dropped_buf b, Hung_up t]" "{#(t, Some b)#}"])
    (use bt_hangup_buf[OF bt_nil] in \<open>auto simp: drop_tx_def drop_buf_def held_def owned_def calm_def split: if_splits\<close>)

lemma accounts_reply: "accounts q (R + {#(t, None)#}) s R (send_reply t r s)"
  by (rule accountsI[of _ _ "[Replied t r]" "{#(t, None)#}"])
    (use bt_reply[OF bt_nil] in \<open>auto simp: send_reply_def held_def owned_def calm_def split: if_splits\<close>)

lemma accounts_hangup: "accounts q (R + {#(t, None)#}) s R (drop_tx t s)"
  by (rule accountsI[of _ _ "[Hung_up t]" "{#(t, None)#}"])
    (use bt_hangup[OF bt_nil] in \<open>auto simp: drop_tx_def held_def owned_def calm_def split: if_splits\<close>)

lemmas accounts_leave =
  accounts_reply_buf [folded add_mset_add_single] accounts_hangup_buf [folded add_mset_add_single]
  accounts_reply [folded add_mset_add_single] accounts_hangup [folded add_mset_add_single]

lemma accounts_move:
  assumes "sh_trace s' = sh_trace s" "sh_bufs s' = sh_bufs s" "held q s' + R' = held q s + R"
    and "calm q s \<Longrightarrow> calm q s'"
  shows "accounts q R s R' s'"
  by (rule accountsI[of _ _ "[]" "{#}"]) (use assms in \<open>simp_all add: owned_def\<close>)

lemma accounts_new_waker:
  "new_waker f s = (w, s') \<Longrightarrow> accounts q (R + waker_reqs f) s R s'"
  by (rule accounts_move) (auto simp: new_waker_def calm_def held_def wake_once_fn_def ac_simps)

lemma send_event_ok:
  assumes "crossbeam_laws (d_cb D) q tx rx" "send_event D ev s = (Sent, s')" "\<not> udp_shutdown ev"
  shows "accounts q (R + ev_reqs ev) s R s'"
  using assms(2,3) crossbeam_sendD[OF assms(1)]
  by (intro accounts_move)
    (auto simp: send_event_def notify_send_def held_def calm_def ac_simps split: sum.splits)

lemma send_event_err:
  assumes "crossbeam_laws (d_cb D) q tx rx" "send_event D ev s = (SendError ev', s')"
  shows "ev' = ev \<and> s' = s"
  using assms(2) crossbeam_send_errD[OF assms(1)]
  by (auto simp: send_event_def notify_send_def split: sum.splits)

lemma send_event_quiet:
  assumes "crossbeam_laws (d_cb D) q tx rx" "ev_reqs ev = {#}"
  shows "accounts q R s R (snd (send_event D ev s))"
proof (cases "send_event D ev s")
  case (Pair r s')
  then show ?thesis
    using send_event_ok[OF assms(1), of ev s s' R] send_event_err[OF assms(1), of ev s _ s'] assms(2)
    by (cases r; cases ev) auto
qed

section \<open>Wakers\<close>

text \<open>
  Running a closure passes its request on or answers it, and never panics: the channel returns
  the very event that could not be sent.
\<close>

lemma resend_cases:
  assumes "crossbeam_laws (d_cb D) q tx rx" "\<not> udp_shutdown ev"
  obtains (sent) s' where "send_event D ev s = (Sent, s')" "accounts q (R + ev_reqs ev) s R s'"
    | (failed) "send_event D ev s = (SendError ev, s)"
proof (cases "send_event D ev s")
  case (Pair r s')
  show ?thesis
  proof (cases r)
    case Sent
    with Pair have "send_event D ev s = (Sent, s')" by simp
    from sent[OF this send_event_ok[OF assms(1) this assms(2)]] show ?thesis .
  next
    case (SendError ev')
    with Pair have "send_event D ev s = (SendError ev, s)" using send_event_err[OF assms(1)] by blast
    then show ?thesis by (rule failed)
  qed
qed

lemma run_waker_fn_accounts:
  assumes "crossbeam_laws (d_cb D) q tx rx"
  shows "\<exists>s'. run_waker_fn D f s = Inr s' \<and> accounts q (R + waker_reqs f) s R s'"
proof (cases f)
  case (Wake_write h b t)
  then show ?thesis
    by (cases rule: resend_cases[OF assms, where ev = "Write h b t" and s = s and R = R]) (auto intro: accounts_leave)
next
  case (Wake_read h b t)
  then show ?thesis
    by (cases rule: resend_cases[OF assms, where ev = "Read h b t" and s = s and R = R]) (auto intro: accounts_leave)
next
  case (Wake_send h a b t)
  then show ?thesis
    by (cases rule: resend_cases[OF assms, where ev = "Send h a b t" and s = s and R = R]) (auto intro: accounts_leave)
next
  case (Wake_recv h b t)
  then show ?thesis
    by (cases rule: resend_cases[OF assms, where ev = "Recv h b t" and s = s and R = R]) (auto intro: accounts_leave)
qed (auto intro: accounts_leave send_event_quiet[OF assms])

lemma drop_waker_fn_accounts: "accounts q (R + waker_reqs f) s R (drop_waker_fn f s)"
  by (cases f) (auto intro: accounts_leave)

lemma drop_event_accounts: "accounts q (R + ev_reqs ev) s R (drop_event ev s)"
  by (cases ev) (auto intro: accounts_leave)

lemma take_cell_accounts:
  assumes "w < length (sh_wakers s)" "cell_reqs (sh_wakers s ! w) = X" "cell_reqs c = {#}"
  shows "accounts q R s (R + X) (s\<lparr>sh_wakers := (sh_wakers s)[w := c]\<rparr>)"
  using sum_list_update_mset[OF assms(1), of cell_reqs c] assms(2,3)
  by (intro accounts_move) (auto simp: held_def calm_def ac_simps)

lemma woken_accounts:
  assumes C: "crossbeam_laws (d_cb D) q tx rx" and w: "w < length (sh_wakers s)"
    and cell: "sh_wakers s ! w = Some cell"
  shows "\<exists>s'. do_waker_act D (Woken w) s = Inr s' \<and> accounts q R s R s'"
proof (cases "ao_used cell")
  case True
  then have "accounts q R s R (s\<lparr>sh_wakers := (sh_wakers s)[w := Some cell]\<rparr>)"
    using take_cell_accounts[OF w, of "{#}" "Some cell" q R] cell by simp
  with True w cell show ?thesis by simp
next
  case False
  let ?s = "s\<lparr>sh_wakers := (sh_wakers s)[w := Some (cell\<lparr>ao_used := True\<rparr>)]\<rparr>"
  obtain s' where s': "run_waker_fn D (ao_value cell) ?s = Inr s'"
    "accounts q (R + waker_reqs (ao_value cell)) ?s R s'"
    using run_waker_fn_accounts[OF C] by blast
  have "accounts q R s (R + waker_reqs (ao_value cell)) ?s"
    using False cell by (intro take_cell_accounts[OF w]) simp_all
  with s' False w cell show ?thesis by (auto intro: accounts_trans)
qed

lemma released_accounts:
  assumes w: "w < length (sh_wakers s)" and cell: "sh_wakers s ! w = Some cell"
  shows "\<exists>s'. do_waker_act D (Released w) s = Inr s' \<and> accounts q R s R s'"
proof -
  let ?s = "s\<lparr>sh_wakers := (sh_wakers s)[w := None]\<rparr>"
  have "accounts q R s (R + cell_reqs (Some cell)) ?s"
    using cell by (intro take_cell_accounts[OF w]) simp_all
  then show ?thesis
    using w cell accounts_trans[OF _ drop_waker_fn_accounts[of q R "ao_value cell" ?s]]
    by (cases "ao_used cell") (simp_all add: Let_def)
qed

lemma do_waker_act_accounts:
  assumes "crossbeam_laws (d_cb D) q tx rx"
  shows "\<exists>s'. do_waker_act D a s = Inr s' \<and> accounts q R s R s'"
proof -
  obtain w where a: "a = Woken w \<or> a = Released w" by (cases a) auto
  show ?thesis
  proof (cases "w < length (sh_wakers s)")
    case True
    then show ?thesis
      using a woken_accounts[OF assms True] released_accounts[OF True]
      by (cases "sh_wakers s ! w") auto
  qed (use a in auto)
qed

text \<open>
  The whole list of what smoltcp did to its wakers, whatever it is: no panic, every request
  accounted for.
\<close>

lemma do_waker_acts_accounts:
  assumes "crossbeam_laws (d_cb D) q tx rx"
  shows "\<exists>s'. do_waker_acts D acts s = Inr s' \<and> accounts q R s R s'"
  unfolding do_waker_acts_def
proof (rule for_each_total[where I = "accounts q R s R"])
  fix a s1 assume "accounts q R s R s1"
  then show "\<exists>s'. do_waker_act D a s1 = Inr s' \<and> accounts q R s R s'"
    using do_waker_act_accounts[OF assms, of a s1 R] accounts_trans by blast
qed simp

section \<open>Tokens\<close>

text \<open>
  \<open>Ready\<close> and \<open>Close\<close> requests and the closures that send them carry the right to speak for a socket.
  \<open>moving\<close> collects these tokens from the channel and the registered closures. What the wakers
  do may lose a token, when smoltcp releases a waker or the channel is closed, but never
  duplicates one.
\<close>

fun ev_token :: "operation_event \<Rightarrow> typed_socket_handle multiset" where
  "ev_token (Ready th) = {#th#}"
| "ev_token (Close th) = {#th#}"
| "ev_token _ = {#}"

fun waker_token :: "waker_fn \<Rightarrow> typed_socket_handle multiset" where
  "waker_token (Wake_ready h) = {#Typed_Tcp h#}"
| "waker_token (Wake_close h) = {#Typed_Tcp h#}"
| "waker_token _ = {#}"

definition cell_token :: "waker_fn atomic_option option \<Rightarrow> typed_socket_handle multiset" where
  "cell_token c = (case c of None \<Rightarrow> {#} | Some a \<Rightarrow> if ao_used a then {#} else waker_token (ao_value a))"

lemma cell_token_simps [simp]:
  "cell_token None = {#}"
  "cell_token (Some a) = (if ao_used a then {#} else waker_token (ao_value a))"
  by (simp_all add: cell_token_def)

definition moving :: "('c \<Rightarrow> operation_event list) \<Rightarrow> ('c, 'e, 'b, 'z) shared_scheme \<Rightarrow> typed_socket_handle multiset" where
  "moving q s = sum_list (map ev_token (q (nc_chan (sh_ch s)))) + sum_list (map cell_token (sh_wakers s))"

lemma moving_effects [simp]:
  "moving q (drop_buf b s) = moving q s" "moving q (send_reply t r s) = moving q s"
  "moving q (drop_tx t s) = moving q s"
  by (simp_all add: moving_def drop_buf_def send_reply_def drop_tx_def)

lemma moving_drops [simp]:
  "moving q (drop_waker_fn f s) = moving q s" "moving q (drop_event ev s) = moving q s"
  by (cases f; simp) (cases ev; simp)

lemma moving_new_waker: "new_waker f s = (w, s') \<Longrightarrow> moving q s' = moving q s + waker_token f"
  by (auto simp: new_waker_def moving_def wake_once_fn_def)

lemma send_event_moving:
  assumes "crossbeam_laws (d_cb D) q tx rx" "send_event D ev s = (r, s')"
  shows "moving q s' \<subseteq># moving q s + ev_token ev"
proof (cases r)
  case Sent
  with assms(2) crossbeam_sendD[OF assms(1)] have "moving q s' = moving q s + ev_token ev"
    by (auto simp: send_event_def notify_send_def moving_def split: sum.splits)
  then show ?thesis by simp
next
  case (SendError ev')
  with assms(2) send_event_err[OF assms(1)] show ?thesis by (metis mset_subset_eq_add_left)
qed

lemma resend_moving:
  assumes "crossbeam_laws (d_cb D) q tx rx"
    and "(case send_event D ev s of (Sent, s1) \<Rightarrow> Inr s1 | (SendError ev', s1) \<Rightarrow> g ev' s1) = Inr s'"
    and "\<And>ev' s1. g ev' s1 = Inr s' \<Longrightarrow> moving q s' = moving q s1"
  shows "moving q s' \<subseteq># moving q s + ev_token ev"
proof (cases "send_event D ev s")
  case (Pair r s1)
  with send_event_moving[OF assms(1) Pair] assms(2) show ?thesis
    by (cases r) (auto dest: assms(3))
qed

lemma run_waker_fn_moving:
  assumes C: "crossbeam_laws (d_cb D) q tx rx" and r: "run_waker_fn D f s = Inr s'"
  shows "moving q s' \<subseteq># moving q s + waker_token f"
proof (cases f)
  case (Wake_close h)
  with r send_event_moving[OF C surjective_pairing, of "Close (Typed_Tcp h)" s] show ?thesis by auto
next
  case (Wake_ready h)
  with r send_event_moving[OF C surjective_pairing, of "Ready (Typed_Tcp h)" s] show ?thesis by auto
next
  case (Wake_write h b t)
  from r[unfolded Wake_write run_waker_fn.simps closure_defs] have "moving q s' \<subseteq># moving q s + ev_token (Write h b t)"
    by (rule resend_moving[OF C]) (auto split: operation_event.split_asm)
  with Wake_write show ?thesis by simp
next
  case (Wake_read h b t)
  from r[unfolded Wake_read run_waker_fn.simps closure_defs] have "moving q s' \<subseteq># moving q s + ev_token (Read h b t)"
    by (rule resend_moving[OF C]) (auto split: operation_event.split_asm)
  with Wake_read show ?thesis by simp
next
  case (Wake_send h a b t)
  from r[unfolded Wake_send run_waker_fn.simps closure_defs] have "moving q s' \<subseteq># moving q s + ev_token (Send h a b t)"
    by (rule resend_moving[OF C]) (auto split: operation_event.split_asm)
  with Wake_send show ?thesis by simp
next
  case (Wake_recv h b t)
  from r[unfolded Wake_recv run_waker_fn.simps closure_defs] have "moving q s' \<subseteq># moving q s + ev_token (Recv h b t)"
    by (rule resend_moving[OF C]) (auto split: operation_event.split_asm)
  with Wake_recv show ?thesis by simp
qed (use r in auto)

lemma take_cell_moving:
  assumes "w < length (sh_wakers s)" "cell_token c = {#}"
  shows "moving q (s\<lparr>sh_wakers := (sh_wakers s)[w := c]\<rparr>) + cell_token (sh_wakers s ! w) = moving q s"
  using sum_list_update_mset[OF assms(1), of cell_token c] assms(2)
  by (simp add: moving_def ac_simps)

lemma do_waker_act_moving:
  assumes C: "crossbeam_laws (d_cb D) q tx rx" and r: "do_waker_act D a s = Inr s'"
  shows "moving q s' \<subseteq># moving q s"
proof -
  obtain w where a: "a = Woken w \<or> a = Released w" by (cases a) auto
  show ?thesis
  proof (cases "w < length (sh_wakers s) \<and> sh_wakers s ! w \<noteq> None")
    case True
    then obtain cell where w: "w < length (sh_wakers s)" "sh_wakers s ! w = Some cell" by blast
    let ?t = "\<lambda>c. s\<lparr>sh_wakers := (sh_wakers s)[w := c]\<rparr>"
    have none: "moving q (?t None) + cell_token (Some cell) = moving q s"
      using take_cell_moving[OF w(1), of None q] w(2) by simp
    have used: "moving q (?t (Some (cell\<lparr>ao_used := True\<rparr>))) + cell_token (Some cell) = moving q s"
      using take_cell_moving[OF w(1), of "Some (cell\<lparr>ao_used := True\<rparr>)" q] w(2) by simp
    have same: "?t (Some cell) = s" using w(2) list_update_id[of "sh_wakers s" w] by simp
    from a show ?thesis
    proof
      assume [simp]: "a = Woken w"
      show ?thesis
        using r w used same run_waker_fn_moving[OF C, of "ao_value cell" "?t (Some (cell\<lparr>ao_used := True\<rparr>))" s']
        by (cases "ao_used cell") auto
    next
      assume [simp]: "a = Released w"
      have "moving q (?t None) \<subseteq># moving q s" using none by (metis mset_subset_eq_add_left)
      with r w show ?thesis by (cases "ao_used cell") (auto simp: Let_def)
    qed
  qed (use a r in \<open>auto split: if_splits\<close>)
qed

lemma do_waker_acts_moving:
  assumes C: "crossbeam_laws (d_cb D) q tx rx" and r: "do_waker_acts D acts s = Inr s'"
  shows "moving q s' \<subseteq># moving q s"
  by (rule for_each_inv[where I = "\<lambda>s1. moving q s1 \<subseteq># moving q s", OF r[unfolded do_waker_acts_def]])
    (auto dest: do_waker_act_moving[OF C] intro: subset_mset.order_trans)

end
