(* ===== verification/Stack_Inv.thy ===== *)
theory Stack_Inv
  imports Stack Accounting
begin

text \<open>
  What the stack promises: an abstract registry of flows, the invariant that ties it to the sets of
  handles and of accepted addresses, and for every handler that it does not panic, keeps the
  invariant, changes the registry as specified and accounts for every request it touches.
\<close>

section \<open>The abstract registry\<close>

text \<open>
  Abstractly the stack is a map from handles to flows. \<open>registry\<close> reads it off the socket set.
\<close>

datatype flow = Flow_tcp | Flow_udp "socket_addr option"

definition udp_addr :: "'udp udp_crate \<Rightarrow> 'udp \<Rightarrow> socket_addr option" where
  "udp_addr U u = (case u_endpoint U u of (Some ip, port) \<Rightarrow> Some (SocketAddr_new ip port) | (None, _) \<Rightarrow> None)"

fun flow_of :: "'udp udp_crate \<Rightarrow> ('tcp, 'udp) socket \<Rightarrow> flow" where
  "flow_of U (Socket_Tcp t) = Flow_tcp"
| "flow_of U (Socket_Udp u) = Flow_udp (udp_addr U u)"

definition registry ::
  "('c, 'e, 'l, 'b, 'tcp, 'udp, 'ss, 'if, 'cap, 'ck) stack_deps
   \<Rightarrow> ('c, 'e, 'b, 'ss, 'if, 'cap) tcp_stack \<Rightarrow> socket_handle \<rightharpoonup> flow" where
  "registry D s = (\<lambda>h. map_option (flow_of (d_udp D)) (ss_get (d_set D) h (st_socket_set s)))"

fun typed :: "socket_handle \<Rightarrow> flow \<Rightarrow> typed_socket_handle" where
  "typed h Flow_tcp = Typed_Tcp h"
| "typed h (Flow_udp a) = Typed_Udp h"

text \<open>A registry is well formed when every UDP flow has an address and no two have the same one.\<close>

definition registry_ok :: "(socket_handle \<rightharpoonup> flow) \<Rightarrow> bool" where
  "registry_ok r \<longleftrightarrow> (\<forall>h. r h \<noteq> Some (Flow_udp None)) \<and>
     (\<forall>h h' a. r h = Some (Flow_udp a) \<longrightarrow> r h' = Some (Flow_udp a) \<longrightarrow> h = h')"

definition typed_handles :: "(socket_handle \<rightharpoonup> flow) \<Rightarrow> typed_socket_handle set" where
  "typed_handles r = {typed h f |h f. r h = Some f}"

definition udp_addrs :: "(socket_handle \<rightharpoonup> flow) \<Rightarrow> socket_addr set" where
  "udp_addrs r = {a. \<exists>h. r h = Some (Flow_udp (Some a))}"

definition stack_inv ::
  "('c, 'e, 'l, 'b, 'tcp, 'udp, 'ss, 'if, 'cap, 'ck) stack_deps \<Rightarrow> ('c, 'e, 'b, 'ss, 'if, 'cap) tcp_stack \<Rightarrow> bool" where
  "stack_inv D s \<longleftrightarrow> registry_ok (registry D s) \<and>
     st_socket_handles s = typed_handles (registry D s) \<and>
     st_accepted_udp_sockets s = udp_addrs (registry D s)"

text \<open>The laws of the dependencies that the handlers rely on.\<close>

definition deps_laws ::
  "('c, 'e, 'l, 'b, 'tcp, 'udp, 'ss, 'if, 'cap, 'ck) stack_deps \<Rightarrow> ('c \<Rightarrow> operation_event list)
   \<Rightarrow> ('c \<Rightarrow> bool) \<Rightarrow> ('c \<Rightarrow> bool) \<Rightarrow> bool" where
  "deps_laws D q tx rx \<longleftrightarrow> crossbeam_laws (d_cb D) q tx rx \<and> set_laws (d_set D) \<and> udp_laws (d_udp D)"

lemma deps_lawsD:
  assumes "deps_laws D q tx rx"
  shows "crossbeam_laws (d_cb D) q tx rx" "set_laws (d_set D)" "udp_laws (d_udp D)"
  using assms by (simp_all add: deps_laws_def)

section \<open>Reading and writing the registry\<close>

lemma typed_handles_Tcp [simp]: "Typed_Tcp h \<in> typed_handles r \<longleftrightarrow> r h = Some Flow_tcp"
proof
  assume "Typed_Tcp h \<in> typed_handles r"
  then obtain h' f where "Typed_Tcp h = typed h' f" "r h' = Some f" by (auto simp: typed_handles_def)
  then show "r h = Some Flow_tcp" by (cases f) auto
next
  assume "r h = Some Flow_tcp"
  then show "Typed_Tcp h \<in> typed_handles r" unfolding typed_handles_def by force
qed

lemma typed_handles_Udp [simp]: "Typed_Udp h \<in> typed_handles r \<longleftrightarrow> (\<exists>a. r h = Some (Flow_udp a))"
proof
  assume "Typed_Udp h \<in> typed_handles r"
  then obtain h' f where "Typed_Udp h = typed h' f" "r h' = Some f" by (auto simp: typed_handles_def)
  then show "\<exists>a. r h = Some (Flow_udp a)" by (cases f) auto
next
  assume "\<exists>a. r h = Some (Flow_udp a)"
  then show "Typed_Udp h \<in> typed_handles r" unfolding typed_handles_def by force
qed

lemma typed_handles_upd:
  "r h = None \<Longrightarrow> typed_handles (r(h \<mapsto> f)) = insert (typed h f) (typed_handles r)"
  by (auto simp: typed_handles_def split: if_splits) (metis option.distinct(1))+

lemma typed_handles_del:
  "r h = Some f \<Longrightarrow> typed_handles (r(h := None)) = typed_handles r - {typed h f}"
proof (rule set_eqI)
  fix x assume "r h = Some f"
  then show "x \<in> typed_handles (r(h := None)) \<longleftrightarrow> x \<in> typed_handles r - {typed h f}"
    by (cases x; cases f) auto
qed

lemma set_add:
  "set_laws S \<Longrightarrow> ss_add S x ss = (h, ss') \<Longrightarrow>
   ss_get S h ss = None \<and> ss_get S h' ss' = (if h' = h then Some x else ss_get S h' ss)"
  by (simp add: set_laws_def)

lemma set_put:
  "set_laws S \<Longrightarrow> ss_get S h ss \<noteq> None \<Longrightarrow>
   ss_get S h' (ss_put S h x ss) = (if h' = h then Some x else ss_get S h' ss)"
  by (simp add: set_laws_def)

lemma set_remove:
  "set_laws S \<Longrightarrow> ss_get S h ss \<noteq> None \<Longrightarrow>
   \<exists>acts ss'. ss_remove S h ss = Some (acts, ss') \<and>
     (\<forall>h'. ss_get S h' ss' = (if h' = h then None else ss_get S h' ss))"
  by (simp add: set_laws_def)

lemma get_tcp_iff: "get_tcp D h s = Inr t \<longleftrightarrow> ss_get (d_set D) h (st_socket_set s) = Some (Socket_Tcp t)"
  by (simp add: get_tcp_def split: option.splits socket.splits)

lemma get_udp_iff: "get_udp D h s = Inr u \<longleftrightarrow> ss_get (d_set D) h (st_socket_set s) = Some (Socket_Udp u)"
  by (simp add: get_udp_def split: option.splits socket.splits)

lemma flow_of_tcp: "flow_of U x = Flow_tcp \<longleftrightarrow> (\<exists>t. x = Socket_Tcp t)"
  by (cases x) auto

lemma flow_of_udp: "flow_of U x = Flow_udp a \<longleftrightarrow> (\<exists>u. x = Socket_Udp u \<and> udp_addr U u = a)"
  by (cases x) auto

lemma registry_tcp: "registry D s h = Some Flow_tcp \<longleftrightarrow> (\<exists>t. get_tcp D h s = Inr t)"
  by (auto simp: registry_def get_tcp_iff flow_of_tcp)

lemma registry_udp:
  "registry D s h = Some (Flow_udp a) \<longleftrightarrow> (\<exists>u. get_udp D h s = Inr u \<and> udp_addr (d_udp D) u = a)"
  by (auto simp: registry_def get_udp_iff flow_of_udp)

lemma registry_put:
  assumes "set_laws (d_set D)" "registry D s h = Some (flow_of (d_udp D) x)"
  shows "registry D (put_socket D h x s) = registry D s"
proof
  fix h'
  have "ss_get (d_set D) h (st_socket_set s) \<noteq> None" using assms(2) by (auto simp: registry_def)
  from set_put[OF assms(1) this, of h' x] assms(2)
  show "registry D (put_socket D h x s) h' = registry D s h'"
    by (auto simp: registry_def put_socket_def)
qed

text \<open>With the invariant, a handle in the set of handles denotes a socket of its type.\<close>

lemma inv_tcp_handle:
  "stack_inv D s \<Longrightarrow> Typed_Tcp h \<in> st_socket_handles s \<longleftrightarrow> (\<exists>t. get_tcp D h s = Inr t)"
  by (simp add: stack_inv_def registry_tcp)

lemma inv_udp_handle:
  "stack_inv D s \<Longrightarrow> Typed_Udp h \<in> st_socket_handles s \<longleftrightarrow> (\<exists>u. get_udp D h s = Inr u)"
  by (simp add: stack_inv_def registry_udp)

lemma inv_udp_bound:
  assumes "stack_inv D s" "get_udp D h s = Inr u"
  obtains ip port where "u_endpoint (d_udp D) u = (Some ip, port)"
    "registry D s h = Some (Flow_udp (Some (SocketAddr_new ip port)))"
proof -
  have "registry D s h = Some (Flow_udp (udp_addr (d_udp D) u))"
    using assms(2) by (auto simp: registry_udp)
  moreover from this assms(1) have "udp_addr (d_udp D) u \<noteq> None"
    by (metis stack_inv_def registry_ok_def)
  ultimately show ?thesis
    using that by (auto simp: udp_addr_def split: prod.splits option.splits)
qed

section \<open>Frames\<close>

text \<open>\<open>keeps D s s'\<close>: the stack's own view of its sockets is unchanged.\<close>

definition keeps ::
  "('c, 'e, 'l, 'b, 'tcp, 'udp, 'ss, 'if, 'cap, 'ck) stack_deps \<Rightarrow> ('c, 'e, 'b, 'ss, 'if, 'cap) tcp_stack
   \<Rightarrow> ('c, 'e, 'b, 'ss, 'if, 'cap) tcp_stack \<Rightarrow> bool" where
  "keeps D s s' \<longleftrightarrow> registry D s' = registry D s \<and>
     st_socket_handles s' = st_socket_handles s \<and>
     st_accepted_udp_sockets s' = st_accepted_udp_sockets s \<and>
     st_tcp_stream_tx s' = st_tcp_stream_tx s \<and> st_udp_stream_tx s' = st_udp_stream_tx s"

lemma keeps_refl [simp, intro]: "keeps D s s"
  by (simp add: keeps_def)

lemma keeps_trans [trans]: "keeps D s s' \<Longrightarrow> keeps D s' s'' \<Longrightarrow> keeps D s s''"
  by (simp add: keeps_def)

lemma keeps_inv: "keeps D s s' \<Longrightarrow> stack_inv D s \<longleftrightarrow> stack_inv D s'"
  by (simp add: keeps_def stack_inv_def)

lemma keeps_put:
  "set_laws (d_set D) \<Longrightarrow> registry D s h = Some (flow_of (d_udp D) x) \<Longrightarrow> keeps D s (put_socket D h x s)"
  by (simp add: keeps_def registry_put) (simp add: put_socket_def)

lemma send_event_more: "shared.more (snd (send_event D ev s)) = shared.more s"
  by (simp add: send_event_def split: prod.splits)

lemma send_event_moreD: "send_event D ev s = (r, s') \<Longrightarrow> shared.more s' = shared.more s"
  using send_event_more[of D ev s] by simp

lemma effects_more [simp]:
  "shared.more (drop_buf b s) = shared.more s" "shared.more (send_reply t r s) = shared.more s"
  "shared.more (drop_tx t s) = shared.more s"
  by (simp_all add: drop_buf_def send_reply_def drop_tx_def)

lemma drop_waker_fn_more [simp]: "shared.more (drop_waker_fn f s) = shared.more s"
  by (cases f) simp_all

lemma drop_event_more [simp]: "shared.more (drop_event ev s) = shared.more s"
  by (cases ev) simp_all

lemma resend_more:
  assumes "(case send_event D ev s of (Sent, s1) \<Rightarrow> Inr s1 | (SendError ev', s1) \<Rightarrow> g ev' s1) = Inr s'"
    and "\<And>ev' s1. g ev' s1 = Inr s' \<Longrightarrow> shared.more s' = shared.more s1"
  shows "shared.more s' = shared.more s"
proof (cases "send_event D ev s")
  case (Pair r s1)
  with send_event_moreD[OF Pair] assms(1) show ?thesis
    by (cases r) (auto dest: assms(2))
qed

lemma run_waker_fn_more:
  assumes "run_waker_fn D f s = Inr s'"
  shows "shared.more s' = shared.more s"
proof (cases f)
  case (Wake_shutdown t)
  with assms show ?thesis by (auto simp: effects_more)
next
  case (Wake_close h)
  with assms show ?thesis by (metis run_waker_fn.simps(2) close_closure_def send_event_more sum.inject(2))
next
  case (Wake_ready h)
  with assms show ?thesis by (metis run_waker_fn.simps(3) ready_closure_def send_event_more sum.inject(2))
next
  case (Wake_write h b t)
  from assms[unfolded Wake_write run_waker_fn.simps closure_defs] show ?thesis
    by (rule resend_more) (simp split: operation_event.split_asm, metis effects_more)
next
  case (Wake_read h b t)
  from assms[unfolded Wake_read run_waker_fn.simps closure_defs] show ?thesis
    by (rule resend_more) (simp split: operation_event.split_asm, metis effects_more)
next
  case (Wake_send h a b t)
  from assms[unfolded Wake_send run_waker_fn.simps closure_defs] show ?thesis
    by (rule resend_more) (simp split: operation_event.split_asm, metis effects_more)
next
  case (Wake_recv h b t)
  from assms[unfolded Wake_recv run_waker_fn.simps closure_defs] show ?thesis
    by (rule resend_more) (simp split: operation_event.split_asm, metis effects_more)
qed

lemma do_waker_act_more: "do_waker_act D a s = Inr s' \<Longrightarrow> shared.more s' = shared.more s"
proof (cases a)
  case (Woken w)
  assume "do_waker_act D a s = Inr s'"
  with Woken show ?thesis
    by (simp split: if_splits option.splits) (auto, drule run_waker_fn_more, simp)
next
  case (Released w)
  assume "do_waker_act D a s = Inr s'"
  with Released show ?thesis by (auto simp: Let_def split: if_splits option.splits)
qed

lemma do_waker_acts_more:
  assumes "do_waker_acts D acts s = Inr s'"
  shows "shared.more s' = shared.more s"
proof (rule for_each_inv[where I = "\<lambda>s1. shared.more s1 = shared.more s", OF assms[unfolded do_waker_acts_def] refl])
  fix a s1 s2 assume "shared.more s1 = shared.more s" "do_waker_act D a s1 = Inr s2"
  from do_waker_act_more[OF this(2)] this(1) show "shared.more s2 = shared.more s" by (rule trans)
qed

lemma more_fields:
  fixes s :: "('c, 'e, 'b, 'ss, 'if, 'cap) tcp_stack"
  assumes "shared.more s' = shared.more s"
  shows "st_socket_set s' = st_socket_set s" "st_socket_handles s' = st_socket_handles s"
    "st_accepted_udp_sockets s' = st_accepted_udp_sockets s" "st_virtual_iface s' = st_virtual_iface s"
    "st_tcp_stream_tx s' = st_tcp_stream_tx s" "st_udp_stream_tx s' = st_udp_stream_tx s"
    "st_interface s' = st_interface s"
  using assms by (cases s; cases s'; simp)+

lemma keeps_more:
  assumes "shared.more s' = shared.more s"
  shows "keeps D s s'"
  using more_fields[OF assms] by (simp add: keeps_def registry_def)

text \<open>
  \<open>serves q X Y D s r\<close>: the outcome \<open>r\<close> is a state in which the requests \<open>X\<close> and the tokens \<open>Y\<close> have
  been dealt with and the stack's sockets are as before. The lemmas below establish it for the
  building blocks.
\<close>

definition serves ::
  "('c \<Rightarrow> operation_event list) \<Rightarrow> request multiset \<Rightarrow> typed_socket_handle multiset
   \<Rightarrow> ('c, 'e, 'l, 'b, 'tcp, 'udp, 'ss, 'if, 'cap, 'ck) stack_deps
   \<Rightarrow> ('c, 'e, 'b, 'ss, 'if, 'cap) tcp_stack \<Rightarrow> ('c, 'e, 'b, 'ss, 'if, 'cap) tcp_stack outcome \<Rightarrow> bool" where
  "serves q X Y D s r \<longleftrightarrow> (\<exists>s'. r = Inr s' \<and> keeps D s s' \<and> (\<forall>R. accounts q (R + X) s R s') \<and>
     moving q s' \<subseteq># moving q s + Y)"

lemma servesI:
  "r = Inr s' \<Longrightarrow> keeps D s s' \<Longrightarrow> (\<And>R. accounts q (R + X) s R s') \<Longrightarrow> moving q s' \<subseteq># moving q s + Y \<Longrightarrow>
   serves q X Y D s r"
  by (auto simp: serves_def)

text \<open>A preparatory step that keeps sockets, requests and tokens may come first.\<close>

lemma serves_after:
  assumes "serves q X Y D s1 r" "keeps D s s1" "\<And>R. accounts q R s R s1" "moving q s1 = moving q s"
  shows "serves q X Y D s r"
  using assms by (auto simp: serves_def intro: keeps_trans accounts_trans)

lemma serves_acts:
  assumes "crossbeam_laws (d_cb D) q tx rx"
  shows "serves q {#} {#} D s (do_waker_acts D acts s)"
proof -
  obtain s' where s': "do_waker_acts D acts s = Inr s'"
    using do_waker_acts_accounts[OF assms] by blast
  have "accounts q R s R s'" for R
    using do_waker_acts_accounts[OF assms, of acts s R] s' by auto
  with s' do_waker_acts_moving[OF assms s'] show ?thesis
    by (intro servesI[OF s']) (auto intro: keeps_more do_waker_acts_more)
qed

lemma accounts_put [simp, intro]: "accounts q R s R (put_socket D h x s)"
  by (rule accounts_same) (simp_all add: put_socket_def)

lemma accounts_set_buf [simp, intro]: "accounts q R s R (set_buf b v s)"
  by (rule accounts_same) (simp_all add: set_buf_def)

lemma keeps_set_buf [simp, intro]: "keeps D s (set_buf b v s)"
  by (rule keeps_more) (simp add: set_buf_def)

lemma moving_frame [simp]:
  "moving q (put_socket D h x s) = moving q s" "moving q (set_buf b v s) = moving q s"
  "moving q (answer b t r s) = moving q s"
  by (simp_all add: put_socket_def set_buf_def answer_def) (simp_all add: moving_def)

lemma serves_answer: "serves q {#(t, Some b)#} {#} D s (Inr (answer b t r s))"
  by (rule servesI[OF refl]) (auto simp: answer_def intro: keeps_more accounts_leave)

lemma keeps_new_waker: "new_waker f s = (w, s1) \<Longrightarrow> keeps D s s1"
  by (rule keeps_more) (auto simp: new_waker_def)

lemma registry_new_waker: "new_waker f s = (w, s1) \<Longrightarrow> registry D s1 = registry D s"
  by (auto simp: new_waker_def registry_def)

text \<open>The common step of every registration: a new waker, the updated socket, the released wakers.\<close>

lemma serves_park:
  assumes "deps_laws D q tx rx" "registry D s h = Some (flow_of (d_udp D) x)"
    and w: "new_waker f s = (w, s1)"
  shows "serves q (waker_reqs f) (waker_token f) D s (do_waker_acts D acts (put_socket D h x s1))"
proof -
  let ?s2 = "put_socket D h x s1"
  have k: "keeps D s ?s2"
    using keeps_new_waker[OF w] keeps_put[OF deps_lawsD(2)[OF assms(1)], of s1 h x]
      registry_new_waker[OF w, of D] assms(2)
    by (auto intro: keeps_trans)
  have a: "accounts q (R + waker_reqs f) s R ?s2" for R
    using accounts_new_waker[OF w] accounts_put by (rule accounts_trans)
  obtain s' where s': "do_waker_acts D acts ?s2 = Inr s'" "keeps D ?s2 s'" "\<forall>R. accounts q (R + {#}) ?s2 R s'"
    "moving q s' \<subseteq># moving q ?s2 + {#}"
    using serves_acts[OF deps_lawsD(1)[OF assms(1)], of ?s2 acts] unfolding serves_def by fast
  show ?thesis
    by (rule servesI[OF s'(1)])
      (use k a s' moving_new_waker[OF w, of q] in \<open>auto intro: keeps_trans accounts_trans\<close>)
qed

lemma serves_park_tcp:
  assumes "deps_laws D q tx rx" "get_tcp D h s = Inr t0"
  shows "serves q (waker_reqs f) (waker_token f) D s (park_tcp D reg f h t s)"
proof -
  obtain w s1 where w: "new_waker f s = (w, s1)" by fastforce
  obtain t' acts where r: "reg w t = (t', acts)" by fastforce
  have "registry D s h = Some (flow_of (d_udp D) (Socket_Tcp t'))"
    using assms(2) registry_tcp[of D s h] by simp
  from serves_park[OF assms(1) this w] show ?thesis by (simp add: park_tcp_def w r)
qed

lemma serves_park_udp:
  assumes "deps_laws D q tx rx" "get_udp D h s = Inr u"
    and "\<And>w. u_endpoint (d_udp D) (fst (reg w u)) = u_endpoint (d_udp D) u"
  shows "serves q (waker_reqs f) (waker_token f) D s (park_udp D reg f h u s)"
proof -
  obtain w s1 where w: "new_waker f s = (w, s1)" by fastforce
  obtain u' acts where r: "reg w u = (u', acts)" by fastforce
  have "udp_addr (d_udp D) u' = udp_addr (d_udp D) u"
    using assms(3)[of w] r by (simp add: udp_addr_def)
  then have "registry D s h = Some (flow_of (d_udp D) (Socket_Udp u'))"
    using assms(2) registry_udp[of D s h] by auto
  from serves_park[OF assms(1) this w] show ?thesis by (simp add: park_udp_def w r)
qed

lemma udp_endpoint_kept:
  assumes "udp_laws U"
  shows "u_endpoint U (snd (u_send_slice U d a u)) = u_endpoint U u"
    "u_endpoint U (snd (snd (u_recv_slice U d u))) = u_endpoint U u"
    "u_endpoint U (fst (u_register_send_waker U w u)) = u_endpoint U u"
    "u_endpoint U (fst (u_register_recv_waker U w u)) = u_endpoint U u"
  using assms by (simp_all add: udp_laws_def)

text \<open>A buffer that some request in hand refers to is alive.\<close>

lemma buf_live:
  assumes "owned u q (R + {#(t, Some b)#}) s"
  obtains sb where "buf_value b s = Inr sb"
proof -
  have "strong_count (sh_bufs s) b > 0" using assms by (simp add: owned_def)
  then obtain c where "sh_bufs s b = Some c" using strong_pos_live by blast
  then show ?thesis using that by (simp add: buf_value_def)
qed

text \<open>The answer after the socket and the buffer have been updated.\<close>

lemma serves_answer_after:
  assumes "keeps D s s1" "\<And>R. accounts q R s R s1" "moving q s1 = moving q s"
  shows "serves q {#(t, Some b)#} {#} D s (Inr (answer b t r s1))"
  by (rule serves_after[OF serves_answer assms])

lemma keeps_put_tcp:
  assumes "deps_laws D q tx rx" "get_tcp D h s = Inr t"
  shows "keeps D s (put_socket D h (Socket_Tcp t') s)"
  by (rule keeps_put[OF deps_lawsD(2)[OF assms(1)]]) (use assms(2) registry_tcp in auto)

lemma keeps_put_udp:
  assumes "deps_laws D q tx rx" "get_udp D h s = Inr u" "u_endpoint (d_udp D) u' = u_endpoint (d_udp D) u"
  shows "keeps D s (put_socket D h (Socket_Udp u') s)"
  by (rule keeps_put[OF deps_lawsD(2)[OF assms(1)]])
    (use assms(2,3) registry_udp[of D s h] in \<open>auto simp: udp_addr_def\<close>)

lemma keeps_set_bufs:
  assumes "keeps D s s1"
  shows "keeps D s (set_buf b v s1)" "keeps D s (set_buf b v (set_buf b v' s1))"
  using keeps_trans[OF assms keeps_set_buf] keeps_trans[OF keeps_trans[OF assms keeps_set_buf] keeps_set_buf]
  by simp_all

lemma accounts_put_bufs:
  "accounts q R s R (set_buf b v (put_socket D h x s))"
  "accounts q R s R (set_buf b v (set_buf b v' (put_socket D h x s)))"
  using accounts_trans[OF accounts_put accounts_set_buf]
    accounts_trans[OF accounts_trans[OF accounts_put accounts_set_buf] accounts_set_buf]
  by blast+

section \<open>Transfers\<close>

lemma serves_write:
  assumes laws: "deps_laws D q tx rx" and inv: "stack_inv D s"
    and own: "owned u q (R + ev_reqs (Write h b t)) s"
  shows "serves q (ev_reqs (Write h b t)) {#} D s (handle_tcp_wake_event D (Write h b t) s)"
proof (cases "Typed_Tcp h \<in> st_socket_handles s")
  case True
  then obtain sock where g: "get_tcp D h s = Inr sock" using inv_tcp_handle[OF inv] by blast
  obtain sb where sb: "buf_value b s = Inr sb" using buf_live own by (metis ev_reqs.simps(3))
  obtain res sock' where r: "t_send_slice (d_tcp D) (as_slice (d_io D) sb) sock = (res, sock')" by fastforce
  show ?thesis
    using True g sb r serves_park_tcp[OF laws g, of "Wake_write h b t"]
    by (auto simp: Let_def split: sum.split
      intro!: serves_answer serves_answer_after keeps_put_tcp[OF laws g])
qed (auto intro: serves_answer)

lemma serves_read:
  assumes laws: "deps_laws D q tx rx" and inv: "stack_inv D s"
    and own: "owned u q (R + ev_reqs (Read h b t)) s"
  shows "serves q (ev_reqs (Read h b t)) {#} D s (handle_tcp_wake_event D (Read h b t) s)"
proof (cases "Typed_Tcp h \<in> st_socket_handles s")
  case True
  then obtain sock where g: "get_tcp D h s = Inr sock" using inv_tcp_handle[OF inv] by blast
  obtain sb where sb: "buf_value b s = Inr sb" using buf_live own by (metis ev_reqs.simps(2))
  obtain res mem sock' where r: "t_recv_slice (d_tcp D) (as_slice_mut (d_io D) sb) sock = (res, mem, sock')"
    using prod_cases3 by blast
  let ?s1 = "put_socket D h (Socket_Tcp sock') s"
  note k = keeps_set_bufs[OF keeps_put_tcp[OF laws g, of sock'], of b]
  note a = accounts_put_bufs[where s = s and D = D and h = h and x = "Socket_Tcp sock'" and q = q and b = b]
  show ?thesis
    using True g sb r serves_park_tcp[OF laws g, of "Wake_read h b t"]
    by (auto simp: Let_def split: sum.split tcp_recv_error.split
      intro!: serves_answer serves_answer_after k a)
qed (auto intro: serves_answer)

lemma serves_send:
  assumes laws: "deps_laws D q tx rx" and inv: "stack_inv D s"
    and own: "owned u q (R + ev_reqs (Send h a b t)) s"
  shows "serves q (ev_reqs (Send h a b t)) {#} D s (handle_udp_wake_event D (Send h a b t) s)"
proof (cases "Typed_Udp h \<in> st_socket_handles s")
  case True
  then obtain sock where g: "get_udp D h s = Inr sock" using inv_udp_handle[OF inv] by blast
  obtain sb where sb: "buf_value b s = Inr sb" using buf_live own by (metis ev_reqs.simps(5))
  obtain res sock' where r: "u_send_slice (d_udp D) (as_slice (d_io D) sb) a sock = (res, sock')" by fastforce
  note same = udp_endpoint_kept[OF deps_lawsD(3)[OF laws]]
  have "u_endpoint (d_udp D) sock' = u_endpoint (d_udp D) sock"
    using same(1)[of "as_slice (d_io D) sb" a sock] r by simp
  note k = keeps_put_udp[OF laws g this]
  show ?thesis
    using True g sb r serves_park_udp[OF laws g, of "u_register_send_waker (d_udp D)", OF same(3), of "Wake_send h a b t"]
    by (auto simp: Let_def split: option.split intro!: serves_answer serves_answer_after k)
qed (auto intro: serves_answer)

lemma serves_recv:
  assumes laws: "deps_laws D q tx rx" and inv: "stack_inv D s"
    and own: "owned u q (R + ev_reqs (Recv h b t)) s"
  shows "serves q (ev_reqs (Recv h b t)) {#} D s (handle_udp_wake_event D (Recv h b t) s)"
proof (cases "Typed_Udp h \<in> st_socket_handles s")
  case True
  then obtain sock where g: "get_udp D h s = Inr sock" using inv_udp_handle[OF inv] by blast
  obtain sb where sb: "buf_value b s = Inr sb" using buf_live own by (metis ev_reqs.simps(4))
  obtain res mem sock' where r: "u_recv_slice (d_udp D) (as_slice_mut (d_io D) sb) sock = (res, mem, sock')"
    using prod_cases3 by blast
  note same = udp_endpoint_kept[OF deps_lawsD(3)[OF laws]]
  have "u_endpoint (d_udp D) sock' = u_endpoint (d_udp D) sock"
    using same(2)[of "as_slice_mut (d_io D) sb" sock] r by simp
  note k = keeps_set_bufs[OF keeps_put_udp[OF laws g this], of b]
  note a = accounts_put_bufs[where s = s and D = D and h = h and x = "Socket_Udp sock'" and q = q and b = b]
  show ?thesis
    using True g sb r serves_park_udp[OF laws g, of "u_register_recv_waker (d_udp D)", OF same(4), of "Wake_recv h b t"]
    by (auto simp: Let_def split: sum.split prod.split
      intro!: serves_answer serves_answer_after k a)
qed (auto intro: serves_answer)

end
