(* ===== verification/Stack_Turn.thy ===== *)
theory Stack_Turn
  imports Stack_Inv "HOL-Library.Sublist"
begin

text \<open>
  The handlers that open, close and announce sockets, the loops over a batch of requests, and the
  whole turn \<^verbatim>\<open>drive_once\<close>: each keeps the invariant of the stack, accounts for every request and
  every token, and panics in no other way than the two \<^verbatim>\<open>expect\<close> calls on the endpoints of a TCP
  socket that is ready.
\<close>

section \<open>Tokens of sockets\<close>

text \<open>
  A handle that was announced to an acceptor is a token too. \<open>d\<close> collects the announced
  handles whose owner has asked to close them. Every socket has at most one token, a handle without
  a socket has none.
\<close>

definition delivered :: "('c, 'e, 'b, 'ss, 'if, 'cap) tcp_stack \<Rightarrow> typed_socket_handle multiset" where
  "delivered s =
     mset (concat (map (\<lambda>r. case r of Inl _ \<Rightarrow> [] | Inr i \<Rightarrow> [Typed_Tcp (ti_handle i)]) (st_tcp_stream_tx s))) +
     mset (concat (map (\<lambda>r. case r of Inl _ \<Rightarrow> [] | Inr i \<Rightarrow> [Typed_Udp (ui_handle i)]) (st_udp_stream_tx s)))"

definition token_inv ::
  "typed_socket_handle multiset \<Rightarrow> ('c \<Rightarrow> operation_event list) \<Rightarrow> typed_socket_handle multiset
   \<Rightarrow> ('c, 'e, 'b, 'ss, 'if, 'cap) tcp_stack \<Rightarrow> bool" where
  "token_inv d q K s \<longleftrightarrow> d \<subseteq># delivered s \<and>
     (\<forall>th. count (moving q s + delivered s + K) th \<le> count d th + (if th \<in> st_socket_handles s then 1 else 0))"

lemma keeps_delivered: "keeps D s s' \<Longrightarrow> delivered s' = delivered s"
  by (simp add: keeps_def delivered_def)

lemma token_inv_less:
  assumes "token_inv d q (K + Y) s" "moving q s' \<subseteq># moving q s + Y" "delivered s' = delivered s"
    "st_socket_handles s' = st_socket_handles s"
  shows "token_inv d q K s'"
  unfolding token_inv_def
proof (intro conjI allI)
  fix th
  have "count (moving q s') th \<le> count (moving q s + Y) th" using assms(2) by (rule mset_subset_eq_count)
  moreover have "count (moving q s + delivered s + (K + Y)) th \<le> count d th + (if th \<in> st_socket_handles s then 1 else 0)"
    using assms(1) unfolding token_inv_def by blast
  ultimately show "count (moving q s' + delivered s' + K) th \<le> count d th + (if th \<in> st_socket_handles s' then 1 else 0)"
    using assms(3,4) by simp
qed (use assms in \<open>simp add: token_inv_def\<close>)

text \<open>The token in hand is the proof that its socket exists.\<close>

lemma token_known:
  assumes "token_inv d q (K + {#th#}) s"
  shows "th \<in> st_socket_handles s"
proof (rule ccontr)
  assume "th \<notin> st_socket_handles s"
  moreover have "count d th \<le> count (delivered s) th"
    using assms mset_subset_eq_count unfolding token_inv_def by metis
  moreover have "count (moving q s + delivered s + (K + {#th#})) th
      \<le> count d th + (if th \<in> st_socket_handles s then 1 else 0)"
    using assms unfolding token_inv_def by blast
  ultimately show False by simp
qed

section \<open>Worklists\<close>

text \<open>
  \<open>good\<close> is what holds between two requests of a turn that started in \<open>s0\<close> with the requests \<open>R0\<close> in
  hand: \<open>R\<close> and \<open>K\<close> are the requests and the tokens still in hand.
\<close>

definition good ::
  "('c, 'e, 'l, 'b, 'tcp, 'udp, 'ss, 'if, 'cap, 'ck) stack_deps \<Rightarrow> ('c \<Rightarrow> operation_event list)
   \<Rightarrow> (buf_id \<Rightarrow> nat) \<Rightarrow> typed_socket_handle multiset \<Rightarrow> request multiset \<Rightarrow> ('c, 'e, 'b, 'ss, 'if, 'cap) tcp_stack
   \<Rightarrow> request multiset \<Rightarrow> typed_socket_handle multiset \<Rightarrow> ('c, 'e, 'b, 'ss, 'if, 'cap) tcp_stack \<Rightarrow> bool" where
  "good D q u d R0 s0 R K s \<longleftrightarrow>
     stack_inv D s \<and> owned u q R s \<and> token_inv d q K s \<and> accounts q R0 s0 R s"

lemma good_serves:
  assumes "good D q u d R0 s0 (R + X) (K + Y) s" "serves q X Y D s r"
  shows "\<exists>s'. r = Inr s' \<and> good D q u d R0 s0 R K s'"
proof -
  obtain s' where s': "r = Inr s'" "keeps D s s'" "\<forall>R. accounts q (R + X) s R s'" "moving q s' \<subseteq># moving q s + Y"
    using assms(2) unfolding serves_def by blast
  have "token_inv d q K s'"
    using token_inv_less[of d q K Y s s'] assms(1) s' keeps_delivered[OF s'(2)]
    by (simp add: good_def keeps_def)
  moreover have "owned u q R s'" "accounts q R0 s0 R s'"
    using assms(1) s'(3) unfolding good_def by (blast intro: accounts_trans accounts_owned)+
  moreover have "stack_inv D s'" using assms(1) keeps_inv[OF s'(2)] by (simp add: good_def)
  ultimately show ?thesis using s'(1) by (simp add: good_def)
qed

definition events_token :: "operation_event list \<Rightarrow> typed_socket_handle multiset" where
  "events_token es = sum_list (map ev_token es)"

lemma events_token_simps [simp]:
  "events_token [] = {#}" "events_token (e # es) = ev_token e + events_token es"
  "events_token (es @ fs) = events_token es + events_token fs"
  by (simp_all add: events_token_def)

text \<open>
  The interface of the request handlers: handling one request takes it out of the hand, or panics
  in an accepted way. The loops over a list of requests rely on nothing else.
\<close>

locale worklist =
  fixes inv :: "'k \<Rightarrow> request multiset \<Rightarrow> typed_socket_handle multiset \<Rightarrow> 's \<Rightarrow> bool"
    and handle :: "'k \<Rightarrow> operation_event \<Rightarrow> 's \<Rightarrow> 's outcome"
    and accepts :: "operation_event \<Rightarrow> bool"
    and may_panic :: "panic \<Rightarrow> bool"
  assumes handle_one: "inv k (R + ev_reqs ev) (K + ev_token ev) s \<Longrightarrow> accepts ev \<Longrightarrow>
    (\<exists>s'. handle k ev s = Inr s' \<and> inv k R K s') \<or> (\<exists>p. handle k ev s = Inl p \<and> may_panic p)"
begin

lemma handle_all:
  "inv k (R + events_reqs evs) (K + events_token evs) s \<Longrightarrow> \<forall>ev\<in>set evs. accepts ev \<Longrightarrow>
   (\<exists>s'. for_each (handle k) evs s = Inr s' \<and> inv k R K s') \<or>
   (\<exists>p. for_each (handle k) evs s = Inl p \<and> may_panic p)"
proof (induction evs arbitrary: s)
  case (Cons ev evs)
  have "inv k ((R + events_reqs evs) + ev_reqs ev) ((K + events_token evs) + ev_token ev) s"
    using Cons.prems(1) by (simp add: ac_simps)
  from handle_one[OF this] Cons.prems(2)
  consider s1 where "handle k ev s = Inr s1" "inv k (R + events_reqs evs) (K + events_token evs) s1"
    | p where "handle k ev s = Inl p" "may_panic p" by auto
  then show ?case using Cons.IH Cons.prems(2) by cases auto
qed auto

end

section \<open>Shutdown, close, ready\<close>

lemma serves_bind:
  assumes "serves q X Y D s r" "\<And>s1. r = Inr s1 \<Longrightarrow> keeps D s s1 \<Longrightarrow> serves q {#} Y' D s1 (f s1)"
  shows "serves q X (Y + Y') D s (obind r f)"
proof -
  obtain s1 where s1: "r = Inr s1" "keeps D s s1" "\<forall>R. accounts q (R + X) s R s1" "moving q s1 \<subseteq># moving q s + Y"
    using assms(1) unfolding serves_def by blast
  obtain s2 where s2: "f s1 = Inr s2" "keeps D s1 s2" "\<forall>R. accounts q (R + {#}) s1 R s2"
    "moving q s2 \<subseteq># moving q s1 + Y'"
    using assms(2)[OF s1(1,2)] unfolding serves_def by blast
  have "moving q s2 \<subseteq># moving q s + Y + Y'"
    using s1(4) s2(4) subset_mset.add_right_mono subset_mset.order_trans by blast
  moreover have "accounts q (R + X) s R s2" for R
    using s1(3) s2(3) accounts_trans[of q "R + X" s R s1 R s2] by simp
  ultimately show ?thesis
    using s1 s2 by (intro servesI[of _ s2]) (auto intro: keeps_trans simp: ac_simps)
qed

lemma serves_shutdown:
  assumes "deps_laws D q tx rx" "stack_inv D s" "\<And>h. th \<noteq> Typed_Udp h"
  shows "serves q {#(t, None)#} {#} D s (handle_shutdown_event D th t s)"
proof (cases "th \<in> st_socket_handles s")
  case True
  obtain h where th: "th = Typed_Tcp h" using assms(3) by (cases th) auto
  then obtain sock where g: "get_tcp D h s = Inr sock" using True inv_tcp_handle[OF assms(2)] by blast
  obtain w s1 where w: "new_waker (Wake_shutdown t) s = (w, s1)" by fastforce
  obtain sock1 acts1 where r: "t_register_send_waker (d_tcp D) w sock = (sock1, acts1)" by fastforce
  obtain sock2 acts2 where c: "t_close (d_tcp D) sock1 = (sock2, acts2)" by fastforce
  have "registry D s h = Some (flow_of (d_udp D) (Socket_Tcp sock2))" using g registry_tcp[of D s h] by simp
  from serves_park[OF assms(1) this w, of "acts1 @ acts2"] show ?thesis
    using True th g w r c by (simp add: handle_shutdown_event_def)
next
  case False
  then show ?thesis
    by (auto simp: handle_shutdown_event_def intro!: servesI[OF refl] keeps_more accounts_leave)
qed

lemma registry_ok_del: "registry_ok r \<Longrightarrow> registry_ok (r(h := None))"
  by (auto simp: registry_ok_def)

lemma udp_addrs_del: "udp_addrs (r(h := None)) = {a. \<exists>h'. h' \<noteq> h \<and> r h' = Some (Flow_udp (Some a))}"
  by (auto simp: udp_addrs_def split: if_splits)

lemma udp_addrs_del_udp:
  assumes "registry_ok r" "r h = Some (Flow_udp (Some a))"
  shows "udp_addrs (r(h := None)) = udp_addrs r - {a}"
proof -
  have only: "r h' = Some (Flow_udp (Some a)) \<longleftrightarrow> h' = h" for h'
    using assms unfolding registry_ok_def by metis
  show ?thesis
  proof (rule set_eqI)
    fix x show "x \<in> udp_addrs (r(h := None)) \<longleftrightarrow> x \<in> udp_addrs r - {a}"
      using only assms(2) unfolding udp_addrs_del by (auto simp: udp_addrs_def) (metis flow.inject option.inject)
  qed
qed

lemma udp_addrs_del_tcp: "r h = Some Flow_tcp \<Longrightarrow> udp_addrs (r(h := None)) = udp_addrs r"
  unfolding udp_addrs_del by (auto simp: udp_addrs_def) (metis flow.distinct(1) option.inject)

text \<open>A socket whose token is in hand may leave the registry.\<close>

lemma good_gone:
  assumes g: "good D q u d R0 s0 R (K + {#th#}) s"
    and f: "registry D s h = Some f" "th = typed h f"
    and s': "registry D s' = (registry D s)(h := None)" "st_socket_handles s' = st_socket_handles s - {th}"
      "st_accepted_udp_sockets s' =
        (case f of Flow_udp (Some a) \<Rightarrow> st_accepted_udp_sockets s - {a} | _ \<Rightarrow> st_accepted_udp_sockets s)"
      "delivered s' = delivered s" "moving q s' \<subseteq># moving q s" "accounts q R s R s'"
  shows "good D q u d R0 s0 R K s'"
proof -
  have inv: "stack_inv D s" and tok: "token_inv d q (K + {#th#}) s" using g by (simp_all add: good_def)
  have "f \<noteq> Flow_udp None" using inv f by (auto simp: stack_inv_def registry_ok_def)
  then have "stack_inv D s'"
    using inv f s'(1-3) by (auto simp: stack_inv_def registry_ok_del typed_handles_del
      udp_addrs_del_udp udp_addrs_del_tcp split: flow.splits option.splits)
  moreover have "token_inv d q K s'"
    unfolding token_inv_def
  proof (intro conjI allI)
    fix x
    have "count (moving q s') x \<le> count (moving q s) x" using s'(5) by (rule mset_subset_eq_count)
    moreover have "count (moving q s + delivered s + (K + {#th#})) x
        \<le> count d x + (if x \<in> st_socket_handles s then 1 else 0)"
      using tok unfolding token_inv_def by blast
    ultimately show "count (moving q s' + delivered s' + K) x \<le> count d x + (if x \<in> st_socket_handles s' then 1 else 0)"
      using s'(2,4) token_known[OF tok] by (auto split: if_splits)
  qed (use tok s'(4) in \<open>simp add: token_inv_def\<close>)
  moreover have "owned u q R s'" "accounts q R0 s0 R s'"
    using g s'(6) unfolding good_def by (blast intro: accounts_trans accounts_owned)+
  ultimately show ?thesis by (simp add: good_def)
qed

lemma acts_frame:
  assumes "crossbeam_laws (d_cb D) q tx rx"
  obtains s' where "do_waker_acts D acts s = Inr s'" "shared.more s' = shared.more s"
    "\<And>R. accounts q R s R s'" "moving q s' \<subseteq># moving q s"
proof -
  obtain s' where s': "do_waker_acts D acts s = Inr s'" using do_waker_acts_accounts[OF assms] by blast
  have "accounts q R s R s'" for R using do_waker_acts_accounts[OF assms, of acts s R] s' by auto
  with that[OF s' do_waker_acts_more[OF s']] do_waker_acts_moving[OF assms s'] show thesis by blast
qed

lemma fields_frame:
  fixes s :: "('c, 'e, 'b, 'ss, 'if, 'cap) tcp_stack"
  assumes "shared.more s' = shared.more s"
  shows "registry D s' = registry D s" "delivered s' = delivered s"
  using more_fields[OF assms] by (simp_all add: registry_def delivered_def)

lemma moving_st_update [simp]:
  "moving q (s\<lparr>st_socket_set := x\<rparr>) = moving q s" "moving q (s\<lparr>st_socket_handles := hs\<rparr>) = moving q s"
  "moving q (s\<lparr>st_accepted_udp_sockets := as\<rparr>) = moving q s" "moving q (s\<lparr>st_virtual_iface := v\<rparr>) = moving q s"
  "moving q (s\<lparr>st_interface := i\<rparr>) = moving q s"
  "moving q (s\<lparr>st_tcp_stream_tx := ts\<rparr>) = moving q s" "moving q (s\<lparr>st_udp_stream_tx := us\<rparr>) = moving q s"
  by (simp_all add: moving_def)

lemma accounts_st_update [simp]:
  "accounts q R0 s0 R (s\<lparr>st_socket_set := x\<rparr>) = accounts q R0 s0 R s"
  "accounts q R0 s0 R (s\<lparr>st_socket_handles := hs\<rparr>) = accounts q R0 s0 R s"
  "accounts q R0 s0 R (s\<lparr>st_accepted_udp_sockets := as\<rparr>) = accounts q R0 s0 R s"
  "accounts q R0 s0 R (s\<lparr>st_virtual_iface := v\<rparr>) = accounts q R0 s0 R s"
  "accounts q R0 s0 R (s\<lparr>st_interface := i\<rparr>) = accounts q R0 s0 R s"
  "accounts q R0 s0 R (s\<lparr>st_tcp_stream_tx := ts\<rparr>) = accounts q R0 s0 R s"
  "accounts q R0 s0 R (s\<lparr>st_udp_stream_tx := us\<rparr>) = accounts q R0 s0 R s"
  by (simp_all add: accounts_def owned_def held_def calm_def)

lemma delivered_st_update [simp]:
  "delivered (s\<lparr>st_socket_set := x\<rparr>) = delivered s" "delivered (s\<lparr>st_socket_handles := hs\<rparr>) = delivered s"
  "delivered (s\<lparr>st_accepted_udp_sockets := as\<rparr>) = delivered s"
  "delivered (s\<lparr>st_virtual_iface := v\<rparr>) = delivered s" "delivered (s\<lparr>st_interface := i\<rparr>) = delivered s"
  "delivered (put_socket D h y s) = delivered s"
  by (simp_all add: delivered_def put_socket_def)

lemma registry_st_update [simp]:
  "registry D (s\<lparr>st_socket_handles := hs\<rparr>) = registry D s"
  "registry D (s\<lparr>st_accepted_udp_sockets := as\<rparr>) = registry D s"
  "registry D (s\<lparr>st_virtual_iface := v\<rparr>) = registry D s" "registry D (s\<lparr>st_interface := i\<rparr>) = registry D s"
  "registry D (s\<lparr>st_tcp_stream_tx := ts\<rparr>) = registry D s" "registry D (s\<lparr>st_udp_stream_tx := us\<rparr>) = registry D s"
  by (simp_all add: registry_def)

text \<open>Removing a socket from the set, with the release of its wakers.\<close>

lemma removal_frame:
  assumes laws: "deps_laws D q tx rx" and h: "ss_get (d_set D) h (st_socket_set s) \<noteq> None"
  obtains acts ss' s1 where "ss_remove (d_set D) h (st_socket_set s) = Some (acts, ss')"
    "do_waker_acts D acts (s\<lparr>st_socket_set := ss'\<rparr>) = Inr s1"
    "registry D s1 = (registry D s)(h := None)" "st_socket_handles s1 = st_socket_handles s"
    "st_accepted_udp_sockets s1 = st_accepted_udp_sockets s" "delivered s1 = delivered s"
    "moving q s1 \<subseteq># moving q s" "\<And>R. accounts q R s R s1"
proof -
  obtain acts ss' where r: "ss_remove (d_set D) h (st_socket_set s) = Some (acts, ss')"
    "\<forall>h'. ss_get (d_set D) h' ss' = (if h' = h then None else ss_get (d_set D) h' (st_socket_set s))"
    using set_remove[OF deps_lawsD(2)[OF laws] h] by blast
  let ?s = "s\<lparr>st_socket_set := ss'\<rparr>"
  obtain s1 where s1: "do_waker_acts D acts ?s = Inr s1" "shared.more s1 = shared.more ?s"
    "\<And>R. accounts q R ?s R s1" "moving q s1 \<subseteq># moving q ?s"
    using acts_frame[OF deps_lawsD(1)[OF laws], of acts ?s] by blast
  have "registry D ?s = (registry D s)(h := None)"
    using r(2) by (auto simp: registry_def)
  then have "registry D s1 = (registry D s)(h := None)" using fields_frame(1)[OF s1(2), of D] by simp
  moreover have "accounts q R s R s1" for R
    by (rule accounts_trans[OF _ s1(3)]) simp
  ultimately show thesis
    using that[OF r(1) s1(1)] s1(4) more_fields[OF s1(2)] fields_frame(2)[OF s1(2)] by simp
qed

lemma good_close_tcp:
  assumes laws: "deps_laws D q tx rx" and g: "good D q u d R0 s0 R (K + {#Typed_Tcp h#}) s"
  shows "\<exists>s'. remove_tcp_socket D h s = Inr s' \<and> good D q u d R0 s0 R K s'"
proof -
  have inv: "stack_inv D s" using g by (simp add: good_def)
  have "Typed_Tcp h \<in> st_socket_handles s" using g token_known unfolding good_def by blast
  then have f: "registry D s h = Some Flow_tcp" using inv by (simp add: stack_inv_def)
  then have "ss_get (d_set D) h (st_socket_set s) \<noteq> None" by (auto simp: registry_def)
  from removal_frame[OF laws this] obtain acts ss' s1 where
    r: "ss_remove (d_set D) h (st_socket_set s) = Some (acts, ss')"
      "do_waker_acts D acts (s\<lparr>st_socket_set := ss'\<rparr>) = Inr s1" and
    s1: "registry D s1 = (registry D s)(h := None)" "st_socket_handles s1 = st_socket_handles s"
      "st_accepted_udp_sockets s1 = st_accepted_udp_sockets s" "delivered s1 = delivered s"
      "moving q s1 \<subseteq># moving q s" "accounts q R s R s1" by metis
  have "good D q u d R0 s0 R K (s1\<lparr>st_socket_handles := st_socket_handles s1 - {Typed_Tcp h}\<rparr>)"
    using s1 by (intro good_gone[OF g f]) simp_all
  then show ?thesis using r by (simp add: remove_tcp_socket_def)
qed

lemma good_remove_udp:
  assumes laws: "deps_laws D q tx rx" and g: "good D q u d R0 s0 R (K + {#Typed_Udp h#}) s"
    and u: "get_udp D h s = Inr sock" "u_endpoint (d_udp D) sock = (Some ip, port)"
  shows "\<exists>s1 s'. do_waker_acts D acts0 (put_socket D h x s) = Inr s1 \<and>
    remove_udp_socket D h (SocketAddr_new ip port) s1 = Inr s' \<and> good D q u d R0 s0 R K s'"
proof -
  note cb = deps_lawsD(1)[OF laws] and sl = deps_lawsD(2)[OF laws]
  let ?p = "put_socket D h x s"
  have f: "registry D s h = Some (Flow_udp (Some (SocketAddr_new ip port)))"
    using u by (simp add: registry_udp udp_addr_def)
  have known: "ss_get (d_set D) h (st_socket_set s) \<noteq> None" using u(1) by (simp add: get_udp_iff)
  obtain s1 where s1: "do_waker_acts D acts0 ?p = Inr s1" "shared.more s1 = shared.more ?p"
    "\<And>R. accounts q R ?p R s1" "moving q s1 \<subseteq># moving q ?p"
    using acts_frame[OF cb, of acts0 ?p] by blast
  note s1_fields = more_fields[OF s1(2)] fields_frame(2)[OF s1(2)]
  have reg: "(registry D s1)(h := None) = (registry D s)(h := None)"
    using set_put[OF sl known] s1_fields(1) by (auto simp: registry_def put_socket_def)
  have "ss_get (d_set D) h (st_socket_set s1) \<noteq> None"
    using set_put[OF sl known] s1_fields(1) by (simp add: put_socket_def)
  from removal_frame[OF laws this] obtain acts ss' s2 where
    r: "ss_remove (d_set D) h (st_socket_set s1) = Some (acts, ss')"
      "do_waker_acts D acts (s1\<lparr>st_socket_set := ss'\<rparr>) = Inr s2" and
    s2: "registry D s2 = (registry D s1)(h := None)" "st_socket_handles s2 = st_socket_handles s1"
      "st_accepted_udp_sockets s2 = st_accepted_udp_sockets s1" "delivered s2 = delivered s1"
      "moving q s2 \<subseteq># moving q s1" "accounts q R s1 R s2" by metis
  have "accounts q R s R s2" using accounts_trans[OF accounts_trans[OF accounts_put s1(3)] s2(6)] .
  moreover have "moving q s2 \<subseteq># moving q s" using s2(5) s1(4) subset_mset.order_trans by fastforce
  ultimately have "good D q u d R0 s0 R K (s2\<lparr>st_accepted_udp_sockets := st_accepted_udp_sockets s2 - {SocketAddr_new ip port},
      st_socket_handles := st_socket_handles s2 - {Typed_Udp h}\<rparr>)"
    using s2 s1_fields reg by (intro good_gone[OF g f]) (simp_all add: put_socket_def)
  then show ?thesis using r s1(1) by (simp add: remove_udp_socket_def)
qed

lemma good_handle_close:
  assumes laws: "deps_laws D q tx rx" and g: "good D q u d R0 s0 R (K + {#th#}) s"
  shows "\<exists>s'. handle_close_event D th s = Inr s' \<and> good D q u d R0 s0 R K s'"
proof -
  note cb = deps_lawsD(1)[OF laws]
  have inv: "stack_inv D s" and known: "th \<in> st_socket_handles s"
    using g token_known unfolding good_def by blast+
  show ?thesis
  proof (cases th)
    case (Typed_Tcp h)
    then obtain sock where get: "get_tcp D h s = Inr sock" using known inv_tcp_handle[OF inv] by blast
    obtain sock1 acts where c: "t_close (d_tcp D) sock = (sock1, acts)" by fastforce
    let ?p = "put_socket D h (Socket_Tcp sock1) s"
    have "serves q {#} {#} D s (do_waker_acts D acts ?p)"
      by (rule serves_after[OF serves_acts[OF cb] keeps_put_tcp[OF laws get]]) simp_all
    with g obtain s1 where s1: "do_waker_acts D acts ?p = Inr s1" "good D q u d R0 s0 R (K + {#th#}) s1"
      using good_serves[of D q u d R0 s0 R "{#}" "K + {#th#}" "{#}" s] by auto
    then have "stack_inv D s1" "th \<in> st_socket_handles s1"
      using token_known unfolding good_def by blast+
    then obtain t1 where get1: "get_tcp D h s1 = Inr t1" using inv_tcp_handle Typed_Tcp by blast
    have "\<exists>s'. park_tcp D (t_register_recv_waker (d_tcp D)) (Wake_close h) h sock1 s1 = Inr s' \<and> good D q u d R0 s0 R K s'"
      using good_serves[OF _ serves_park_tcp[OF laws get1, of "Wake_close h"], of u d R0 s0 R K] s1(2) Typed_Tcp
      by simp
    moreover have "\<exists>s'. remove_tcp_socket D h s1 = Inr s' \<and> good D q u d R0 s0 R K s'"
      using good_close_tcp[OF laws] s1(2) Typed_Tcp by simp
    ultimately show ?thesis
      using known get c s1(1) by (simp add: handle_close_event_def Typed_Tcp)
  next
    case (Typed_Udp h)
    then obtain sock where get: "get_udp D h s = Inr sock" using known inv_udp_handle[OF inv] by blast
    obtain ip port where e: "u_endpoint (d_udp D) sock = (Some ip, port)" using inv_udp_bound[OF inv get] by blast
    obtain sock1 acts where c: "u_close (d_udp D) sock = (sock1, acts)" by fastforce
    show ?thesis
      using good_remove_udp[OF laws _ get e, of u d R0 s0 R K acts "Socket_Udp sock1"] g known get e c
      by (auto simp: handle_close_event_def Typed_Udp)
  qed
qed

text \<open>The only panics that can stop a turn.\<close>

definition endpoint_panic :: "panic \<Rightarrow> bool" where
  "endpoint_panic p \<longleftrightarrow> p = Panic_expect ''tcp socket doesn't have local addr'' \<or>
     p = Panic_expect ''tcp socket doesn't have remote addr''"

text \<open>Announcing a socket to its acceptor spends the token in hand.\<close>

lemma good_deliver:
  assumes g: "good D q u d R0 s0 R (K + {#th#}) s"
    and s': "registry D s' = registry D s" "st_socket_handles s' = st_socket_handles s"
      "st_accepted_udp_sockets s' = st_accepted_udp_sockets s" "delivered s' = delivered s + {#th#}"
      "moving q s' = moving q s" "accounts q R s R s'"
  shows "good D q u d R0 s0 R K s'"
proof -
  have "d \<subseteq># delivered s'" using g s'(4) subset_mset.order_trans[of d "delivered s"]
    unfolding good_def token_inv_def by simp
  then have "token_inv d q K s'" using g s' by (simp add: good_def token_inv_def)
  moreover have "owned u q R s'" "accounts q R0 s0 R s'"
    using g s'(6) unfolding good_def by (blast intro: accounts_trans accounts_owned)+
  ultimately show ?thesis using g s' by (simp add: good_def stack_inv_def)
qed

lemma good_handle_ready:
  assumes laws: "deps_laws D q tx rx" and g: "good D q u d R0 s0 R (K + {#th#}) s"
  shows "(\<exists>s'. handle_ready_wake_event D th s = Inr s' \<and> good D q u d R0 s0 R K s') \<or>
    (\<exists>p. handle_ready_wake_event D th s = Inl p \<and> endpoint_panic p)"
proof -
  have inv: "stack_inv D s" and known: "th \<in> st_socket_handles s"
    using g token_known unfolding good_def by blast+
  show ?thesis
  proof (cases th)
    case (Typed_Tcp h)
    then obtain sock where get: "get_tcp D h s = Inr sock" using known inv_tcp_handle[OF inv] by blast
    have "\<exists>s'. park_tcp D (t_register_recv_waker (d_tcp D)) (Wake_ready h) h sock s = Inr s' \<and> good D q u d R0 s0 R K s'"
      using good_serves[OF _ serves_park_tcp[OF laws get, of "Wake_ready h"], of u d R0 s0 R K] g Typed_Tcp
      by simp
    moreover have "good D q u d R0 s0 R K (s\<lparr>st_tcp_stream_tx := st_tcp_stream_tx s @
        [Inr \<lparr>ti_handle = h, ti_local_addr = l, ti_remote_addr = r\<rparr>]\<rparr>)" for l r
      by (rule good_deliver[OF g]) (simp_all add: Typed_Tcp delivered_def)
    ultimately show ?thesis
      using get by (auto simp: handle_ready_wake_event_def Typed_Tcp endpoint_panic_def split: option.split)
  next
    case (Typed_Udp h)
    then obtain sock where get: "get_udp D h s = Inr sock" using known inv_udp_handle[OF inv] by blast
    obtain ip port where e: "u_endpoint (d_udp D) sock = (Some ip, port)" using inv_udp_bound[OF inv get] by blast
    have "good D q u d R0 s0 R K (s\<lparr>st_udp_stream_tx := st_udp_stream_tx s @
        [Inr \<lparr>ui_handle = h, ui_remote_addr = r\<rparr>]\<rparr>)" for r
      by (rule good_deliver[OF g]) (simp_all add: Typed_Udp delivered_def)
    then show ?thesis using get e by (simp add: handle_ready_wake_event_def Typed_Udp)
  qed
qed

section \<open>A batch of requests\<close>

text \<open>
  Abstractly a batch is handled in three passes, each in the order of arrival: the requests that
  change the life of a socket, the TCP transfers, the UDP transfers.
\<close>

fun is_tcp_transfer :: "operation_event \<Rightarrow> bool" where
  "is_tcp_transfer (Read _ _ _) = True"
| "is_tcp_transfer (Write _ _ _) = True"
| "is_tcp_transfer _ = False"

fun is_udp_transfer :: "operation_event \<Rightarrow> bool" where
  "is_udp_transfer (Recv _ _ _) = True"
| "is_udp_transfer (Send _ _ _ _) = True"
| "is_udp_transfer _ = False"

definition is_control :: "operation_event \<Rightarrow> bool" where
  "is_control ev \<longleftrightarrow> \<not> is_tcp_transfer ev \<and> \<not> is_udp_transfer ev"

fun handle_control ::
  "('c, 'e, 'l, 'b, 'tcp, 'udp, 'ss, 'if, 'cap, 'ck) stack_deps \<Rightarrow> operation_event
   \<Rightarrow> ('c, 'e, 'b, 'ss, 'if, 'cap) tcp_stack \<Rightarrow> ('c, 'e, 'b, 'ss, 'if, 'cap) tcp_stack outcome" where
  "handle_control D (Ready th) s = handle_ready_wake_event D th s"
| "handle_control D (Shutdown th t) s = handle_shutdown_event D th t s"
| "handle_control D (Close th) s = handle_close_event D th s"
| "handle_control D _ s = Inr s"

definition handle_passes ::
  "('c, 'e, 'l, 'b, 'tcp, 'udp, 'ss, 'if, 'cap, 'ck) stack_deps \<Rightarrow> operation_event list
   \<Rightarrow> ('c, 'e, 'b, 'ss, 'if, 'cap) tcp_stack \<Rightarrow> ('c, 'e, 'b, 'ss, 'if, 'cap) tcp_stack outcome" where
  "handle_passes D evs s =
     obind (for_each (handle_control D) (filter is_control evs) s) (\<lambda>s1.
     obind (for_each (handle_tcp_wake_event D) (filter is_tcp_transfer evs) s1) (\<lambda>s2.
     for_each (handle_udp_wake_event D) (filter is_udp_transfer evs) s2))"

lemma dispatch_events_passes:
  "dispatch_events D evs (ts, us, s) =
     obind (for_each (handle_control D) (filter is_control evs) s) (\<lambda>s1.
     Inr (ts @ filter is_tcp_transfer evs, us @ filter is_udp_transfer evs, s1))"
proof (induction evs arbitrary: ts us s)
  case (Cons ev evs)
  then show ?case by (cases ev) (auto simp: is_control_def obind_def split: sum.splits)
qed (simp add: obind_def)

lemma drive_events_eq: "drive_events D evs s = handle_passes D evs s"
  by (auto simp: drive_events_def handle_passes_def dispatch_events_passes obind_def
    handle_tcp_wake_events_def handle_udp_wake_events_def split: sum.splits)

text \<open>C28 (equivalence). \<^verbatim>\<open>drive_once\<close> handles a batch in three passes: every \<open>Ready\<close>, \<open>Shutdown\<close> and
  \<open>Close\<close> request, then every TCP transfer, then every UDP transfer, each pass in the order in which the
  requests were sent. In particular a transfer on a socket that is closed in the same batch finds
  the socket closed, even when it was sent before the close.\<close>

theorem drive_events_passes: "drive_events D evs s = handle_passes D evs s"
  by (rule drive_events_eq)

lemma passes_reqs:
  "events_reqs evs = events_reqs (filter is_control evs) + events_reqs (filter is_tcp_transfer evs) +
     events_reqs (filter is_udp_transfer evs)"
proof (induction evs)
  case (Cons ev evs)
  then show ?case by (cases ev) (simp_all add: is_control_def)
qed simp

lemma passes_token:
  "events_token (filter is_control evs) = events_token evs"
  "events_token (filter is_tcp_transfer evs) = {#}" "events_token (filter is_udp_transfer evs) = {#}"
proof (induction evs)
  case (Cons ev evs)
  { case 1 with Cons show ?case by (cases ev) (simp_all add: is_control_def) }
  { case 2 with Cons show ?case by (cases ev) simp_all }
  { case 3 with Cons show ?case by (cases ev) simp_all }
qed simp_all

definition turn_inv where
  "turn_inv = (\<lambda>(D, q, tx, rx, u, d, R0, s0) R K s. deps_laws D q tx rx \<and> good D q u d R0 s0 R K s)"

lemma turn_inv_simp [simp]:
  "turn_inv (D, q, tx, rx, u, d, R0, s0) R K s \<longleftrightarrow> deps_laws D q tx rx \<and> good D q u d R0 s0 R K s"
  by (simp add: turn_inv_def)

interpretation tcp_work: worklist turn_inv "\<lambda>k. handle_tcp_wake_event (fst k)" is_tcp_transfer "\<lambda>_. False"
proof
  fix k R ev K s
  assume t: "turn_inv k (R + ev_reqs ev) (K + ev_token ev) s" and "is_tcp_transfer ev"
  obtain D q tx rx u d R0 s0 where k: "k = (D, q, tx, rx, u, d, R0, s0)" by (metis surj_pair)
  from t have laws: "deps_laws D q tx rx" and g: "good D q u d R0 s0 (R + ev_reqs ev) (K + ev_token ev) s"
    and inv: "stack_inv D s" and own: "owned u q (R + ev_reqs ev) s"
    by (simp_all add: k good_def)
  have "ev_token ev = {#}" "serves q (ev_reqs ev) {#} D s (handle_tcp_wake_event D ev s)"
    using \<open>is_tcp_transfer ev\<close> serves_read[OF laws inv] serves_write[OF laws inv] own
    by (cases ev; simp)+
  with good_serves[OF g] laws
  show "(\<exists>s'. handle_tcp_wake_event (fst k) ev s = Inr s' \<and> turn_inv k R K s') \<or>
      (\<exists>p. handle_tcp_wake_event (fst k) ev s = Inl p \<and> False)"
    by (simp add: k)
qed

interpretation udp_work: worklist turn_inv "\<lambda>k. handle_udp_wake_event (fst k)" is_udp_transfer "\<lambda>_. False"
proof
  fix k R ev K s
  assume t: "turn_inv k (R + ev_reqs ev) (K + ev_token ev) s" and "is_udp_transfer ev"
  obtain D q tx rx u d R0 s0 where k: "k = (D, q, tx, rx, u, d, R0, s0)" by (metis surj_pair)
  from t have laws: "deps_laws D q tx rx" and g: "good D q u d R0 s0 (R + ev_reqs ev) (K + ev_token ev) s"
    and inv: "stack_inv D s" and own: "owned u q (R + ev_reqs ev) s"
    by (simp_all add: k good_def)
  have "ev_token ev = {#}" "serves q (ev_reqs ev) {#} D s (handle_udp_wake_event D ev s)"
    using \<open>is_udp_transfer ev\<close> serves_recv[OF laws inv] serves_send[OF laws inv] own
    by (cases ev; simp)+
  with good_serves[OF g] laws
  show "(\<exists>s'. handle_udp_wake_event (fst k) ev s = Inr s' \<and> turn_inv k R K s') \<or>
      (\<exists>p. handle_udp_wake_event (fst k) ev s = Inl p \<and> False)"
    by (simp add: k)
qed

interpretation control_work: worklist turn_inv "\<lambda>k. handle_control (fst k)"
  "\<lambda>ev. is_control ev \<and> \<not> udp_shutdown ev" endpoint_panic
proof
  fix k R ev K s
  assume t: "turn_inv k (R + ev_reqs ev) (K + ev_token ev) s" and ev: "is_control ev \<and> \<not> udp_shutdown ev"
  obtain D q tx rx u d R0 s0 where k: "k = (D, q, tx, rx, u, d, R0, s0)" by (metis surj_pair)
  from t have laws: "deps_laws D q tx rx" and g: "good D q u d R0 s0 (R + ev_reqs ev) (K + ev_token ev) s"
    and inv: "stack_inv D s"
    by (simp_all add: k good_def)
  show "(\<exists>s'. handle_control (fst k) ev s = Inr s' \<and> turn_inv k R K s') \<or>
      (\<exists>p. handle_control (fst k) ev s = Inl p \<and> endpoint_panic p)"
  proof (cases ev)
    case (Ready th)
    with good_handle_ready[OF laws, of u d R0 s0 R K th s] g laws show ?thesis by (simp add: k)
  next
    case (Close th)
    with good_handle_close[OF laws, of u d R0 s0 R K th s] g laws show ?thesis by (simp add: k)
  next
    case (Shutdown th t)
    with ev have "\<And>h. th \<noteq> Typed_Udp h" by auto
    from good_serves[OF _ serves_shutdown[OF laws inv this, of t], of u d R0 s0 R K] g laws Shutdown
    show ?thesis by (simp add: k)
  qed (use ev in \<open>simp_all add: is_control_def\<close>)
qed

lemma good_drive_events:
  assumes laws: "deps_laws D q tx rx"
    and g: "good D q u d R0 s0 (R + events_reqs evs) (K + events_token evs) s"
    and evs: "\<forall>ev\<in>set evs. \<not> udp_shutdown ev"
  shows "(\<exists>s'. drive_events D evs s = Inr s' \<and> good D q u d R0 s0 R K s') \<or>
    (\<exists>p. drive_events D evs s = Inl p \<and> endpoint_panic p)"
proof -
  let ?k = "(D, q, tx, rx, u, d, R0, s0)" and ?t = "filter is_tcp_transfer evs" and ?u = "filter is_udp_transfer evs"
  have "turn_inv ?k ((R + events_reqs ?u + events_reqs ?t) + events_reqs (filter is_control evs))
      (K + events_token (filter is_control evs)) s"
    using g laws passes_reqs[of evs] passes_token(1)[of evs] by (simp add: ac_simps)
  from control_work.handle_all[OF this] evs
  consider s1 where "for_each (handle_control D) (filter is_control evs) s = Inr s1"
      "turn_inv ?k ((R + events_reqs ?u) + events_reqs ?t) (K + events_token ?t) s1"
    | p where "for_each (handle_control D) (filter is_control evs) s = Inl p" "endpoint_panic p"
    by (auto simp: passes_token)
  then show ?thesis
  proof cases
    case 1
    from tcp_work.handle_all[OF 1(2)] obtain s2 where
      2: "for_each (handle_tcp_wake_event D) ?t s1 = Inr s2" "turn_inv ?k (R + events_reqs ?u) (K + events_token ?u) s2"
      by (auto simp: passes_token)
    from udp_work.handle_all[OF 2(2)] obtain s3 where
      "for_each (handle_udp_wake_event D) ?u s2 = Inr s3" "turn_inv ?k R K s3"
      by (auto simp: passes_token)
    with 1 2 show ?thesis by (simp add: drive_events_eq handle_passes_def)
  qed (simp add: drive_events_eq handle_passes_def)
qed

section \<open>New sockets\<close>

lemma registry_ok_add:
  assumes "registry_ok r" "r h = None" "\<And>a. f = Flow_udp a \<Longrightarrow> a \<noteq> None \<and> the a \<notin> udp_addrs r"
  shows "registry_ok (r(h \<mapsto> f))"
proof -
  have fresh: "r h' \<noteq> Some (Flow_udp a)" if "f = Flow_udp a" for h' a
  proof
    assume "r h' = Some (Flow_udp a)"
    with assms(3)[OF that] show False by (cases a) (auto simp: udp_addrs_def)
  qed
  show ?thesis unfolding registry_ok_def
  proof (intro conjI allI impI)
    fix h' show "(r(h \<mapsto> f)) h' \<noteq> Some (Flow_udp None)"
      using assms(1,3) by (auto simp: registry_ok_def)
  next
    fix h1 h2 a
    assume "(r(h \<mapsto> f)) h1 = Some (Flow_udp a)" "(r(h \<mapsto> f)) h2 = Some (Flow_udp a)"
    with fresh assms(1) show "h1 = h2" by (auto simp: registry_ok_def split: if_splits)
  qed
qed

lemma udp_addrs_add:
  "r h = None \<Longrightarrow> udp_addrs (r(h \<mapsto> f)) = (case f of Flow_udp (Some a) \<Rightarrow> insert a (udp_addrs r) | _ \<Rightarrow> udp_addrs r)"
proof (rule set_eqI)
  fix x assume h: "r h = None"
  then have "(\<exists>h'. (r(h \<mapsto> f)) h' = Some (Flow_udp (Some x))) \<longleftrightarrow>
      f = Flow_udp (Some x) \<or> (\<exists>h'. r h' = Some (Flow_udp (Some x)))"
    by (metis fun_upd_other fun_upd_same option.distinct(1) option.inject)
  then show "x \<in> udp_addrs (r(h \<mapsto> f)) \<longleftrightarrow>
      x \<in> (case f of Flow_udp (Some a) \<Rightarrow> insert a (udp_addrs r) | _ \<Rightarrow> udp_addrs r)"
    by (auto simp: udp_addrs_def split: flow.split option.split)
qed

text \<open>A socket under a new handle comes with its token.\<close>

lemma good_open:
  assumes g: "good D q u d R0 s0 R K s"
    and h: "registry D s h = None" and f: "\<And>a. f = Flow_udp a \<Longrightarrow> a \<noteq> None \<and> the a \<notin> st_accepted_udp_sockets s"
    and s': "registry D s' = (registry D s)(h \<mapsto> f)" "st_socket_handles s' = insert (typed h f) (st_socket_handles s)"
      "st_accepted_udp_sockets s' =
        (case f of Flow_udp (Some a) \<Rightarrow> insert a (st_accepted_udp_sockets s) | _ \<Rightarrow> st_accepted_udp_sockets s)"
      "delivered s' = delivered s" "moving q s' = moving q s" "accounts q R s R s'"
  shows "good D q u d R0 s0 R (K + {#typed h f#}) s'"
proof -
  have inv: "stack_inv D s" and tok: "token_inv d q K s" using g by (simp_all add: good_def)
  then have new: "typed h f \<notin> st_socket_handles s" using h by (cases f) (simp_all add: stack_inv_def)
  have "stack_inv D s'"
    using inv s'(1-3) h f registry_ok_add[of "registry D s" h f]
    by (simp add: stack_inv_def typed_handles_upd udp_addrs_add split: flow.splits option.splits)
  moreover have "token_inv d q (K + {#typed h f#}) s'"
    unfolding token_inv_def
  proof (intro conjI allI)
    fix th
    have "count (moving q s + delivered s + K) th \<le> count d th + (if th \<in> st_socket_handles s then 1 else 0)"
      using tok unfolding token_inv_def by blast
    then show "count (moving q s' + delivered s' + (K + {#typed h f#})) th
        \<le> count d th + (if th \<in> st_socket_handles s' then 1 else 0)"
      using s'(2,4,5) new by auto
  qed (use tok s'(4) in \<open>simp add: token_inv_def\<close>)
  moreover have "owned u q R s'" "accounts q R0 s0 R s'"
    using g s'(6) unfolding good_def by (blast intro: accounts_trans accounts_owned)+
  ultimately show ?thesis by (simp add: good_def)
qed

lemma registry_added:
  assumes "set_laws (d_set D)" "ss_add (d_set D) x (st_socket_set s) = (h, ss')"
  shows "registry D s h = None" "registry D (s\<lparr>st_socket_set := ss'\<rparr>) = (registry D s)(h \<mapsto> flow_of (d_udp D) x)"
  using set_add[OF assms] by (auto simp: registry_def)

lemma good_init_tcp:
  assumes laws: "deps_laws D q tx rx" and g: "good D q u d R0 s0 R K s"
  shows "\<exists>err s'. init_tcp D dst s = Inr (err, s') \<and> good D q u d R0 s0 R K s'"
proof (cases "t_listen (d_tcp D) dst (create_tcp_socket (d_tcp D) (st_tcp_socket_buf_size s))")
  case (Inr sock)
  obtain h ss' where a: "ss_add (d_set D) (Socket_Tcp sock) (st_socket_set s) = (h, ss')" by fastforce
  let ?s = "s\<lparr>st_socket_set := ss', st_socket_handles := insert (Typed_Tcp h) (st_socket_handles s)\<rparr>"
  note reg = registry_added[OF deps_lawsD(2)[OF laws] a]
  have "good D q u d R0 s0 R (K + {#typed h Flow_tcp#}) ?s"
    by (rule good_open[OF g reg(1)]) (use reg(2) in simp_all)
  moreover have get: "get_tcp D h ?s = Inr sock"
    using set_add[OF deps_lawsD(2)[OF laws] a] by (simp add: get_tcp_iff)
  ultimately obtain s2 where
    "park_tcp D (t_register_send_waker (d_tcp D)) (Wake_ready h) h sock ?s = Inr s2" "good D q u d R0 s0 R K s2"
    using good_serves[OF _ serves_park_tcp[OF laws get, of "Wake_ready h"], of u d R0 s0 R K] by auto
  with Inr a get show ?thesis by (simp add: init_tcp_def)
qed (use g in \<open>simp add: init_tcp_def\<close>)

lemma good_send_token:
  assumes laws: "deps_laws D q tx rx" and g: "good D q u d R0 s0 R (K + ev_token ev) s"
    and ev: "ev_reqs ev = {#}" and r: "send_event D ev s = (r, s')"
  shows "good D q u d R0 s0 R K s'"
proof -
  have "serves q {#} (ev_token ev) D s (Inr s')"
    using send_event_quiet[OF deps_lawsD(1)[OF laws] ev, of _ s] r
      send_event_moving[OF deps_lawsD(1)[OF laws] r]
    by (intro servesI[OF refl] keeps_more[OF send_event_moreD[OF r]]) simp_all
  from good_serves[OF _ this, of u d R0 s0 R K] g show ?thesis by simp
qed

lemma good_try_init_udp:
  assumes laws: "deps_laws D q tx rx" and g: "good D q u d R0 s0 R K s" and dst: "addr_normal dst"
  shows "good D q u d R0 s0 R K (snd (try_init_udp D dst s))"
proof (cases "dst \<in> st_accepted_udp_sockets s")
  case new: False
  show ?thesis
  proof (cases "u_bind (d_udp D) dst (create_udp_socket (d_udp D) SOCKET_BUF_SIZE)")
    case (Inr sock)
    obtain h ss' where a: "ss_add (d_set D) (Socket_Udp sock) (st_socket_set s) = (h, ss')" by fastforce
    let ?s = "s\<lparr>st_socket_set := ss', st_socket_handles := insert (Typed_Udp h) (st_socket_handles s),
                 st_accepted_udp_sockets := insert dst (st_accepted_udp_sockets s)\<rparr>"
    note reg = registry_added[OF deps_lawsD(2)[OF laws] a]
    have "udp_addr (d_udp D) sock = Some dst"
      using deps_lawsD(3)[OF laws] Inr dst by (simp add: udp_laws_def udp_addr_def addr_normal_def)
    then have "registry D (s\<lparr>st_socket_set := ss'\<rparr>) = (registry D s)(h \<mapsto> Flow_udp (Some dst))"
      using reg(2) by simp
    then have "good D q u d R0 s0 R (K + {#typed h (Flow_udp (Some dst))#}) ?s"
      using new by (intro good_open[OF g reg(1)]) auto
    then have "good D q u d R0 s0 R K (snd (send_event D (Ready (Typed_Udp h)) ?s))"
      using good_send_token[OF laws, of u d R0 s0 R K "Ready (Typed_Udp h)" ?s] by (metis ev_reqs.simps(1)
        ev_token.simps(1) prod.collapse typed.simps(2))
    with Inr a new show ?thesis
      by (auto simp: try_init_udp_def Let_def split: prod.splits send_result.splits)
  qed (use g new in \<open>simp add: try_init_udp_def\<close>)
qed (use g in \<open>simp add: try_init_udp_def\<close>)

section \<open>The whole turn\<close>

lemma good_iface_update [simp]:
  "good D q u d R0 s0 R K (s\<lparr>st_virtual_iface := v\<rparr>) \<longleftrightarrow> good D q u d R0 s0 R K s"
  by (simp add: good_def stack_inv_def token_inv_def owned_def held_def)

lemma good_drive_packet:
  assumes laws: "deps_laws D q tx rx" and g: "good D q u d R0 s0 R K s"
  shows "\<exists>err s'. drive_packet D p s = Inr (err, s') \<and> good D q u d R0 s0 R K s'"
proof (cases "parse_packet (d_wire D) p")
  case (Some pt)
  show ?thesis
  proof (cases pt)
    case (PacketType_Tcp src dst)
    obtain err s' where "init_tcp D dst s = Inr (err, s')" "good D q u d R0 s0 R K s'"
      using good_init_tcp[OF laws g] by blast
    with Some PacketType_Tcp show ?thesis by (cases err) (auto simp: drive_packet_def)
  next
    case (PacketType_Udp src dst)
    have "addr_normal dst" using parse_packet_normal[OF Some] PacketType_Udp by simp
    from good_try_init_udp[OF laws g this] Some PacketType_Udp show ?thesis
      by (cases "try_init_udp D dst s"; cases "fst (try_init_udp D dst s)") (auto simp: drive_packet_def)
  qed
qed (use g in \<open>simp add: drive_packet_def\<close>)

lemma same_socket_flow: "same_socket U x y \<Longrightarrow> map_option (flow_of U) y = map_option (flow_of U) x"
  by (cases "(U, x, y)" rule: same_socket.cases) (auto simp: udp_addr_def)

lemma good_poll:
  assumes laws: "deps_laws D q tx rx" and I: "iface_laws B (d_udp D) (d_set D) (d_iface D)"
    and g: "good D q u d R0 s0 R K s"
  shows "\<exists>s'. poll_interface D now s = Inr s' \<and> good D q u d R0 s0 R K s' \<and>
    (\<exists>es. run (device_step B) (st_virtual_iface s) es (st_virtual_iface s'))"
proof -
  obtain i vi ss acts where p: "if_poll (d_iface D) now (st_interface s) (st_virtual_iface s) (st_socket_set s) = (i, vi, ss, acts)"
    using prod_cases4 by blast
  with I have same: "\<And>h. same_socket (d_udp D) (ss_get (d_set D) h (st_socket_set s)) (ss_get (d_set D) h ss)"
    and run: "\<exists>es. run (device_step B) (st_virtual_iface s) es vi"
    unfolding iface_laws_def by blast+
  let ?s = "s\<lparr>st_interface := i, st_virtual_iface := vi, st_socket_set := ss\<rparr>"
  have k: "keeps D s ?s"
    using same_socket_flow[OF same] by (simp add: keeps_def registry_def)
  have s: "serves q {#} {#} D s (do_waker_acts D acts ?s)"
    by (rule serves_after[OF serves_acts[OF deps_lawsD(1)[OF laws]] k]) simp_all
  obtain s' where s': "do_waker_acts D acts ?s = Inr s'" "good D q u d R0 s0 R K s'"
    using good_serves[OF _ s, of u d R0 s0 R K] g by auto
  have "st_virtual_iface s' = vi" using more_fields(4)[OF do_waker_acts_more[OF s'(1)]] by simp
  with s' run p show ?thesis by (simp add: poll_interface_def)
qed

lemma good_drop_events:
  assumes "good D q u d R0 s0 (R + events_reqs evs) (K + events_token evs) s"
  shows "good D q u d R0 s0 R K (fold drop_event evs s)"
  using assms
proof (induction evs arbitrary: s)
  case (Cons ev evs)
  have "serves q (ev_reqs ev) (ev_token ev) D s (Inr (drop_event ev s))"
    by (rule servesI[OF refl]) (simp_all add: keeps_more drop_event_accounts)
  with Cons.prems have "good D q u d R0 s0 (R + events_reqs evs) (K + events_token evs) (drop_event ev s)"
    using good_serves[of D q u d R0 s0 "R + events_reqs evs" "ev_reqs ev" "K + events_token evs" "ev_token ev" s]
    by (auto simp: ac_simps)
  from Cons.IH[OF this] show ?case by simp
qed simp

definition batch :: "events option \<Rightarrow> operation_event list" where
  "batch events = (case events of None \<Rightarrow> [] | Some evs \<Rightarrow> events_list evs)"

lemma good_drive_once:
  assumes laws: "deps_laws D q tx rx" and I: "iface_laws B (d_udp D) (d_set D) (d_iface D)"
    and g: "good D q u d R0 s0 (R + events_reqs (batch events)) (K + events_token (batch events)) s"
    and evs: "\<forall>ev\<in>set (batch events). \<not> udp_shutdown ev"
  shows "(\<exists>r s'. drive_once D now packet events s = Inr (r, s') \<and> good D q u d R0 s0 R K s') \<or>
    (\<exists>p. drive_once D now packet events s = Inl p \<and> endpoint_panic p)"
proof -
  let ?R = "R + events_reqs (batch events)" and ?K = "K + events_token (batch events)"
  obtain err s1 where p: "(case packet of None \<Rightarrow> Inr (None, s) | Some p \<Rightarrow> drive_packet D p s) = Inr (err, s1)"
    and g1: "good D q u d R0 s0 ?R ?K s1"
    using good_drive_packet[OF laws g, of "the packet"] g by (cases packet) auto
  show ?thesis
  proof (cases err)
    case (Some e)
    with p good_drop_events[OF g1] show ?thesis by (simp add: drive_once_def batch_def)
  next
    case None
    obtain s2 where s2: "poll_interface D now s1 = Inr s2" "good D q u d R0 s0 ?R ?K s2"
      using good_poll[OF laws I g1] by blast
    have e: "(case events of None \<Rightarrow> Inr s2 | Some evs \<Rightarrow> drive_events D (events_list evs) s2) =
        drive_events D (batch events) s2"
      by (cases events) (simp_all add: batch_def drive_events_def)
    from good_drive_events[OF laws s2(2) evs]
    show ?thesis
    proof (elim disjE exE conjE)
      fix s3 assume "drive_events D (batch events) s2 = Inr s3" "good D q u d R0 s0 R K s3"
      with p None s2(1) e show ?thesis
        by (simp add: drive_once_def Let_def split: prod.split)
    next
      fix pa assume "drive_events D (batch events) s2 = Inl pa" "endpoint_panic pa"
      with p None s2(1) e show ?thesis by (simp add: drive_once_def)
    qed
  qed
qed

section \<open>The device and the acceptors\<close>

text \<open>
  No handler touches the virtual interface or smoltcp's interface, and only the announcement of a socket touches the streams
  of the acceptors: it appends to them.
\<close>

definition outer ::
  "('c, 'e, 'b, 'ss, 'if, 'cap) tcp_stack
   \<Rightarrow> ('cap virtual_interface \<times> 'if) \<times> tcp_info io_result list \<times> udp_info io_result list" where
  "outer s = ((st_virtual_iface s, st_interface s), st_tcp_stream_tx s, st_udp_stream_tx s)"

definition grows :: "('c, 'e, 'b, 'ss, 'if, 'cap) tcp_stack \<Rightarrow> ('c, 'e, 'b, 'ss, 'if, 'cap) tcp_stack \<Rightarrow> bool" where
  "grows s s' \<longleftrightarrow> st_virtual_iface s' = st_virtual_iface s \<and> st_interface s' = st_interface s \<and>
     prefix (st_tcp_stream_tx s) (st_tcp_stream_tx s') \<and> prefix (st_udp_stream_tx s) (st_udp_stream_tx s')"

lemma outer_grows: "outer s' = outer s \<Longrightarrow> grows s s'"
  by (simp add: outer_def grows_def)

lemma grows_trans: "grows s s1 \<Longrightarrow> grows s1 s2 \<Longrightarrow> grows s s2"
  unfolding grows_def using prefix_order.trans by metis

lemma outer_more:
  fixes s :: "('c, 'e, 'b, 'ss, 'if, 'cap) tcp_stack"
  assumes "shared.more s' = shared.more s"
  shows "outer s' = outer s"
  using more_fields[OF assms] by (simp add: outer_def)

lemma do_waker_acts_outer:
  fixes s :: "('c, 'e, 'b, 'ss, 'if, 'cap) tcp_stack"
  shows "do_waker_acts D acts s = Inr s' \<Longrightarrow> outer s' = outer s"
  using outer_more[OF do_waker_acts_more] .

lemma outer_st_update [simp]:
  "outer (s\<lparr>st_socket_set := x\<rparr>) = outer s" "outer (s\<lparr>st_socket_handles := hs\<rparr>) = outer s"
  "outer (s\<lparr>st_accepted_udp_sockets := as\<rparr>) = outer s"
  by (simp_all add: outer_def)

lemma outer_effects [simp]:
  "outer (put_socket D h x s) = outer s" "outer (answer b t r s) = outer s" "outer (set_buf b v s) = outer s"
  "outer (send_reply t r s) = outer s" "outer (drop_event ev s) = outer s"
  "outer (snd (send_event D' ev' s)) = outer s" "outer (snd (new_waker f s)) = outer s"
  using outer_more[OF drop_event_more[of ev s]] outer_more[OF send_event_more[of D' ev' s]]
  by (simp_all add: put_socket_def answer_def set_buf_def send_reply_def drop_buf_def new_waker_def outer_def)

lemma drop_events_outer: "outer (fold drop_event es t) = outer t"
  by (induction es arbitrary: t) simp_all

lemma new_waker_outer: "new_waker f s = (w, s') \<Longrightarrow> outer s' = outer s"
  using outer_effects(7)[of f s] by simp

lemma send_event_outer: "send_event D ev s = (r, s') \<Longrightarrow> outer s' = outer s"
  using outer_effects(6)[of D ev s] by simp

lemma park_outer:
  "park_tcp D reg f h t s = Inr s' \<Longrightarrow> outer s' = outer s"
  "park_udp D reg' f h u s = Inr s' \<Longrightarrow> outer s' = outer s"
  by (auto simp: park_tcp_def park_udp_def dest!: do_waker_acts_outer new_waker_outer split: prod.splits)

lemma ready_grows:
  assumes "handle_ready_wake_event D th s = Inr s'"
  shows "grows s s'"
  using assms
  by (auto simp: handle_ready_wake_event_def grows_def elim!: obind_InrE
    dest!: park_outer[THEN outer_grows[unfolded grows_def]]
    split: typed_socket_handle.split_asm if_split_asm option.split_asm prod.split_asm)

lemma shutdown_outer:
  "handle_shutdown_event D th t s = Inr s' \<Longrightarrow> outer s' = outer s"
  by (auto simp: handle_shutdown_event_def Let_def dest!: do_waker_acts_outer new_waker_outer elim!: obind_InrE
    split: typed_socket_handle.split_asm if_split_asm prod.split_asm)

lemma close_outer:
  "handle_close_event D th s = Inr s' \<Longrightarrow> outer s' = outer s"
  by (auto simp: handle_close_event_def remove_tcp_socket_def remove_udp_socket_def Let_def
    dest!: do_waker_acts_outer park_outer elim!: obind_InrE
    split: typed_socket_handle.split_asm if_split_asm prod.split_asm option.split_asm)

lemma control_grows: "handle_control D ev s = Inr s' \<Longrightarrow> grows s s'"
  by (cases ev) (auto intro: outer_grows shutdown_outer close_outer ready_grows)

lemma tcp_wake_outer: "handle_tcp_wake_event D ev s = Inr s' \<Longrightarrow> outer s' = outer s"
  by (cases ev) (auto simp: Let_def dest!: park_outer elim!: obind_InrE
    split: if_split_asm prod.split_asm sum.split_asm tcp_recv_error.split_asm)

lemma udp_wake_outer: "handle_udp_wake_event D ev s = Inr s' \<Longrightarrow> outer s' = outer s"
  by (cases ev) (auto simp: Let_def dest!: park_outer elim!: obind_InrE
    split: if_split_asm prod.split_asm sum.split_asm option.split_asm)

lemma drive_events_grows:
  assumes "drive_events D evs s = Inr s'"
  shows "grows s s'"
proof -
  from assms obtain s1 s2 where
    1: "for_each (handle_control D) (filter is_control evs) s = Inr s1" and
    2: "for_each (handle_tcp_wake_event D) (filter is_tcp_transfer evs) s1 = Inr s2" and
    3: "for_each (handle_udp_wake_event D) (filter is_udp_transfer evs) s2 = Inr s'"
    by (auto simp: drive_events_eq handle_passes_def obind_eq_Inr)
  have "grows s s" by (simp add: grows_def)
  then have "grows s s1" using for_each_inv[where I = "grows s", OF 1] control_grows grows_trans by blast
  then have "grows s s2" using for_each_inv[where I = "grows s", OF 2] tcp_wake_outer outer_grows grows_trans by blast
  then show ?thesis using for_each_inv[where I = "grows s", OF 3] udp_wake_outer outer_grows grows_trans by blast
qed

lemma init_tcp_outer: "init_tcp D dst s = Inr (err, s') \<Longrightarrow> outer s' = outer s"
  by (auto simp: init_tcp_def Let_def dest!: park_outer elim!: obind_InrE split: sum.split_asm prod.split_asm)

lemma try_init_udp_outer: "try_init_udp D dst s = (r, s') \<Longrightarrow> outer s' = outer s"
  by (auto simp: try_init_udp_def Let_def dest!: send_event_outer
    split: if_split_asm sum.split_asm prod.split_asm send_result.split_asm)

text \<open>What the packet did to the device: it was pushed, or the turn fails and the device is untouched.\<close>

lemma drive_packet_outer:
  assumes "drive_packet D p s = Inr (err, s')"
  shows "outer s' = (if err = None then ((push_receive_packet p (st_virtual_iface s), st_interface s), snd (outer s)) else outer s)"
  using assms
  by (auto simp: drive_packet_def outer_def
    dest!: init_tcp_outer[unfolded outer_def] try_init_udp_outer[unfolded outer_def]
    elim!: obind_InrE split: option.split_asm packet_type.split_asm prod.split_asm sum.split_asm)

end
