(* ===== verification/Builder.thy ===== *)
theory Builder
  imports Stack_Turn
begin

text \<open>
  \<^verbatim>\<open>TcpStackBuilder\<close>, \<^verbatim>\<open>TcpStack::new\<close> and the initialisation of the interface, of
  \<^verbatim>\<open>src/tcp_stack/mod.rs\<close>. The random seed and the clock reading of \<^verbatim>\<open>new\<close> are arguments. The stack's
  channel is shared with the event generator and the acceptors, so \<^verbatim>\<open>new\<close> returns the stack and, for
  each acceptor, how much of its stream it has taken.
\<close>

section \<open>The builder\<close>

record 'ck tcp_stack_builder =
  b_ipv4_addr :: "u32 cidr option"
  b_ipv4_gateway :: "u32 option"
  b_ipv6_addr :: "u128 cidr option"
  b_ipv6_gateway :: "u128 option"
  b_mtu :: "nat option"
  b_tcp_socket_buf_size :: "nat option"
  b_checksum_capabilities :: "'ck option"

definition builder :: "'ck tcp_stack_builder" where
  "builder = \<lparr>b_ipv4_addr = None, b_ipv4_gateway = None, b_ipv6_addr = None, b_ipv6_gateway = None,
     b_mtu = None, b_tcp_socket_buf_size = None, b_checksum_capabilities = None\<rparr>"

definition ipv4_addr :: "u32 cidr \<Rightarrow> 'ck tcp_stack_builder \<Rightarrow> 'ck tcp_stack_builder" where
  "ipv4_addr a b = b\<lparr>b_ipv4_addr := Some a\<rparr>"

definition ipv4_gateway :: "u32 \<Rightarrow> 'ck tcp_stack_builder \<Rightarrow> 'ck tcp_stack_builder" where
  "ipv4_gateway a b = b\<lparr>b_ipv4_gateway := Some a\<rparr>"

definition ipv6_addr :: "u128 cidr \<Rightarrow> 'ck tcp_stack_builder \<Rightarrow> 'ck tcp_stack_builder" where
  "ipv6_addr a b = b\<lparr>b_ipv6_addr := Some a\<rparr>"

definition ipv6_gateway :: "u128 \<Rightarrow> 'ck tcp_stack_builder \<Rightarrow> 'ck tcp_stack_builder" where
  "ipv6_gateway a b = b\<lparr>b_ipv6_gateway := Some a\<rparr>"

definition mtu :: "nat \<Rightarrow> 'ck tcp_stack_builder \<Rightarrow> 'ck tcp_stack_builder" where
  "mtu n b = b\<lparr>b_mtu := Some n\<rparr>"

definition tcp_socket_buf_size :: "nat \<Rightarrow> 'ck tcp_stack_builder \<Rightarrow> 'ck tcp_stack_builder" where
  "tcp_socket_buf_size n b = b\<lparr>b_tcp_socket_buf_size := Some n\<rparr>"

definition checksum_capabilities :: "'ck \<Rightarrow> 'ck tcp_stack_builder \<Rightarrow> 'ck tcp_stack_builder" where
  "checksum_capabilities c b = b\<lparr>b_checksum_capabilities := Some c\<rparr>"

lemmas builder_setters = ipv4_addr_def ipv4_gateway_def ipv6_addr_def ipv6_gateway_def mtu_def
  tcp_socket_buf_size_def checksum_capabilities_def

section \<open>The interface\<close>

text \<open>
  A panic of \<^verbatim>\<open>unwrap\<close> is the outer result, the error of \<^verbatim>\<open>?\<close> the inner one.
\<close>

definition ipv4_init_interface ::
  "('if, 'cap, 'ss, 'ck) iface_crate \<Rightarrow> 'if \<Rightarrow> u32 cidr \<Rightarrow> u32 \<Rightarrow> (string + 'if) outcome" where
  "ipv4_init_interface I interface ipv4 gateway =
     obind (if_push_addr I (IpCidr_Ipv4 \<lparr>cidr_address = gateway, cidr_prefix_len = cidr_prefix_len ipv4\<rparr>)
       (if_set_any_ip I True interface)) (\<lambda>interface1.
     Inr (if_add_default_ipv4_route I gateway interface1))"

definition ipv6_init_interface ::
  "('if, 'cap, 'ss, 'ck) iface_crate \<Rightarrow> 'if \<Rightarrow> u128 cidr \<Rightarrow> u128 \<Rightarrow> (string + 'if) outcome" where
  "ipv6_init_interface I interface ipv6 gateway =
     obind (if_push_addr I (IpCidr_Ipv6 ipv6) (if_set_any_ip I True interface)) (\<lambda>interface1.
     Inr (if_add_default_ipv6_route I gateway interface1))"

section \<open>The stack\<close>

definition tun_capabilities :: "('if, 'cap, 'ss, 'ck) iface_crate \<Rightarrow> nat \<Rightarrow> 'ck option \<Rightarrow> 'cap" where
  "tun_capabilities I m checksum =
     (let caps = cap_set_medium_ip I (cap_set_mtu I m (cap_default I))
      in case checksum of None \<Rightarrow> caps | Some c \<Rightarrow> cap_set_checksum I c caps)"

definition new_interface ::
  "('if, 'cap, 'ss, 'ck) iface_crate \<Rightarrow> nat \<Rightarrow> nat \<Rightarrow> 'cap virtual_interface
   \<Rightarrow> (u32 cidr \<times> u32) option \<Rightarrow> (u128 cidr \<times> u128) option \<Rightarrow> (string + 'if) outcome" where
  "new_interface I seed now vi ipv4 ipv6 =
     obind (case ipv4 of
              None \<Rightarrow> Inr (Inr (if_new I seed vi now))
            | Some (a, gw) \<Rightarrow> ipv4_init_interface I (if_new I seed vi now) a gw) (\<lambda>r4.
     case r4 of
       Inl e \<Rightarrow> Inr (Inl e)
     | Inr i4 \<Rightarrow>
         (case ipv6 of
            None \<Rightarrow> Inr (Inr i4)
          | Some (a, gw) \<Rightarrow> ipv6_init_interface I i4 a gw))"

text \<open>How many items of its stream an acceptor has taken.\<close>

record acceptor =
  ac_taken :: nat

definition stack_new ::
  "('c, 'e, 'l, 'b, 'tcp, 'udp, 'ss, 'if, 'cap, 'ck) stack_deps \<Rightarrow> nat \<Rightarrow> nat
   \<Rightarrow> (u32 cidr \<times> u32) option \<Rightarrow> (u128 cidr \<times> u128) option \<Rightarrow> nat option \<Rightarrow> nat option \<Rightarrow> 'ck option
   \<Rightarrow> (string + ('c, 'e, 'b, 'ss, 'if, 'cap) tcp_stack \<times> acceptor \<times> acceptor) outcome" where
  "stack_new D seed now ipv4 ipv6 buf_size mtu_opt checksum =
     (let m = (case mtu_opt of None \<Rightarrow> MTU | Some m \<Rightarrow> m);
          virtual_iface = vi_new (tun_capabilities (d_iface D) m checksum)
      in obind (new_interface (d_iface D) seed now virtual_iface ipv4 ipv6) (\<lambda>r.
         case r of
           Inl e \<Rightarrow> Inr (Inl e)
         | Inr interface \<Rightarrow>
             Inr (Inr
               (\<lparr>sh_ch = notify_new (d_cb D) (d_ev D), sh_wakers = [], sh_bufs = Map.empty, sh_trace = [],
                 st_ipv4_addr = map_option (\<lambda>(addr, _). cidr_address addr) ipv4,
                 st_ipv4_gateway = map_option (\<lambda>(_, gateway). gateway) ipv4,
                 st_ipv6_addr = map_option (\<lambda>(addr, _). cidr_address addr) ipv6,
                 st_ipv6_gateway = map_option (\<lambda>(_, gateway). gateway) ipv6,
                 st_tcp_socket_buf_size = (case buf_size of None \<Rightarrow> SOCKET_BUF_SIZE | Some n \<Rightarrow> n),
                 st_interface = interface, st_virtual_iface = virtual_iface,
                 st_socket_set = ss_new (d_set D), st_socket_handles = {}, st_accepted_udp_sockets = {},
                 st_tcp_stream_tx = [], st_udp_stream_tx = []\<rparr>,
                \<lparr>ac_taken = 0\<rparr>, \<lparr>ac_taken = 0\<rparr>))))"

text \<open>\<^verbatim>\<open>TcpStackBuilder::build\<close>.\<close>

definition build ::
  "('c, 'e, 'l, 'b, 'tcp, 'udp, 'ss, 'if, 'cap, 'ck) stack_deps \<Rightarrow> nat \<Rightarrow> nat \<Rightarrow> 'ck tcp_stack_builder
   \<Rightarrow> (string + ('c, 'e, 'b, 'ss, 'if, 'cap) tcp_stack \<times> acceptor \<times> acceptor) outcome" where
  "build D seed now b =
     (let ipv4 = (case (b_ipv4_addr b, b_ipv4_gateway b) of
                    (None, None) \<Rightarrow> Inr None
                  | (Some a, Some gw) \<Rightarrow> Inr (Some (a, gw))
                  | _ \<Rightarrow> Inl ''ipv4 should set ipv4 addr and gateway together'')
      in case ipv4 of
           Inl e \<Rightarrow> Inr (Inl e)
         | Inr v4 \<Rightarrow>
             (let ipv6 = (case (b_ipv6_addr b, b_ipv6_gateway b) of
                            (None, None) \<Rightarrow> Inr None
                          | (Some a, Some gw) \<Rightarrow> Inr (Some (a, gw))
                          | _ \<Rightarrow> Inl ''ipv6 should set ipv6 addr and gateway together'')
              in case ipv6 of
                   Inl e \<Rightarrow> Inr (Inl e)
                 | Inr v6 \<Rightarrow> stack_new D seed now v4 v6 (b_tcp_socket_buf_size b) (b_mtu b) (b_checksum_capabilities b)))"

definition iface_ipv4_addr :: "('c, 'e, 'b, 'ss, 'if, 'cap) tcp_stack \<Rightarrow> u32 option" where
  "iface_ipv4_addr s = st_ipv4_addr s"

definition iface_ipv4_gateway :: "('c, 'e, 'b, 'ss, 'if, 'cap) tcp_stack \<Rightarrow> u32 option" where
  "iface_ipv4_gateway s = st_ipv4_gateway s"

definition iface_ipv6_addr :: "('c, 'e, 'b, 'ss, 'if, 'cap) tcp_stack \<Rightarrow> u128 option" where
  "iface_ipv6_addr s = st_ipv6_addr s"

definition iface_ipv6_gateway :: "('c, 'e, 'b, 'ss, 'if, 'cap) tcp_stack \<Rightarrow> u128 option" where
  "iface_ipv6_gateway s = st_ipv6_gateway s"

section \<open>The initial state\<close>

lemma stack_new_start:
  assumes "deps_laws D q tx rx" "stack_new D seed now v4 v6 n m k = Inr (Inr (s, ta, ua))"
  shows "stack_inv D s" "owned (\<lambda>_. 0) q {#} s" "token_inv {#} q {#} s" "q (nc_chan (sh_ch s)) = []"
    "held q s = {#}" "sh_trace s = []" "ac_taken ta = 0" "ac_taken ua = 0" "sh_wakers s = []"
proof -
  have q: "q (cb_unbounded (d_cb D)) = []" using deps_lawsD(1)[OF assms(1)] by (simp add: crossbeam_laws_def)
  have empty: "ss_get (d_set D) h (ss_new (d_set D)) = None" for h
    using deps_lawsD(2)[OF assms(1)] by (simp add: set_laws_def)
  have s: "st_socket_set s = ss_new (d_set D)" "st_socket_handles s = {}" "st_accepted_udp_sockets s = {}"
    "sh_wakers s = []" "sh_bufs s = Map.empty" "nc_chan (sh_ch s) = cb_unbounded (d_cb D)"
    "st_tcp_stream_tx s = []" "st_udp_stream_tx s = []" "sh_trace s = []" "ta = \<lparr>ac_taken = 0\<rparr>" "ua = \<lparr>ac_taken = 0\<rparr>"
    using assms(2) by (auto simp: stack_new_def notify_new_def Let_def elim!: obind_InrE split: sum.split_asm)
  then show "stack_inv D s" using empty
    by (auto simp: stack_inv_def registry_def registry_ok_def typed_handles_def udp_addrs_def)
  show "owned (\<lambda>_. 0) q {#} s" using s q by (simp add: owned_def held_def strong_count_def)
  show "token_inv {#} q {#} s" using s q by (simp add: token_inv_def delivered_def moving_def)
  show "q (nc_chan (sh_ch s)) = []" "held q s = {#}" "sh_trace s = []" "ac_taken ta = 0" "ac_taken ua = 0" "sh_wakers s = []"
    using s q by (simp_all add: held_def)
qed

text \<open>The two halves of an address configuration, as \<^verbatim>\<open>build\<close> pairs them.\<close>

definition paired :: "'a option \<Rightarrow> 'b option \<Rightarrow> bool" where
  "paired a b \<longleftrightarrow> (a = None \<longleftrightarrow> b = None)"

definition both :: "'a option \<Rightarrow> 'b option \<Rightarrow> ('a \<times> 'b) option" where
  "both a b = (case (a, b) of (Some x, Some y) \<Rightarrow> Some (x, y) | _ \<Rightarrow> None)"

lemma build_eq:
  "build D seed now b =
     (if \<not> paired (b_ipv4_addr b) (b_ipv4_gateway b)
      then Inr (Inl ''ipv4 should set ipv4 addr and gateway together'')
      else if \<not> paired (b_ipv6_addr b) (b_ipv6_gateway b)
      then Inr (Inl ''ipv6 should set ipv6 addr and gateway together'')
      else stack_new D seed now (both (b_ipv4_addr b) (b_ipv4_gateway b)) (both (b_ipv6_addr b) (b_ipv6_gateway b))
        (b_tcp_socket_buf_size b) (b_mtu b) (b_checksum_capabilities b))"
  by (auto simp: build_def paired_def both_def Let_def split: option.splits)


lemma build_okE:
  assumes "build D seed now b = Inr (Inr (s, ta, ua))"
  obtains v4 v6 n m k where "stack_new D seed now v4 v6 n m k = Inr (Inr (s, ta, ua))"
  using assms by (auto simp: build_eq split: if_splits)

end
