(* ===== verification/Streams.thy ===== *)
theory Streams
  imports Builder
begin

text \<open>
  \<^verbatim>\<open>src/tcp_stack/tcp.rs\<close> and \<^verbatim>\<open>src/tcp_stack/udp.rs\<close>: the handles that the user holds. An
  \<^verbatim>\<open>async fn\<close> with one suspension point is two functions: what runs up to \<^verbatim>\<open>rx.recv_async().await\<close>, and
  what runs when that completes. A new allocation and a new result channel get their names \<open>b\<close> and
  \<open>t\<close> from the caller, who must choose fresh ones.
\<close>

section \<open>Asynchronous operations\<close>

text \<open>\<^verbatim>\<open>Waiting\<close>: suspended with a buffer reference and the receiving half of a result channel.\<close>

datatype ('r, 'b) async = Waiting buf_id tx_id | Done 'r 'b

text \<open>The result of \<^verbatim>\<open>recv_async\<close>: \<^const>\<open>None\<close> when the sender was dropped.\<close>

type_synonym 'r received = "'r option"

definition drop_ref :: "buf_id \<Rightarrow> ('c, 'e, 'b, 'z) shared_scheme \<Rightarrow> ('c, 'e, 'b, 'z) shared_scheme" where
  "drop_ref b s = s\<lparr>sh_bufs := arc_drop b (sh_bufs s)\<rparr>"

text \<open>\<^verbatim>\<open>Arc::new(SharedBuf::new(buf))\<close> and \<^verbatim>\<open>buf.clone()\<close>: the second reference goes into the event.\<close>

definition share_buf :: "buf_id \<Rightarrow> 'b \<Rightarrow> ('c, 'e, 'b, 'z) shared_scheme \<Rightarrow> ('c, 'e, 'b, 'z) shared_scheme" where
  "share_buf b buf s = s\<lparr>sh_bufs := arc_clone b (arc_new b (sb_new buf) (sh_bufs s))\<rparr>"

text \<open>
  What the four transfer operations have in common, up to the type of buffer and the texts. When
  the event comes back from the failed send, the own reference is dropped, then the event's one is
  cast; its sender is dropped with the rest of the event.
\<close>

definition take_back ::
  "(buf_id \<Rightarrow> 'b shared_buf arcs \<Rightarrow> ('b \<times> 'b shared_buf arcs) outcome) \<Rightarrow> string \<Rightarrow> buf_id \<Rightarrow> buf_id \<Rightarrow> tx_id
   \<Rightarrow> ('c, 'e, 'b, 'z) shared_scheme
   \<Rightarrow> (('r io_result, 'b) async \<times> ('c, 'e, 'b, 'z) shared_scheme) outcome" where
  "take_back cast msg b buffer t s =
     (let s1 = drop_ref b s
      in obind (cast buffer (sh_bufs s1)) (\<lambda>(buf, bufs).
         Inr (Done (Inl (Error_new BrokenPipe msg)) buf, drop_tx t (s1\<lparr>sh_bufs := bufs\<rparr>))))"

definition finish_with ::
  "(buf_id \<Rightarrow> 'b shared_buf arcs \<Rightarrow> ('b \<times> 'b shared_buf arcs) outcome) \<Rightarrow> string \<Rightarrow> buf_id
   \<Rightarrow> 'r io_result received \<Rightarrow> ('c, 'e, 'b, 'z) shared_scheme
   \<Rightarrow> ('r io_result \<times> 'b \<times> ('c, 'e, 'b, 'z) shared_scheme) outcome" where
  "finish_with cast msg b recv s =
     (case recv of
        None \<Rightarrow> obind (cast b (sh_bufs s)) (\<lambda>(buf, bufs).
          Inr (Inl (Error_new BrokenPipe msg), buf, s\<lparr>sh_bufs := bufs\<rparr>))
      | Some res \<Rightarrow> obind (cast b (sh_bufs s)) (\<lambda>(buf, bufs). Inr (res, buf, s\<lparr>sh_bufs := bufs\<rparr>)))"

section \<open>TcpStream\<close>

record tcp_stream =
  ts_local_addr :: socket_addr
  ts_remote_addr :: socket_addr
  ts_handle :: socket_handle

definition local_addr :: "tcp_stream \<Rightarrow> socket_addr" where
  "local_addr st = ts_local_addr st"

definition peer_addr :: "tcp_stream \<Rightarrow> socket_addr" where
  "peer_addr st = ts_remote_addr st"

definition read_start ::
  "('c, 'e, 'l, 'b, 'y) shared_deps_scheme \<Rightarrow> tcp_stream \<Rightarrow> 'b \<Rightarrow> buf_id \<Rightarrow> tx_id \<Rightarrow> ('c, 'e, 'b, 'z) shared_scheme
   \<Rightarrow> ((nat io_result, 'b) async \<times> ('c, 'e, 'b, 'z) shared_scheme) outcome" where
  "read_start D st buf b t s =
     (case send_event D (Read (ts_handle st) b t) (share_buf b buf s) of
        (Sent, s1) \<Rightarrow> Inr (Waiting b t, s1)
      | (SendError event, s1) \<Rightarrow>
          (case event of
             Read _ buffer tx \<Rightarrow> take_back cast_dyn_io_buf_mut
               ''TcpStack or EventGenerator may be dropped, send read operation event failed'' b buffer tx s1
           | _ \<Rightarrow> Inl Panic_unreachable))"

definition read_finish ::
  "buf_id \<Rightarrow> nat io_result received \<Rightarrow> ('c, 'e, 'b, 'z) shared_scheme
   \<Rightarrow> (nat io_result \<times> 'b \<times> ('c, 'e, 'b, 'z) shared_scheme) outcome" where
  "read_finish = finish_with cast_dyn_io_buf_mut
     ''TcpStack or EventGenerator may be dropped, receive read operation response failed''"

definition write_start ::
  "('c, 'e, 'l, 'b, 'y) shared_deps_scheme \<Rightarrow> tcp_stream \<Rightarrow> 'b \<Rightarrow> buf_id \<Rightarrow> tx_id \<Rightarrow> ('c, 'e, 'b, 'z) shared_scheme
   \<Rightarrow> ((nat io_result, 'b) async \<times> ('c, 'e, 'b, 'z) shared_scheme) outcome" where
  "write_start D st buf b t s =
     (case send_event D (Write (ts_handle st) b t) (share_buf b buf s) of
        (Sent, s1) \<Rightarrow> Inr (Waiting b t, s1)
      | (SendError event, s1) \<Rightarrow>
          (case event of
             Write _ buffer tx \<Rightarrow> take_back cast_dyn_io_buf
               ''TcpStack or EventGenerator may be dropped, send write operation event failed'' b buffer tx s1
           | _ \<Rightarrow> Inl Panic_unreachable))"

definition write_finish ::
  "buf_id \<Rightarrow> nat io_result received \<Rightarrow> ('c, 'e, 'b, 'z) shared_scheme
   \<Rightarrow> (nat io_result \<times> 'b \<times> ('c, 'e, 'b, 'z) shared_scheme) outcome" where
  "write_finish = finish_with cast_dyn_io_buf
     ''TcpStack or EventGenerator may be dropped, receive write operation response failed''"

text \<open>\<^verbatim>\<open>shutdown\<close> shares no buffer; \<^const>\<open>None\<close> is the suspension at \<^verbatim>\<open>recv_async\<close>.\<close>

definition shutdown_start ::
  "('c, 'e, 'l, 'b, 'y) shared_deps_scheme \<Rightarrow> tcp_stream \<Rightarrow> tx_id \<Rightarrow> ('c, 'e, 'b, 'z) shared_scheme
   \<Rightarrow> (unit io_result option \<times> ('c, 'e, 'b, 'z) shared_scheme) outcome" where
  "shutdown_start D st t s =
     (case send_event D (Shutdown (Typed_Tcp (ts_handle st)) t) s of
        (Sent, s1) \<Rightarrow> Inr (None, s1)
      | (SendError event, s1) \<Rightarrow>
          (case event of
             Shutdown _ tx \<Rightarrow> Inr (Some (Inl (Error_new BrokenPipe
               ''TcpStack or EventGenerator may be dropped, send shutdown operation event failed'')), drop_tx tx s1)
           | _ \<Rightarrow> Inl Panic_unreachable))"

definition shutdown_finish :: "unit io_result received \<Rightarrow> unit io_result" where
  "shutdown_finish recv =
     (case recv of
        None \<Rightarrow> Inl (Error_new BrokenPipe
          ''TcpStack or EventGenerator may be dropped, receive shutdown operation response failed'')
      | Some res \<Rightarrow> res)"

definition tcp_stream_drop ::
  "('c, 'e, 'l, 'b, 'y) shared_deps_scheme \<Rightarrow> tcp_stream \<Rightarrow> ('c, 'e, 'b, 'z) shared_scheme \<Rightarrow> ('c, 'e, 'b, 'z) shared_scheme" where
  "tcp_stream_drop D st s = snd (send_event D (Close (Typed_Tcp (ts_handle st))) s)"

section \<open>UdpSocket\<close>

record udp_socket =
  us_remote_addr :: socket_addr
  us_handle :: socket_handle

definition udp_peer_addr :: "udp_socket \<Rightarrow> socket_addr" where
  "udp_peer_addr us = us_remote_addr us"

definition recv_start ::
  "('c, 'e, 'l, 'b, 'y) shared_deps_scheme \<Rightarrow> udp_socket \<Rightarrow> 'b \<Rightarrow> buf_id \<Rightarrow> tx_id \<Rightarrow> ('c, 'e, 'b, 'z) shared_scheme
   \<Rightarrow> (((nat \<times> socket_addr) io_result, 'b) async \<times> ('c, 'e, 'b, 'z) shared_scheme) outcome" where
  "recv_start D us buf b t s =
     (case send_event D (Recv (us_handle us) b t) (share_buf b buf s) of
        (Sent, s1) \<Rightarrow> Inr (Waiting b t, s1)
      | (SendError event, s1) \<Rightarrow>
          (case event of
             Recv _ buffer tx \<Rightarrow> take_back cast_dyn_io_buf_mut
               ''TcpStack or EventGenerator may be dropped, send read operation event failed'' b buffer tx s1
           | _ \<Rightarrow> Inl Panic_unreachable))"

definition recv_finish ::
  "buf_id \<Rightarrow> (nat \<times> socket_addr) io_result received \<Rightarrow> ('c, 'e, 'b, 'z) shared_scheme
   \<Rightarrow> ((nat \<times> socket_addr) io_result \<times> 'b \<times> ('c, 'e, 'b, 'z) shared_scheme) outcome" where
  "recv_finish = finish_with cast_dyn_io_buf_mut
     ''TcpStack or EventGenerator may be dropped, receive read operation response failed''"

definition send_start ::
  "('c, 'e, 'l, 'b, 'y) shared_deps_scheme \<Rightarrow> udp_socket \<Rightarrow> 'b \<Rightarrow> socket_addr \<Rightarrow> buf_id \<Rightarrow> tx_id
   \<Rightarrow> ('c, 'e, 'b, 'z) shared_scheme \<Rightarrow> ((nat io_result, 'b) async \<times> ('c, 'e, 'b, 'z) shared_scheme) outcome" where
  "send_start D us buf addr b t s =
     (case send_event D (Send (us_handle us) addr b t) (share_buf b buf s) of
        (Sent, s1) \<Rightarrow> Inr (Waiting b t, s1)
      | (SendError event, s1) \<Rightarrow>
          (case event of
             Send _ _ buffer tx \<Rightarrow> take_back cast_dyn_io_buf
               ''TcpStack or EventGenerator may be dropped, send write operation event failed'' b buffer tx s1
           | _ \<Rightarrow> Inl Panic_unreachable))"

definition send_finish ::
  "buf_id \<Rightarrow> nat io_result received \<Rightarrow> ('c, 'e, 'b, 'z) shared_scheme
   \<Rightarrow> (nat io_result \<times> 'b \<times> ('c, 'e, 'b, 'z) shared_scheme) outcome" where
  "send_finish = finish_with cast_dyn_io_buf
     ''TcpStack or EventGenerator may be dropped, receive write operation response failed''"

definition udp_socket_drop ::
  "('c, 'e, 'l, 'b, 'y) shared_deps_scheme \<Rightarrow> udp_socket \<Rightarrow> ('c, 'e, 'b, 'z) shared_scheme \<Rightarrow> ('c, 'e, 'b, 'z) shared_scheme" where
  "udp_socket_drop D us s = snd (send_event D (Close (Typed_Udp (us_handle us))) s)"

section \<open>Acceptors\<close>

text \<open>
  \<^verbatim>\<open>poll_next\<close>. The stream ends when the stack, the only sender, is gone and everything sent has been
  taken.
\<close>

definition tcp_poll_next ::
  "acceptor \<Rightarrow> bool \<Rightarrow> ('c, 'e, 'b, 'ss, 'if, 'cap) tcp_stack \<Rightarrow> tcp_stream io_result option poll \<times> acceptor" where
  "tcp_poll_next ac stack_alive s =
     (if ac_taken ac < length (st_tcp_stream_tx s) then
        (case st_tcp_stream_tx s ! ac_taken ac of
           Inl err \<Rightarrow> (Poll_ready (Some (Inl err)), \<lparr>ac_taken = Suc (ac_taken ac)\<rparr>)
         | Inr info \<Rightarrow>
             (Poll_ready (Some (Inr \<lparr>ts_local_addr = ti_local_addr info, ts_remote_addr = ti_remote_addr info,
                                      ts_handle = ti_handle info\<rparr>)),
              \<lparr>ac_taken = Suc (ac_taken ac)\<rparr>))
      else if stack_alive then (Pending, ac) else (Poll_ready None, ac))"

definition udp_poll_next ::
  "acceptor \<Rightarrow> bool \<Rightarrow> ('c, 'e, 'b, 'ss, 'if, 'cap) tcp_stack \<Rightarrow> udp_socket io_result option poll \<times> acceptor" where
  "udp_poll_next ac stack_alive s =
     (if ac_taken ac < length (st_udp_stream_tx s) then
        (case st_udp_stream_tx s ! ac_taken ac of
           Inl err \<Rightarrow> (Poll_ready (Some (Inl err)), \<lparr>ac_taken = Suc (ac_taken ac)\<rparr>)
         | Inr info \<Rightarrow>
             (Poll_ready (Some (Inr \<lparr>us_remote_addr = ui_remote_addr info, us_handle = ui_handle info\<rparr>)),
              \<lparr>ac_taken = Suc (ac_taken ac)\<rparr>))
      else if stack_alive then (Pending, ac) else (Poll_ready None, ac))"

section \<open>Whole buffers\<close>

text \<open>
  \<^verbatim>\<open>write_all\<close> and \<^verbatim>\<open>read_exact\<close>: loops around an awaited \<^verbatim>\<open>write\<close> or \<^verbatim>\<open>read\<close> of a slice of the buffer. What
  an awaited call does depends on the stack, the peer and the schedule, so it is a function argument
  over a world \<open>'w\<close>. Slices are compio's.
\<close>

record ('b, 'sl) slice_crate =
  sl_slice :: "'b \<Rightarrow> nat \<Rightarrow> 'sl"            \<comment> \<open>\<^verbatim>\<open>buf.slice(n..)\<close>\<close>
  sl_into_inner :: "'sl \<Rightarrow> 'b"
  sl_buf_len :: "'b \<Rightarrow> nat"
  sl_buf_capacity :: "'b \<Rightarrow> nat"

function write_all_loop ::
  "('b, 'sl) slice_crate \<Rightarrow> ('sl \<Rightarrow> 'w \<Rightarrow> (nat io_result \<times> 'sl) \<times> 'w) \<Rightarrow> nat \<Rightarrow> nat \<Rightarrow> 'b \<Rightarrow> 'w
   \<Rightarrow> (unit io_result \<times> 'b) \<times> 'w" where
  "write_all_loop S write written len buf w =
     (if written < len then
        (case write (sl_slice S buf written) w of
           ((Inl err, sl), w') \<Rightarrow> ((Inl err, sl_into_inner S sl), w')
         | ((Inr n, sl), w') \<Rightarrow>
             if n = 0 then ((Inl (Error_new WriteZero ''failed to write whole buffer''), sl_into_inner S sl), w')
             else write_all_loop S write (written + n) len (sl_into_inner S sl) w')
      else ((Inr (), buf), w))"
  by pat_completeness auto
termination
  by (relation "measure (\<lambda>(S, write, written, len, buf, w). len - written)") auto

definition write_all ::
  "('b, 'sl) slice_crate \<Rightarrow> ('sl \<Rightarrow> 'w \<Rightarrow> (nat io_result \<times> 'sl) \<times> 'w) \<Rightarrow> 'b \<Rightarrow> 'w \<Rightarrow> (unit io_result \<times> 'b) \<times> 'w" where
  "write_all S write buf w = write_all_loop S write 0 (sl_buf_len S buf) buf w"

function read_exact_loop ::
  "('b, 'sl) slice_crate \<Rightarrow> ('sl \<Rightarrow> 'w \<Rightarrow> (nat io_result \<times> 'sl) \<times> 'w) \<Rightarrow> nat \<Rightarrow> nat \<Rightarrow> 'b \<Rightarrow> 'w
   \<Rightarrow> (unit io_result \<times> 'b) \<times> 'w" where
  "read_exact_loop S read_some nread len buf w =
     (if nread < len then
        (case read_some (sl_slice S buf nread) w of
           ((Inl err, sl), w') \<Rightarrow> ((Inl err, sl_into_inner S sl), w')
         | ((Inr n, sl), w') \<Rightarrow>
             if n = 0 then ((Inl (Error_new UnexpectedEof ''failed to fill whole buffer''), sl_into_inner S sl), w')
             else read_exact_loop S read_some (nread + n) len (sl_into_inner S sl) w')
      else ((Inr (), buf), w))"
  by pat_completeness auto
termination
  by (relation "measure (\<lambda>(S, read_some, nread, len, buf, w). len - nread)") auto

definition read_exact ::
  "('b, 'sl) slice_crate \<Rightarrow> ('sl \<Rightarrow> 'w \<Rightarrow> (nat io_result \<times> 'sl) \<times> 'w) \<Rightarrow> 'b \<Rightarrow> 'w \<Rightarrow> (unit io_result \<times> 'b) \<times> 'w" where
  "read_exact S read_some buf w = read_exact_loop S read_some 0 (sl_buf_capacity S buf) buf w"

declare write_all_loop.simps [simp del] read_exact_loop.simps [simp del]

section \<open>What the loops achieve\<close>

text \<open>
  What an awaited \<^verbatim>\<open>write\<close> promises: the buffer comes back unchanged, a success accepts at most the
  bytes of the slice, and they are appended to what was sent, an error sends nothing.
\<close>

definition sink_ok ::
  "('b, 'sl) slice_crate \<Rightarrow> ('sl \<Rightarrow> 'w \<Rightarrow> (nat io_result \<times> 'sl) \<times> 'w) \<Rightarrow> ('b \<Rightarrow> bytes) \<Rightarrow> ('w \<Rightarrow> bytes) \<Rightarrow> bool" where
  "sink_ok S write data sent \<longleftrightarrow>
     (\<forall>buf k w r sl w'. k < sl_buf_len S buf \<longrightarrow> write (sl_slice S buf k) w = ((r, sl), w') \<longrightarrow>
        sl_into_inner S sl = buf \<and>
        (case r of Inl _ \<Rightarrow> sent w' = sent w
         | Inr n \<Rightarrow> n \<le> length (data buf) - k \<and> sent w' = sent w @ take n (drop k (data buf)))) \<and>
     (\<forall>buf. sl_buf_len S buf = length (data buf))"

lemma sink_okD:
  assumes "sink_ok S write data sent" "k < length (data buf)" "write (sl_slice S buf k) w = ((r, sl), w')"
  shows "sl_into_inner S sl = buf"
    "r = Inl e \<Longrightarrow> sent w' = sent w"
    "r = Inr n \<Longrightarrow> n \<le> length (data buf) - k \<and> sent w' = sent w @ take n (drop k (data buf))"
proof -
  have "k < sl_buf_len S buf" using assms(1,2) by (simp add: sink_ok_def)
  then have "sl_into_inner S sl = buf \<and> (case r of Inl _ \<Rightarrow> sent w' = sent w
      | Inr n \<Rightarrow> n \<le> length (data buf) - k \<and> sent w' = sent w @ take n (drop k (data buf)))"
    using assms(1,3) unfolding sink_ok_def by blast
  then show "sl_into_inner S sl = buf" "r = Inl e \<Longrightarrow> sent w' = sent w"
    "r = Inr n \<Longrightarrow> n \<le> length (data buf) - k \<and> sent w' = sent w @ take n (drop k (data buf))" by auto
qed

lemma take_add_drop: "take k xs @ take n (drop k xs) = take (k + n) xs"
  by (simp add: take_add)

lemma write_all_loop_sends:
  assumes "sink_ok S write data sent" "written \<le> length (data buf)" "sent w = sent0 @ take written (data buf)"
    and "write_all_loop S write written (length (data buf)) buf w = ((r, buf'), w')"
  shows "buf' = buf \<and> (\<exists>m \<le> length (data buf). sent w' = sent0 @ take m (data buf) \<and> (isl r \<longleftrightarrow> m < length (data buf)))"
  using assms(2-4)
proof (induction "length (data buf) - written" arbitrary: written w rule: less_induct)
  case less
  show ?case
  proof (cases "written < length (data buf)")
    case True
    obtain r1 sl w1 where c: "write (sl_slice S buf written) w = ((r1, sl), w1)" by (metis surj_pair)
    note ok = sink_okD[OF assms(1) True c]
    show ?thesis
    proof (cases r1)
      case (Inl e)
      with less.prems(2,3) c True ok show ?thesis
        by (auto simp: write_all_loop.simps[of S "write" written] intro!: exI[of _ written])
    next
      case (Inr n)
      then have n: "n \<le> length (data buf) - written" "sent w1 = sent w @ take n (drop written (data buf))"
        using ok(3) by simp_all
      show ?thesis
      proof (cases "n = 0")
        case True
        with less.prems(2,3) c \<open>written < length (data buf)\<close> ok(1) Inr n(2) show ?thesis
          by (auto simp: write_all_loop.simps[of S "write" written] intro!: exI[of _ written])
      next
        case False
        with less.prems(3) c \<open>written < length (data buf)\<close> ok(1) Inr
        have "write_all_loop S write (written + n) (length (data buf)) buf w1 = ((r, buf'), w')"
          by (simp add: write_all_loop.simps[of S "write" written])
        moreover have "sent w1 = sent0 @ take (written + n) (data buf)"
          using n(2) less.prems(2) by (simp add: take_add_drop)
        ultimately show ?thesis
          using less.hyps[of "written + n" w1] False True n(1) by simp
      qed
    qed
  next
    case False
    with less.prems(3) have "((r, buf'), w') = ((Inr (), buf), w)" by (simp add: write_all_loop.simps[of S "write" written])
    with less.prems(1,2) False show ?thesis by auto
  qed
qed

text \<open>
  \<^verbatim>\<open>write_all\<close> always ends. When every awaited \<^verbatim>\<open>write\<close> keeps its promise, it hands the
  buffer back unchanged, what it sent is a prefix of the buffer with nothing skipped or sent twice,
  and it reports success exactly when it sent the whole buffer; the running total never exceeds the
  length of the buffer, so the addition cannot overflow.
\<close>
theorem write_all_complete:
  assumes "sink_ok S write data sent" "write_all S write buf w = ((r, buf'), w')"
  shows "buf' = buf \<and> (\<exists>m \<le> length (data buf). sent w' = sent w @ take m (data buf) \<and> (isl r \<longleftrightarrow> m < length (data buf)))"
  using write_all_loop_sends[OF assms(1), of 0 buf w "sent w" r buf' w'] assms(2) assms(1)
  by (simp add: write_all_def sink_ok_def)

text \<open>A sink that accepts at most two bytes at a time.\<close>

definition two_bytes :: "bytes \<times> nat \<Rightarrow> bytes \<Rightarrow> (nat io_result \<times> bytes \<times> nat) \<times> bytes" where
  "two_bytes sl w = ((Inr (min 2 (length (fst sl) - snd sl)), sl), w @ take 2 (drop (snd sl) (fst sl)))"

definition pair_slices :: "(bytes, bytes \<times> nat) slice_crate" where
  "pair_slices = \<lparr>sl_slice = (\<lambda>b n. (b, n)), sl_into_inner = fst, sl_buf_len = length, sl_buf_capacity = length\<rparr>"

lemma two_bytes_ok: "sink_ok pair_slices two_bytes (\<lambda>b. b) (\<lambda>w. w)"
  by (auto simp: sink_ok_def pair_slices_def two_bytes_def min_def)

lemma two_bytes_run: "write_all pair_slices two_bytes [1, 2, 3] [] = ((Inr (), [1, 2, 3]), [1, 2, 3])"
  by (simp add: write_all_def write_all_loop.simps pair_slices_def two_bytes_def)

theorem write_all_complete_witness:
  "write_all pair_slices two_bytes [1, 2, 3] [] = ((Inr (), [1, 2, 3]), [1, 2, 3]) \<and>
   (\<exists>m\<le>3. ([1, 2, 3] :: bytes) = take m [1, 2, 3] \<and> \<not> m < 3)"
  using write_all_complete[OF two_bytes_ok two_bytes_run] two_bytes_run by (simp add: eval_nat_numeral)

text \<open>
  What an awaited \<^verbatim>\<open>read\<close> promises: a success takes at most as many bytes from the input as the slice has
  room for and puts them at the start of the slice; the rest of the memory is untouched. An error takes
  nothing from the input and touches only the memory of the slice.
\<close>

definition source_ok ::
  "('b, 'sl) slice_crate \<Rightarrow> ('sl \<Rightarrow> 'w \<Rightarrow> (nat io_result \<times> 'sl) \<times> 'w) \<Rightarrow> ('b \<Rightarrow> bytes) \<Rightarrow> ('w \<Rightarrow> bytes) \<Rightarrow> bool" where
  "source_ok S read_some mem input \<longleftrightarrow>
     (\<forall>buf k w r sl w'. k < length (mem buf) \<longrightarrow> read_some (sl_slice S buf k) w = ((r, sl), w') \<longrightarrow>
        length (mem (sl_into_inner S sl)) = length (mem buf) \<and>
        (case r of
           Inl _ \<Rightarrow> input w' = input w \<and> take k (mem (sl_into_inner S sl)) = take k (mem buf)
         | Inr n \<Rightarrow> n \<le> length (mem buf) - k \<and> n \<le> length (input w) \<and> input w' = drop n (input w) \<and>
             mem (sl_into_inner S sl) = take k (mem buf) @ take n (input w) @ drop (k + n) (mem buf))) \<and>
     (\<forall>buf. sl_buf_capacity S buf = length (mem buf))"

lemma source_okD:
  assumes "source_ok S read_some mem input" "k < length (mem buf)" "read_some (sl_slice S buf k) w = ((r, sl), w')"
  shows "length (mem (sl_into_inner S sl)) = length (mem buf)"
    "r = Inl e \<Longrightarrow> input w' = input w \<and> take k (mem (sl_into_inner S sl)) = take k (mem buf)"
    "r = Inr n \<Longrightarrow> n \<le> length (mem buf) - k \<and> n \<le> length (input w) \<and> input w' = drop n (input w) \<and>
       mem (sl_into_inner S sl) = take k (mem buf) @ take n (input w) @ drop (k + n) (mem buf)"
proof -
  have "length (mem (sl_into_inner S sl)) = length (mem buf) \<and> (case r of
       Inl _ \<Rightarrow> input w' = input w \<and> take k (mem (sl_into_inner S sl)) = take k (mem buf)
     | Inr n \<Rightarrow> n \<le> length (mem buf) - k \<and> n \<le> length (input w) \<and> input w' = drop n (input w) \<and>
         mem (sl_into_inner S sl) = take k (mem buf) @ take n (input w) @ drop (k + n) (mem buf))"
    using assms unfolding source_ok_def by blast
  then show "length (mem (sl_into_inner S sl)) = length (mem buf)"
    "r = Inl e \<Longrightarrow> input w' = input w \<and> take k (mem (sl_into_inner S sl)) = take k (mem buf)"
    "r = Inr n \<Longrightarrow> n \<le> length (mem buf) - k \<and> n \<le> length (input w) \<and> input w' = drop n (input w) \<and>
       mem (sl_into_inner S sl) = take k (mem buf) @ take n (input w) @ drop (k + n) (mem buf)" by auto
qed

lemma read_exact_loop_fills:
  assumes "source_ok S read_some mem input" "k \<le> length (mem buf)" "length (mem buf) = len" "k \<le> length input0"
    and "take k (mem buf) = take k input0" "input w = drop k input0"
    and "read_exact_loop S read_some k len buf w = ((r, buf'), w')"
  shows "length (mem buf') = len \<and> (\<exists>m \<le> len. m \<le> length input0 \<and> input w' = drop m input0 \<and>
    take m (mem buf') = take m input0 \<and> (isl r \<longleftrightarrow> m < len))"
  using assms(2-7)
proof (induction "len - k" arbitrary: k buf w rule: less_induct)
  case less
  show ?case
  proof (cases "k < len")
    case True
    then have k: "k < length (mem buf)" using less.prems(2) by simp
    obtain r1 sl w1 where c: "read_some (sl_slice S buf k) w = ((r1, sl), w1)" by (metis surj_pair)
    note ok = source_okD[OF assms(1) k c]
    show ?thesis
    proof (cases r1)
      case (Inl e)
      then have "((r, buf'), w') = ((Inl e, sl_into_inner S sl), w1)"
        using less.prems(6) c True by (simp add: read_exact_loop.simps[of S read_some k])
      with less.prems True ok(1) ok(2)[OF Inl] show ?thesis by (auto intro!: exI[of _ k])
    next
      case (Inr n)
      note n = ok(3)[OF Inr]
      show ?thesis
      proof (cases "n = 0")
        case zero: True
        then have "isl r \<and> buf' = sl_into_inner S sl \<and> w' = w1"
          using less.prems(6) c True Inr by (auto simp: read_exact_loop.simps[of S read_some k])
        with less.prems True n zero ok(1) show ?thesis by (auto intro!: exI[of _ k])
      next
        case False
        let ?b = "sl_into_inner S sl"
        have loop: "read_exact_loop S read_some (k + n) len ?b w1 = ((r, buf'), w')"
          using less.prems(6) c True Inr False by (simp add: read_exact_loop.simps[of S read_some k])
        have "take (k + n) (mem ?b) = take k (mem buf) @ take n (input w)"
          using n k by (simp add: min_def)
        also have "\<dots> = take (k + n) input0" using less.prems(4,5) by (simp add: take_add)
        finally have filled: "take (k + n) (mem ?b) = take (k + n) input0" .
        have "k + n \<le> length input0" using n less.prems(3,5) by auto
        with loop filled less.prems n ok(1) False True show ?thesis
          using less.hyps[of "k + n" ?b w1] by (simp add: drop_drop add.commute)
      qed
    qed
  next
    case False
    with less.prems(6) have "((r, buf'), w') = ((Inr (), buf), w)" by (simp add: read_exact_loop.simps[of S read_some k])
    with less.prems False show ?thesis by (auto intro!: exI[of _ k])
  qed
qed

text \<open>
  \<^verbatim>\<open>read_exact\<close> always ends. When every awaited \<^verbatim>\<open>read\<close> keeps its promise, the bytes it took
  from the input are at the start of the buffer, in order, none lost; it reports success exactly when
  they fill the buffer, and on an error or the end of the input it reports an error with the bytes
  read so far still in the buffer.
\<close>
theorem read_exact_fills:
  assumes "source_ok S read_some mem input" "read_exact S read_some buf w = ((r, buf'), w')"
  shows "length (mem buf') = length (mem buf) \<and>
    (\<exists>m \<le> length (mem buf). m \<le> length (input w) \<and> input w' = drop m (input w) \<and>
      take m (mem buf') = take m (input w) \<and> (isl r \<longleftrightarrow> m < length (mem buf)))"
  using read_exact_loop_fills[OF assms(1), of 0 buf "length (mem buf)" "input w" w r buf' w'] assms(2) assms(1)
  by (simp add: read_exact_def source_ok_def)

text \<open>A source that delivers at most two bytes at a time.\<close>

definition two_from :: "bytes \<times> nat \<Rightarrow> bytes \<Rightarrow> (nat io_result \<times> bytes \<times> nat) \<times> bytes" where
  "two_from sl w =
     (let (m, k) = sl; n = min (min 2 (length m - k)) (length w)
      in ((Inr n, take k m @ take n w @ drop (k + n) m, k), drop n w))"

lemma two_from_ok: "source_ok pair_slices two_from (\<lambda>b. b) (\<lambda>w. w)"
  by (auto simp: source_ok_def pair_slices_def two_from_def Let_def min_def)

lemma two_from_run: "read_exact pair_slices two_from [0, 0, 0] [5, 6, 7, 8] = ((Inr (), [5, 6, 7]), [8])"
  by (simp add: read_exact_def read_exact_loop.simps pair_slices_def two_from_def Let_def)

theorem read_exact_fills_witness:
  "\<exists>m\<le>3. ([8] :: bytes) = drop m [5, 6, 7, 8] \<and> take m ([5, 6, 7] :: bytes) = take m [5, 6, 7, 8] \<and> \<not> m < 3"
  using read_exact_fills[OF two_from_ok two_from_run] by (auto simp: eval_nat_numeral)

section \<open>How many calls\<close>

text \<open>An awaited call that also counts how often it was made.\<close>

definition counted :: "('sl \<Rightarrow> 'w \<Rightarrow> (nat io_result \<times> 'sl) \<times> 'w) \<Rightarrow> 'sl \<Rightarrow> 'w \<times> nat \<Rightarrow> (nat io_result \<times> 'sl) \<times> 'w \<times> nat" where
  "counted call sl wk = (case call sl (fst wk) of (r, w') \<Rightarrow> (r, (w', Suc (snd wk))))"

lemma counted_apply: "call sl w = (r, w') \<Longrightarrow> counted call sl (w, k) = (r, (w', Suc k))"
  by (simp add: counted_def)

lemma write_all_loop_counts:
  "\<exists>k'. write_all_loop S (counted write) written len buf (w, k) =
      (fst (write_all_loop S write written len buf w), (snd (write_all_loop S write written len buf w), k')) \<and>
    k' \<le> k + (len - written)"
proof (induction S "write" written len buf w arbitrary: k rule: write_all_loop.induct)
  case (1 S "write" written len buf w)
  show ?case
  proof (cases "written < len")
    case True
    obtain r sl w' where c: "write (sl_slice S buf written) w = ((r, sl), w')" by (metis surj_pair)
    show ?thesis
    proof (cases r)
      case (Inr n)
      show ?thesis
      proof (cases "n = 0")
        case False
        from 1[OF True c[symmetric] refl Inr False, of "Suc k"] obtain k' where
          "write_all_loop S (counted write) (written + n) len (sl_into_inner S sl) (w', Suc k) =
             (fst (write_all_loop S write (written + n) len (sl_into_inner S sl) w'),
              (snd (write_all_loop S write (written + n) len (sl_into_inner S sl) w'), k'))"
          "k' \<le> Suc k + (len - (written + n))" by blast
        with True c Inr False show ?thesis
          by (auto simp add: write_all_loop.simps[of S _ written] counted_apply[of "write" "sl_slice S buf written" w, OF c])
      qed (use True c Inr in \<open>simp add: write_all_loop.simps[of S _ written] counted_apply[of "write" "sl_slice S buf written" w, OF c]\<close>)
    qed (use True c in \<open>simp add: write_all_loop.simps[of S _ written] counted_apply[of "write" "sl_slice S buf written" w, OF c]\<close>)
  qed (simp add: write_all_loop.simps[of S _ written])
qed

lemma read_exact_loop_counts:
  "\<exists>k'. read_exact_loop S (counted call) nread len buf (w, k) =
      (fst (read_exact_loop S call nread len buf w), (snd (read_exact_loop S call nread len buf w), k')) \<and>
    k' \<le> k + (len - nread)"
proof (induction S call nread len buf w arbitrary: k rule: read_exact_loop.induct)
  case (1 S call nread len buf w)
  show ?case
  proof (cases "nread < len")
    case True
    obtain r sl w' where c: "call (sl_slice S buf nread) w = ((r, sl), w')" by (metis surj_pair)
    show ?thesis
    proof (cases r)
      case (Inr n)
      show ?thesis
      proof (cases "n = 0")
        case False
        from 1[OF True c[symmetric] refl Inr False, of "Suc k"] obtain k' where
          "read_exact_loop S (counted call) (nread + n) len (sl_into_inner S sl) (w', Suc k) =
             (fst (read_exact_loop S call (nread + n) len (sl_into_inner S sl) w'),
              (snd (read_exact_loop S call (nread + n) len (sl_into_inner S sl) w'), k'))"
          "k' \<le> Suc k + (len - (nread + n))" by blast
        with True c Inr False show ?thesis
          by (auto simp add: read_exact_loop.simps[of S _ nread] counted_apply[of call "sl_slice S buf nread" w, OF c])
      qed (use True c Inr in \<open>simp add: read_exact_loop.simps[of S _ nread] counted_apply[of call "sl_slice S buf nread" w, OF c]\<close>)
    qed (use True c in \<open>simp add: read_exact_loop.simps[of S _ nread] counted_apply[of call "sl_slice S buf nread" w, OF c]\<close>)
  qed (simp add: read_exact_loop.simps[of S _ nread])
qed

text \<open>
  C34 (termination). The loops of \<^verbatim>\<open>write_all\<close> and \<^verbatim>\<open>read_exact\<close> end whatever the awaited calls answer: they make at
  most as many calls as the buffer has bytes, because a call that makes no progress ends the loop
  with an error. Nothing is assumed of the calls.
\<close>
theorem whole_buffer_calls_bounded:
  "(\<exists>r w' k. write_all S (counted write) buf (w, 0) = (r, (w', k)) \<and> write_all S write buf w = (r, w') \<and>
      k \<le> sl_buf_len S buf) \<and>
   (\<exists>r w' k. read_exact S (counted call) buf (w, 0) = (r, (w', k)) \<and> read_exact S call buf w = (r, w') \<and>
      k \<le> sl_buf_capacity S buf)"
  using write_all_loop_counts[of S "write" 0 "sl_buf_len S buf" buf w 0]
    read_exact_loop_counts[of S call 0 "sl_buf_capacity S buf" buf w 0]
  by (fastforce simp: write_all_def read_exact_def)

end
