(* ===== verification/System.thy ===== *)
theory System
  imports Streams
begin

text \<open>
  The program as a whole: a user who holds streams and sockets and starts, awaits or cancels
  operations on them, the event generator, and the host that drives the stack. A state machine
  composes the definitions of the components; every order of the steps is allowed. The reachable
  states satisfy an invariant that makes the \<^verbatim>\<open>unsafe\<close> casts and the \<^verbatim>\<open>expect\<close> calls behind them sound.
\<close>

section \<open>Operations under way\<close>

datatype op =
    Op_read tcp_stream
  | Op_write tcp_stream
  | Op_recv udp_socket
  | Op_send udp_socket socket_addr

record future =
  fu_op :: op
  fu_buf :: buf_id
  fu_tx :: tx_id

text \<open>Starting an operation: \<^const>\<open>True\<close> when it is suspended, \<^const>\<open>False\<close> when it returned an error at once.\<close>

definition waiting :: "(('r, 'b) async \<times> 's) outcome \<Rightarrow> (bool \<times> 's) outcome" where
  "waiting r = obind r (\<lambda>(a, s). Inr (case a of Waiting _ _ \<Rightarrow> True | Done _ _ \<Rightarrow> False, s))"

fun op_start ::
  "('c, 'e, 'l, 'b, 'y) shared_deps_scheme \<Rightarrow> op \<Rightarrow> 'b \<Rightarrow> buf_id \<Rightarrow> tx_id \<Rightarrow> ('c, 'e, 'b, 'z) shared_scheme
   \<Rightarrow> (bool \<times> ('c, 'e, 'b, 'z) shared_scheme) outcome" where
  "op_start D (Op_read st) buf b t s = waiting (read_start D st buf b t s)"
| "op_start D (Op_write st) buf b t s = waiting (write_start D st buf b t s)"
| "op_start D (Op_recv us) buf b t s = waiting (recv_start D us buf b t s)"
| "op_start D (Op_send us a) buf b t s = waiting (send_start D us buf a b t s)"

text \<open>
  Resuming an operation with what its result channel holds: a reply of its type, or nothing any more. The caller gets the
  result of the operation and the buffer.
\<close>

datatype returned = Got_usize "nat io_result" | Got_from "(nat \<times> socket_addr) io_result"

definition resumed :: "('r \<Rightarrow> returned) \<Rightarrow> ('r \<times> 'b \<times> 's) outcome \<Rightarrow> (returned \<times> 'b \<times> 's) outcome" where
  "resumed result r = obind r (\<lambda>(res, buf, s). Inr (result res, buf, s))"

fun op_finish ::
  "op \<Rightarrow> buf_id \<Rightarrow> reply option \<Rightarrow> ('c, 'e, 'b, 'z) shared_scheme
   \<Rightarrow> (returned \<times> 'b \<times> ('c, 'e, 'b, 'z) shared_scheme) outcome option" where
  "op_finish (Op_read _) b (Some (Reply_usize r)) s = Some (resumed Got_usize (read_finish b (Some r) s))"
| "op_finish (Op_write _) b (Some (Reply_usize r)) s = Some (resumed Got_usize (write_finish b (Some r) s))"
| "op_finish (Op_recv _) b (Some (Reply_from r)) s = Some (resumed Got_from (recv_finish b (Some r) s))"
| "op_finish (Op_send _ _) b (Some (Reply_usize r)) s = Some (resumed Got_usize (send_finish b (Some r) s))"
| "op_finish (Op_read _) b None s = Some (resumed Got_usize (read_finish b None s))"
| "op_finish (Op_write _) b None s = Some (resumed Got_usize (write_finish b None s))"
| "op_finish (Op_recv _) b None s = Some (resumed Got_from (recv_finish b None s))"
| "op_finish (Op_send _ _) b None s = Some (resumed Got_usize (send_finish b None s))"
| "op_finish _ _ _ _ = None"

text \<open>How often a result channel was answered or hung up.\<close>

fun resolves :: "tx_id \<Rightarrow> action \<Rightarrow> bool" where
  "resolves t (Replied t' r) \<longleftrightarrow> t' = t"
| "resolves t (Hung_up t') \<longleftrightarrow> t' = t"
| "resolves t (Dropped_buf b) \<longleftrightarrow> False"

definition resolved :: "action list \<Rightarrow> tx_id \<Rightarrow> nat" where
  "resolved tr t = length (filter (resolves t) tr)"

definition tx_count :: "request multiset \<Rightarrow> tx_id \<Rightarrow> nat" where
  "tx_count M t = size (filter_mset (\<lambda>p. fst p = t) M)"

lemma resolved_simps [simp]:
  "resolved [] t = 0" "resolved (tr @ tr') t = resolved tr t + resolved tr' t"
  "resolved (a # tr) t = (if resolves t a then Suc (resolved tr t) else resolved tr t)"
  by (simp_all add: resolved_def)

lemma tx_count_simps [simp]:
  "tx_count {#} t = 0" "tx_count (M + N) t = tx_count M t + tx_count N t"
  "tx_count (add_mset p M) t = (if fst p = t then Suc (tx_count M t) else tx_count M t)"
  by (simp_all add: tx_count_def)

text \<open>Requests that leave resolve their channel exactly once.\<close>

lemma block_trace_resolved: "block_trace tr M \<Longrightarrow> resolved tr t = tx_count M t"
  by (induction rule: block_trace.induct) auto

section \<open>The state machine\<close>

text \<open>
  \<open>sy_batches\<close> are the batches that the generator has handed out and the host has not passed on yet.
  \<open>sy_alive\<close> and \<open>sy_listening\<close>: the stack and the generator have not been dropped; \<open>sy_accepts_tcp\<close> and
  \<open>sy_accepts_udp\<close>: the acceptors have not. \<open>sy_closed\<close> and
  \<open>sy_issued\<close> are auxiliary: the handles whose owner was dropped, and the result channels created
  so far.
\<close>

record ('c, 'e, 'l, 'b, 'ss, 'if, 'cap) sys =
  sy_stack :: "('c, 'e, 'b, 'ss, 'if, 'cap) tcp_stack"
  sy_generator :: "'l wait_pc"
  sy_batches :: "events list"
  sy_futures :: "future list"
  sy_tcp :: "tcp_stream list"
  sy_udp :: "udp_socket list"
  sy_tcp_acceptor :: acceptor
  sy_udp_acceptor :: acceptor
  sy_accepts_tcp :: bool
  sy_accepts_udp :: bool
  sy_alive :: bool
  sy_listening :: bool
  sy_closed :: "typed_socket_handle multiset"
  sy_issued :: "tx_id set"

fun op_known :: "op \<Rightarrow> tcp_stream list \<Rightarrow> udp_socket list \<Rightarrow> bool" where
  "op_known (Op_read st) ts us \<longleftrightarrow> st \<in> set ts"
| "op_known (Op_write st) ts us \<longleftrightarrow> st \<in> set ts"
| "op_known (Op_recv u) ts us \<longleftrightarrow> u \<in> set us"
| "op_known (Op_send u _) ts us \<longleftrightarrow> u \<in> set us"

text \<open>
  A new buffer is at an address that is not in use; a new result channel is new. The host passes on or
  drops the batches in any order. While the stack is alive it holds a sender of the request
  channel, so the generator does not find it disconnected. Shutdowns share no buffer, so their
  suspended half needs no entry among the futures.

  Dropping the stack drops its sockets and with them the wakers they hold, in an order that smoltcp
  chooses. What is left of a dropped stack here, its other fields, keeps its last values and is read by no later step. Dropping the generator drops the requests left in the channel. Dropping an acceptor drops the receiving half of the
  channel on which sockets are announced to it: the stack ignores that its later sends fail, and what they
  would have delivered is lost, as is what was not taken yet.
\<close>

definition generator_drop ::
  "('c, 'e, 'l, 'b, 'y) shared_deps_scheme \<Rightarrow> ('c, 'e, 'b, 'z) shared_scheme \<Rightarrow> ('c, 'e, 'b, 'z) shared_scheme" where
  "generator_drop D s =
     (let (evs, c) = cb_drop_receiver (d_cb D) (nc_chan (sh_ch s))
      in fold drop_event evs (s\<lparr>sh_ch := (sh_ch s)\<lparr>nc_chan := c\<rparr>\<rparr>))"

definition stack_drop ::
  "('c, 'e, 'l, 'b, 'y) shared_deps_scheme \<Rightarrow> waker_id list \<Rightarrow> ('c, 'e, 'b, 'z) shared_scheme
   \<Rightarrow> ('c, 'e, 'b, 'z) shared_scheme outcome" where
  "stack_drop D ws s = do_waker_acts D (map Released ws) s"

inductive user_step ::
  "('c, 'e, 'l, 'b, 'tcp, 'udp, 'ss, 'if, 'cap, 'ck) stack_deps \<Rightarrow> ('c, 'e, 'l, 'b, 'ss, 'if, 'cap) sys
   \<Rightarrow> ('c, 'e, 'l, 'b, 'ss, 'if, 'cap) sys \<Rightarrow> bool" for D where
  start: "\<lbrakk>op_known p (sy_tcp y) (sy_udp y); sh_bufs (sy_stack y) b = None; t \<notin> sy_issued y;
     op_start D p buf b t (sy_stack y) = Inr (w, s')\<rbrakk>
   \<Longrightarrow> user_step D y (y\<lparr>sy_stack := s',
         sy_futures := (if w then \<lparr>fu_op = p, fu_buf = b, fu_tx = t\<rparr> # sy_futures y else sy_futures y),
         sy_issued := insert t (sy_issued y)\<rparr>)"
| start_shutdown: "\<lbrakk>st \<in> set (sy_tcp y); t \<notin> sy_issued y; shutdown_start D st t (sy_stack y) = Inr (w, s')\<rbrakk>
   \<Longrightarrow> user_step D y (y\<lparr>sy_stack := s', sy_issued := insert t (sy_issued y)\<rparr>)"
| complete: "\<lbrakk>sy_futures y = fs @ f # fs';
     r = None \<and> Hung_up (fu_tx f) \<in> set (sh_trace (sy_stack y)) \<or>
     (\<exists>a. r = Some a \<and> Replied (fu_tx f) a \<in> set (sh_trace (sy_stack y)));
     op_finish (fu_op f) (fu_buf f) r (sy_stack y) = Some (Inr (res, buf, s'))\<rbrakk>
   \<Longrightarrow> user_step D y (y\<lparr>sy_stack := s', sy_futures := fs @ fs'\<rparr>)"
| cancel: "sy_futures y = fs @ f # fs'
   \<Longrightarrow> user_step D y (y\<lparr>sy_stack := drop_ref (fu_buf f) (sy_stack y), sy_futures := fs @ fs'\<rparr>)"
| drop_tcp: "sy_tcp y = ts @ st # ts'
   \<Longrightarrow> user_step D y (y\<lparr>sy_stack := tcp_stream_drop D st (sy_stack y), sy_tcp := ts @ ts',
         sy_closed := add_mset (Typed_Tcp (ts_handle st)) (sy_closed y)\<rparr>)"
| drop_udp: "sy_udp y = us @ u # us'
   \<Longrightarrow> user_step D y (y\<lparr>sy_stack := udp_socket_drop D u (sy_stack y), sy_udp := us @ us',
         sy_closed := add_mset (Typed_Udp (us_handle u)) (sy_closed y)\<rparr>)"
| accept_tcp: "\<lbrakk>sy_accepts_tcp y; tcp_poll_next (sy_tcp_acceptor y) (sy_alive y) (sy_stack y) = (Poll_ready (Some (Inr st)), ac)\<rbrakk>
   \<Longrightarrow> user_step D y (y\<lparr>sy_tcp := st # sy_tcp y, sy_tcp_acceptor := ac\<rparr>)"
| accept_udp: "\<lbrakk>sy_accepts_udp y; udp_poll_next (sy_udp_acceptor y) (sy_alive y) (sy_stack y) = (Poll_ready (Some (Inr u)), ac)\<rbrakk>
   \<Longrightarrow> user_step D y (y\<lparr>sy_udp := u # sy_udp y, sy_udp_acceptor := ac\<rparr>)"
| drop_tcp_acceptor: "user_step D y (y\<lparr>sy_accepts_tcp := False\<rparr>)"
| drop_udp_acceptor: "user_step D y (y\<lparr>sy_accepts_udp := False\<rparr>)"

inductive sys_step ::
  "('c, 'e, 'l, 'b, 'tcp, 'udp, 'ss, 'if, 'cap, 'ck) stack_deps \<Rightarrow> ('c, 'e, 'l, 'b, 'ss, 'if, 'cap) sys
   \<Rightarrow> ('c, 'e, 'l, 'b, 'ss, 'if, 'cap) sys \<Rightarrow> bool" for D where
  user: "user_step D y y' \<Longrightarrow> sys_step D y y'"
| generate_pending: "\<lbrakk>sy_listening y;
     generate_poll (d_cb D) (d_ev D) (sy_generator y, sh_ch (sy_stack y)) = Some (Pending, pc, ch)\<rbrakk>
   \<Longrightarrow> sys_step D y (y\<lparr>sy_stack := (sy_stack y)\<lparr>sh_ch := ch\<rparr>, sy_generator := pc\<rparr>)"
| generate_ready: "\<lbrakk>sy_listening y;
     generate_poll (d_cb D) (d_ev D) (sy_generator y, sh_ch (sy_stack y)) = Some (Poll_ready (Inr evs), pc, ch)\<rbrakk>
   \<Longrightarrow> sys_step D y (y\<lparr>sy_stack := (sy_stack y)\<lparr>sh_ch := ch\<rparr>, sy_batches := sy_batches y @ [evs],
         sy_generator := W_top\<rparr>)"
| turn: "\<lbrakk>sy_alive y; sy_batches y = bs @ evs # bs'; drive_once D now packet (Some evs) (sy_stack y) = Inr (r, s')\<rbrakk>
   \<Longrightarrow> sys_step D y (y\<lparr>sy_stack := s', sy_batches := bs @ bs'\<rparr>)"
| idle_turn: "\<lbrakk>sy_alive y; drive_once D now packet None (sy_stack y) = Inr (r, s')\<rbrakk>
   \<Longrightarrow> sys_step D y (y\<lparr>sy_stack := s'\<rparr>)"
| discard: "sy_batches y = bs @ evs # bs'
   \<Longrightarrow> sys_step D y (y\<lparr>sy_stack := fold drop_event (events_list evs) (sy_stack y), sy_batches := bs @ bs'\<rparr>)"
| drop_stack: "\<lbrakk>sy_alive y; set ws = {..<length (sh_wakers (sy_stack y))}; stack_drop D ws (sy_stack y) = Inr s'\<rbrakk>
   \<Longrightarrow> sys_step D y (y\<lparr>sy_stack := s', sy_alive := False\<rparr>)"
| drop_generator: "sy_listening y
   \<Longrightarrow> sys_step D y (y\<lparr>sy_stack := generator_drop D (sy_stack y), sy_listening := False\<rparr>)"

definition sys_init ::
  "('c, 'e, 'b, 'ss, 'if, 'cap) tcp_stack \<Rightarrow> acceptor \<Rightarrow> acceptor \<Rightarrow> ('c, 'e, 'l, 'b, 'ss, 'if, 'cap) sys" where
  "sys_init s ta ua = \<lparr>sy_stack = s, sy_generator = W_top, sy_batches = [], sy_futures = [], sy_tcp = [], sy_udp = [],
     sy_tcp_acceptor = ta, sy_udp_acceptor = ua, sy_accepts_tcp = True, sy_accepts_udp = True, sy_alive = True, sy_listening = True, sy_closed = {#}, sy_issued = {}\<rparr>"

inductive sys_reach ::
  "('c, 'e, 'l, 'b, 'tcp, 'udp, 'ss, 'if, 'cap, 'ck) stack_deps \<Rightarrow> ('c, 'e, 'l, 'b, 'ss, 'if, 'cap) sys \<Rightarrow> bool" for D where
  sys_start: "build D seed now b = Inr (Inr (s, ta, ua)) \<Longrightarrow> sys_reach D (sys_init s ta ua)"
| sys_next: "\<lbrakk>sys_reach D y; sys_step D y y'\<rbrakk> \<Longrightarrow> sys_reach D y'"

section \<open>The invariant\<close>

definition handed :: "events list \<Rightarrow> operation_event list" where
  "handed bs = concat (map events_list bs)"

lemma handed_simps [simp]:
  "handed [] = []" "handed (b # bs) = events_list b @ handed bs" "handed (bs @ bs') = handed bs @ handed bs'"
  by (simp_all add: handed_def)

definition in_flight ::
  "('c \<Rightarrow> operation_event list) \<Rightarrow> ('c, 'e, 'l, 'b, 'ss, 'if, 'cap) sys \<Rightarrow> request multiset" where
  "in_flight q y = held q (sy_stack y) + events_reqs (handed (sy_batches y))"

definition fut_refs :: "future list \<Rightarrow> buf_id \<Rightarrow> nat" where
  "fut_refs fs b = length (filter (\<lambda>f. fu_buf f = b) fs)"

lemma fut_refs_simps [simp]:
  "fut_refs [] b = 0" "fut_refs (fs @ fs') b = fut_refs fs b + fut_refs fs' b"
  "fut_refs (f # fs) b = (if fu_buf f = b then Suc (fut_refs fs b) else fut_refs fs b)"
  by (simp_all add: fut_refs_def)

text \<open>Every future has its own buffer, and a request with that buffer is the future's request.\<close>

definition futures_ok :: "future list \<Rightarrow> tx_id set \<Rightarrow> request multiset \<Rightarrow> bool" where
  "futures_ok fs I H \<longleftrightarrow> distinct (map fu_buf fs) \<and>
     (\<forall>f\<in>set fs. fu_tx f \<in> I \<and> (\<forall>r. r \<in># H \<longrightarrow> snd r = Some (fu_buf f) \<longrightarrow> fst r = fu_tx f))"

text \<open>Every result channel ever made is in exactly one place: under way, or resolved.\<close>

definition channels_ok :: "tx_id set \<Rightarrow> request multiset \<Rightarrow> action list \<Rightarrow> bool" where
  "channels_ok I H tr \<longleftrightarrow> (\<forall>t. tx_count H t + resolved tr t = (if t \<in> I then 1 else 0))"

text \<open>The streams the user has or had were announced and taken.\<close>

definition announced :: "nat \<Rightarrow> nat \<Rightarrow> ('c, 'e, 'b, 'ss, 'if, 'cap) tcp_stack \<Rightarrow> typed_socket_handle multiset" where
  "announced n m s =
     delivered (s\<lparr>st_tcp_stream_tx := take n (st_tcp_stream_tx s), st_udp_stream_tx := take m (st_udp_stream_tx s)\<rparr>)"

definition owners :: "('c, 'e, 'l, 'b, 'ss, 'if, 'cap) sys \<Rightarrow> typed_socket_handle multiset" where
  "owners y = mset (map (\<lambda>st. Typed_Tcp (ts_handle st)) (sy_tcp y)) + mset (map (\<lambda>u. Typed_Udp (us_handle u)) (sy_udp y))"

definition streams_ok :: "('c, 'e, 'l, 'b, 'ss, 'if, 'cap) sys \<Rightarrow> bool" where
  "streams_ok y \<longleftrightarrow> ac_taken (sy_tcp_acceptor y) \<le> length (st_tcp_stream_tx (sy_stack y)) \<and>
     ac_taken (sy_udp_acceptor y) \<le> length (st_udp_stream_tx (sy_stack y)) \<and>
     owners y + sy_closed y \<subseteq># announced (ac_taken (sy_tcp_acceptor y)) (ac_taken (sy_udp_acceptor y)) (sy_stack y)"

definition sys_inv ::
  "('c, 'e, 'l, 'b, 'tcp, 'udp, 'ss, 'if, 'cap, 'ck) stack_deps \<Rightarrow> ('c \<Rightarrow> operation_event list)
   \<Rightarrow> ('c, 'e, 'l, 'b, 'ss, 'if, 'cap) sys \<Rightarrow> bool" where
  "sys_inv D q y \<longleftrightarrow>
     stack_inv D (sy_stack y) \<and>
     owned (fut_refs (sy_futures y)) q (events_reqs (handed (sy_batches y))) (sy_stack y) \<and>
     token_inv (sy_closed y) q (events_token (handed (sy_batches y))) (sy_stack y) \<and>
     calm q (sy_stack y) \<and> (\<forall>ev\<in>set (handed (sy_batches y)). \<not> udp_shutdown ev) \<and>
     channels_ok (sy_issued y) (in_flight q y) (sh_trace (sy_stack y)) \<and>
     futures_ok (sy_futures y) (sy_issued y) (in_flight q y) \<and> streams_ok y"

lemma futures_ok_less: "futures_ok fs I H \<Longrightarrow> H' \<subseteq># H \<Longrightarrow> futures_ok fs I H'"
  by (auto simp: futures_ok_def dest: mset_subset_eqD)

lemma futures_ok_remove: "futures_ok (fs @ f # fs') I H \<Longrightarrow> futures_ok (fs @ fs') I H"
  by (auto simp: futures_ok_def)

text \<open>A step that accounts for its requests keeps every result channel in one place.\<close>

lemma channels_accounts:
  assumes "accounts q R s R' s'" "channels_ok I (held q s + R) (sh_trace s)"
  shows "channels_ok I (held q s' + R') (sh_trace s')" "held q s' + R' \<subseteq># held q s + R"
proof -
  from assms(1) obtain tr M where tr: "sh_trace s' = sh_trace s @ tr" "block_trace tr M" "held q s' + R' + M = held q s + R"
    unfolding accounts_def by blast
  show "held q s' + R' \<subseteq># held q s + R" using tr(3) by (metis mset_subset_eq_add_left)
  have "tx_count (held q s + R) t = tx_count (held q s' + R') t + tx_count M t" for t
    using tr(3) tx_count_simps(2)[of "held q s' + R'" M t] by simp
  then show "channels_ok I (held q s' + R') (sh_trace s')"
    using assms(2) block_trace_resolved[OF tr(2)] tr(1) by (simp add: channels_ok_def add.assoc add.commute add.left_commute)
qed

section \<open>Starting and finishing operations\<close>

fun op_event :: "op \<Rightarrow> buf_id \<Rightarrow> tx_id \<Rightarrow> operation_event" where
  "op_event (Op_read st) b t = Read (ts_handle st) b t"
| "op_event (Op_write st) b t = Write (ts_handle st) b t"
| "op_event (Op_recv us) b t = Recv (us_handle us) b t"
| "op_event (Op_send us a) b t = Send (us_handle us) a b t"

lemma op_event_facts [simp]:
  "ev_reqs (op_event p b t) = {#(t, Some b)#}" "ev_token (op_event p b t) = {#}" "\<not> udp_shutdown (op_event p b t)"
  by (cases p; simp)+

text \<open>Taking the buffer back from an event that could not be sent restores the store.\<close>

lemma take_back_shared:
  assumes "sh_bufs s b = None" "cast = cast_dyn_io_buf"
  shows "take_back cast msg b b t (share_buf b buf s) = Inr (Done (Inl (Error_new BrokenPipe msg)) buf, drop_tx t s)"
proof -
  have "s\<lparr>sh_bufs := (sh_bufs s)(b := None)\<rparr> = s" using assms(1) by (cases s) (simp add: fun_upd_idem)
  then show ?thesis
    using assms by (simp add: take_back_def drop_ref_def share_buf_def arc_new_def arc_clone_def arc_drop_def
      cast_dyn_io_buf_def arc_into_inner_def sb_into_inner_def sb_new_def)
qed

lemma op_start_eq:
  assumes C: "crossbeam_laws (d_cb D) q tx rx" and b: "sh_bufs s b = None"
  shows "op_start D p buf b t s =
    (case send_event D (op_event p b t) (share_buf b buf s) of
       (Sent, s1) \<Rightarrow> Inr (True, s1) | (SendError _, _) \<Rightarrow> Inr (False, drop_tx t s))"
proof -
  have cast: "cast_dyn_io_buf_mut = (cast_dyn_io_buf :: buf_id \<Rightarrow> 'd shared_buf arcs \<Rightarrow> _)"
    by (intro ext) (rule cast_dyn_io_buf_mut_eq)
  note defs = waiting_def read_start_def write_start_def recv_start_def send_start_def
  show ?thesis
  proof (cases "send_event D (op_event p b t) (share_buf b buf s)")
    case (Pair r s1)
    show ?thesis
    proof (cases r)
      case Sent
      with Pair show ?thesis by (cases p) (simp_all add: defs)
    next
      case (SendError ev)
      with send_event_err[OF C] Pair have "ev = op_event p b t" "s1 = share_buf b buf s" by blast+
      with Pair SendError show ?thesis
        by (cases p) (simp_all add: defs cast take_back_shared[OF b])
    qed
  qed
qed

lemma finish_with_cast:
  assumes "resumed result (finish_with cast msg b r s) = Inr (res, buf, s')" "cast = cast_dyn_io_buf"
  shows "strong_count (sh_bufs s) b = 1 \<and> s' = s\<lparr>sh_bufs := (sh_bufs s)(b := None)\<rparr>"
  using assms
  by (auto simp: resumed_def finish_with_def cast_dyn_io_buf_def arc_into_inner_def strong_count_def
    elim!: obind_InrE split: option.split_asm if_split_asm prod.split_asm)

lemma finish_with_returns:
  assumes "strong_count (sh_bufs s) b = 1" "cast = cast_dyn_io_buf"
  shows "returns (resumed result (finish_with cast msg b r s))"
proof -
  obtain c where "sh_bufs s b = Some c" "arc_strong c = 1"
    using assms(1) by (auto simp: strong_count_def split: option.splits)
  then show ?thesis using assms(2)
    by (auto simp: resumed_def finish_with_def cast_dyn_io_buf_def arc_into_inner_def returns_def split: option.split)
qed

lemma cast_mut: "cast_dyn_io_buf_mut = cast_dyn_io_buf"
  by (intro ext) (rule cast_dyn_io_buf_mut_eq)

lemmas finish_defs = read_finish_def write_finish_def recv_finish_def send_finish_def

lemma op_finish_cast:
  assumes "op_finish p b r s = Some (Inr (res, buf, s'))"
  shows "strong_count (sh_bufs s) b = 1 \<and> s' = s\<lparr>sh_bufs := (sh_bufs s)(b := None)\<rparr>"
  using assms
  by (cases "(p, b, r, s)" rule: op_finish.cases)
    (simp_all add: finish_defs cast_mut, auto dest!: finish_with_cast[OF _ refl])

text \<open>The result is the one that was received; a channel that was hung up is a broken pipe.\<close>

fun gives :: "reply option \<Rightarrow> returned \<Rightarrow> bool" where
  "gives (Some (Reply_usize x)) res \<longleftrightarrow> res = Got_usize x"
| "gives (Some (Reply_from x)) res \<longleftrightarrow> res = Got_from x"
| "gives (Some (Reply_unit _)) res \<longleftrightarrow> False"
| "gives None res \<longleftrightarrow>
     (\<exists>msg. res = Got_usize (Inl (Error_new BrokenPipe msg)) \<or> res = Got_from (Inl (Error_new BrokenPipe msg)))"

lemma finish_with_gives:
  assumes "resumed result (finish_with cast msg b r s) = Inr (res, buf, s')"
  shows "res = result (case r of None \<Rightarrow> Inl (Error_new BrokenPipe msg) | Some x \<Rightarrow> x)"
  using assms by (auto simp: resumed_def finish_with_def elim!: obind_InrE split: option.split_asm)

lemma op_finish_gives:
  assumes "op_finish p b r s = Some (Inr (res, buf, s'))"
  shows "gives r res"
  using assms
  by (cases "(p, b, r, s)" rule: op_finish.cases) (auto simp: finish_defs dest!: finish_with_gives)

lemma op_finish_result:
  assumes "op_finish p b r s = Some (Inr (res, buf, s1))" "op_finish p b r s' = Some (Inr (res', buf', s1'))"
  shows "res' = res"
  using assms
  by (cases "(p, b, r, s)" rule: op_finish.cases) (auto simp: finish_defs dest!: finish_with_gives)

lemma op_finish_returns:
  assumes "strong_count (sh_bufs s) b = 1" "op_finish p b r s = Some x"
  shows "returns x"
  using assms
  by (cases "(p, b, r, s)" rule: op_finish.cases)
    (auto simp: finish_defs cast_mut intro!: finish_with_returns[OF _ refl])

section \<open>Preservation\<close>

lemma sys_invD:
  assumes "sys_inv D q y"
  shows "stack_inv D (sy_stack y)"
    "owned (fut_refs (sy_futures y)) q (events_reqs (handed (sy_batches y))) (sy_stack y)"
    "token_inv (sy_closed y) q (events_token (handed (sy_batches y))) (sy_stack y)"
    "calm q (sy_stack y)" "\<forall>ev\<in>set (handed (sy_batches y)). \<not> udp_shutdown ev"
    "channels_ok (sy_issued y) (held q (sy_stack y) + events_reqs (handed (sy_batches y))) (sh_trace (sy_stack y))"
    "futures_ok (sy_futures y) (sy_issued y) (held q (sy_stack y) + events_reqs (handed (sy_batches y)))" "streams_ok y"
  using assms by (simp_all add: sys_inv_def in_flight_def)

lemma sys_init_inv:
  assumes laws: "deps_laws D q tx rx" and b: "build D seed now b = Inr (Inr (s, ta, ua))"
  shows "sys_inv D q (sys_init s ta ua)"
proof -
  obtain v4 v6 n m k where "stack_new D seed now v4 v6 n m k = Inr (Inr (s, ta, ua))"
    using b by (rule build_okE)
  moreover have "fut_refs [] = (\<lambda>_. 0)" by auto
  ultimately show ?thesis using stack_new_start[OF laws]
    by (simp add: sys_inv_def sys_init_def in_flight_def calm_def channels_ok_def futures_ok_def
      streams_ok_def owners_def announced_def delivered_def)
qed

text \<open>Turns of the event loop.\<close>

lemma drive_once_streams:
  assumes "drive_once D now packet evs s = Inr (r, s')"
  shows "prefix (st_tcp_stream_tx s) (st_tcp_stream_tx s') \<and> prefix (st_udp_stream_tx s) (st_udp_stream_tx s')"
proof -
  have poll: "snd (outer t') = snd (outer t)" if "poll_interface D now t = Inr t'" for t t'
    using that by (auto simp: poll_interface_def outer_def dest!: do_waker_acts_outer[unfolded outer_def] split: prod.splits)
  from assms obtain err s1 where 1: "(case packet of None \<Rightarrow> Inr (None, s) | Some p \<Rightarrow> drive_packet D p s) = Inr (err, s1)"
    and 2: "case err of
        Some e \<Rightarrow> s' = fold drop_event (case evs of None \<Rightarrow> [] | Some evs \<Rightarrow> events_list evs) s1
      | None \<Rightarrow> (\<exists>s2 s3. poll_interface D now s1 = Inr s2 \<and>
          (case evs of None \<Rightarrow> Inr s2 | Some evs \<Rightarrow> drive_events D (events_list evs) s2) = Inr s3 \<and>
          snd (outer s') = snd (outer s3))"
    by (auto simp: drive_once_def Let_def outer_def elim!: obind_InrE split: option.split_asm prod.split_asm)
  have s1: "snd (outer s1) = snd (outer s)"
    using 1 drive_packet_outer[of D _ s err s1] by (auto split: option.splits if_splits)
  show ?thesis
  proof (cases err)
    case (Some e)
    with 2 drop_events_outer[of "case evs of None \<Rightarrow> [] | Some evs \<Rightarrow> events_list evs" s1] s1
    show ?thesis by (auto simp: outer_def)
  next
    case None
    with 2 obtain s2 s3 where "poll_interface D now s1 = Inr s2" and
      3: "(case evs of None \<Rightarrow> Inr s2 | Some evs \<Rightarrow> drive_events D (events_list evs) s2) = Inr s3"
        "snd (outer s') = snd (outer s3)" by auto
    with poll s1 have "snd (outer s2) = snd (outer s)" by simp
    moreover have "grows s2 s3" using 3(1) drive_events_grows[of D _ s2 s3] by (auto simp: grows_def split: option.splits)
    ultimately show ?thesis using 3(2) by (simp add: grows_def outer_def)
  qed
qed

lemma take_prefix: "prefix xs ys \<Longrightarrow> n \<le> length xs \<Longrightarrow> take n ys = take n xs \<and> n \<le> length ys"
  by (auto simp: prefix_def)

lemma streams_ok_prefix:
  assumes "streams_ok y" "prefix (st_tcp_stream_tx (sy_stack y)) (st_tcp_stream_tx s')"
    "prefix (st_udp_stream_tx (sy_stack y)) (st_udp_stream_tx s')"
    "sy_stack y' = s'" "sy_tcp_acceptor y' = sy_tcp_acceptor y" "sy_udp_acceptor y' = sy_udp_acceptor y"
    "owners y' + sy_closed y' = owners y + sy_closed y"
  shows "streams_ok y'"
  using assms take_prefix[OF assms(2)] take_prefix[OF assms(3)]
  by (auto simp: streams_ok_def announced_def delivered_def)

lemma hand_mset:
  assumes "mset es = mset fs"
  shows "events_reqs es = events_reqs fs" "events_token es = events_token fs"
  using assms by (simp_all add: events_reqs_def events_token_def flip: sum_mset_sum_list)

lemma turn_good:
  assumes laws: "deps_laws D q tx rx" and I: "iface_laws B (d_udp D) (d_set D) (d_iface D)"
    and inv: "sys_inv D q y" and r: "drive_once D now packet evs (sy_stack y) = Inr (r, s')"
    and split: "mset (handed (sy_batches y)) = mset (handed bs' @ batch evs)"
  shows "stack_inv D s'" "owned (fut_refs (sy_futures y)) q (events_reqs (handed bs')) s'"
    "token_inv (sy_closed y) q (events_token (handed bs')) s'"
    "accounts q (events_reqs (handed (sy_batches y))) (sy_stack y) (events_reqs (handed bs')) s'"
proof -
  note hand = hand_mset(1)[OF split] hand_mset(2)[OF split] mset_eq_setD[OF split]
  note inv' = sys_invD[OF inv, unfolded hand events_reqs_simps events_token_simps]
  let ?R = "events_reqs (handed bs')" and ?K = "events_token (handed bs')"
  have "good D q (fut_refs (sy_futures y)) (sy_closed y) (?R + events_reqs (batch evs)) (sy_stack y)
      (?R + events_reqs (batch evs)) (?K + events_token (batch evs)) (sy_stack y)"
    using inv'(1-3) by (simp add: good_def)
  from good_drive_once[OF laws I this, of now packet] inv'(5) r
  show "stack_inv D s'" "owned (fut_refs (sy_futures y)) q ?R s'" "token_inv (sy_closed y) q ?K s'"
    "accounts q (events_reqs (handed (sy_batches y))) (sy_stack y) ?R s'"
    by (auto simp: good_def hand)
qed

lemma sys_turn_inv:
  assumes laws: "deps_laws D q tx rx" and I: "iface_laws B (d_udp D) (d_set D) (d_iface D)"
    and inv: "sys_inv D q y" and r: "drive_once D now packet evs (sy_stack y) = Inr (r, s')"
    and split: "mset (handed (sy_batches y)) = mset (handed bs' @ batch evs)"
  shows "sys_inv D q (y\<lparr>sy_stack := s', sy_batches := bs'\<rparr>)"
proof -
  note hand = hand_mset(1)[OF split] hand_mset(2)[OF split] mset_eq_setD[OF split]
  note inv' = sys_invD[OF inv, unfolded hand events_reqs_simps events_token_simps]
  let ?R = "events_reqs (handed bs')" and ?K = "events_token (handed bs')"
  note g = turn_good[OF laws I inv r split, unfolded hand events_reqs_simps]
  from g(4) inv'(4) have "calm q s'" by (simp add: accounts_def)
  moreover from channels_accounts[OF g(4)] inv'(6)
  have "channels_ok (sy_issued y) (held q s' + ?R) (sh_trace s')" "held q s' + ?R \<subseteq># held q (sy_stack y) + (?R + events_reqs (batch evs))"
    by (simp_all add: add.assoc)
  moreover from this(2) inv'(7) have "futures_ok (sy_futures y) (sy_issued y) (held q s' + ?R)"
    by (auto intro: futures_ok_less simp: add.assoc)
  moreover have "streams_ok (y\<lparr>sy_stack := s', sy_batches := bs'\<rparr>)"
    using drive_once_streams[OF r] by (intro streams_ok_prefix[OF inv'(8)]) (simp_all add: owners_def)
  ultimately show ?thesis using g inv'(5) by (simp add: sys_inv_def in_flight_def)
qed

text \<open>Steps that change only the shared part of the stack.\<close>

lemma share_facts:
  "shared.more (share_buf b buf s) = shared.more s" "sh_ch (share_buf b buf s) = sh_ch s"
  "sh_wakers (share_buf b buf s) = sh_wakers s" "sh_trace (share_buf b buf s) = sh_trace s"
  "strong_count (sh_bufs (share_buf b buf s)) b' = (if b' = b then 2 else strong_count (sh_bufs s) b')"
  by (simp_all add: share_buf_def strong_count_def arc_new_def arc_clone_def)

lemma drop_ref_facts:
  "shared.more (drop_ref b s) = shared.more s" "sh_ch (drop_ref b s) = sh_ch s"
  "sh_wakers (drop_ref b s) = sh_wakers s" "sh_trace (drop_ref b s) = sh_trace s"
  "strong_count (sh_bufs (drop_ref b s)) b' = (if b' = b then strong_count (sh_bufs s) b - 1 else strong_count (sh_bufs s) b')"
  by (simp_all add: drop_ref_def)

lemma same_shared:
  assumes "sh_ch s' = sh_ch s" "sh_wakers s' = sh_wakers s"
  shows "held q s' = held q s" "moving q s' = moving q s" "calm q s' = calm q s"
  using assms by (simp_all add: held_def moving_def calm_def)

lemma more_sys:
  fixes s :: "('c, 'e, 'b, 'ss, 'if, 'cap) tcp_stack"
  assumes "shared.more s' = shared.more s"
  shows "stack_inv D s' = stack_inv D s" "delivered s' = delivered s" "st_socket_handles s' = st_socket_handles s"
    "st_tcp_stream_tx s' = st_tcp_stream_tx s" "st_udp_stream_tx s' = st_udp_stream_tx s"
  using more_fields[OF assms] fields_frame(2)[OF assms] keeps_inv[OF keeps_more[OF assms, of D]] by simp_all

text \<open>
  The common part of the steps of the user: the shared part goes from \<open>s1\<close>, in which the requests \<open>X\<close>
  and the tokens \<open>Y\<close> are in hand, to \<open>s'\<close>.
\<close>

lemma sys_shared_step:
  assumes inv: "sys_inv D q y" and more: "shared.more s' = shared.more (sy_stack y)"
    and s1: "held q s1 = held q (sy_stack y)" "calm q s1 = calm q (sy_stack y)" "sh_trace s1 = sh_trace (sy_stack y)"
    and acc: "accounts q (events_reqs (handed (sy_batches y)) + X) s1 (events_reqs (handed (sy_batches y))) s'"
    and own: "owned (fut_refs fs) q (events_reqs (handed (sy_batches y)) + X) s1"
    and tok: "moving q s' \<subseteq># moving q (sy_stack y)"
    and chan: "channels_ok I (held q (sy_stack y) + (events_reqs (handed (sy_batches y)) + X)) (sh_trace (sy_stack y))"
    and fut: "futures_ok fs I (held q s' + events_reqs (handed (sy_batches y)))"
  shows "sys_inv D q (y\<lparr>sy_stack := s', sy_futures := fs, sy_issued := I\<rparr>)"
proof -
  note inv' = sys_invD[OF inv] and m = more_sys(1)[OF more, of D] more_sys(2-)[OF more]
  have "token_inv (sy_closed y) q (events_token (handed (sy_batches y))) s'"
    using token_inv_less[of "sy_closed y" q "events_token (handed (sy_batches y))" "{#}" "sy_stack y" s'] inv'(3) tok m by simp
  moreover have "channels_ok I (held q s' + events_reqs (handed (sy_batches y))) (sh_trace s')"
    using channels_accounts(1)[OF acc] chan s1 by simp
  moreover have "calm q s'" using acc inv'(4) s1 by (simp add: accounts_def)
  moreover have "streams_ok (y\<lparr>sy_stack := s', sy_futures := fs, sy_issued := I\<rparr>)"
    using m by (intro streams_ok_prefix[OF inv'(8)]) (simp_all add: owners_def)
  ultimately show ?thesis
    using inv'(1,5) m accounts_owned[OF acc own] fut by (simp add: sys_inv_def in_flight_def)
qed

lemma fresh_buf:
  assumes "sys_inv D q y" "sh_bufs (sy_stack y) b = None"
  shows "fut_refs (sy_futures y) b = 0" "r \<in># in_flight q y \<Longrightarrow> snd r \<noteq> Some b"
proof -
  have "strong_count (sh_bufs (sy_stack y)) b = 0" using assms(2) by (simp add: strong_count_def)
  then have 0: "buf_count (in_flight q y) b + fut_refs (sy_futures y) b = 0"
    using sys_invD(2)[OF assms(1)] unfolding owned_def in_flight_def by metis
  then show "fut_refs (sy_futures y) b = 0" by simp
  show "snd r \<noteq> Some b" if "r \<in># in_flight q y"
  proof
    assume "snd r = Some b"
    with that have "r \<in># filter_mset (\<lambda>p. snd p = Some b) (in_flight q y)" by simp
    with 0 show False by (cases r) (auto simp: buf_count_def)
  qed
qed

lemma channels_new:
  assumes "channels_ok I H tr" "t \<notin> I"
  shows "channels_ok (insert t I) (H + {#(t, ob)#}) tr"
  using assms by (auto simp: channels_ok_def)

lemma futures_issued: "futures_ok fs I H \<Longrightarrow> futures_ok fs (insert t I) H"
  by (auto simp: futures_ok_def)

lemma sys_start_inv:
  assumes laws: "deps_laws D q tx rx" and inv: "sys_inv D q y" and b: "sh_bufs (sy_stack y) b = None"
    and t: "t \<notin> sy_issued y" and r: "op_start D p buf b t (sy_stack y) = Inr (w, s')"
  shows "sys_inv D q (y\<lparr>sy_stack := s',
    sy_futures := (if w then \<lparr>fu_op = p, fu_buf = b, fu_tx = t\<rparr> # sy_futures y else sy_futures y),
    sy_issued := insert t (sy_issued y)\<rparr>)"
proof -
  note C = deps_lawsD(1)[OF laws] and inv' = sys_invD[OF inv]
  let ?s = "sy_stack y" and ?R = "events_reqs (handed (sy_batches y))" and ?f = "\<lparr>fu_op = p, fu_buf = b, fu_tx = t\<rparr>"
  let ?s1 = "share_buf b buf ?s"
  note same = same_shared[OF share_facts(2,3)[of b buf ?s]]
  have chan: "channels_ok (insert t (sy_issued y)) (held q ?s + (?R + {#(t, Some b)#})) (sh_trace ?s)"
    using channels_new[OF inv'(6) t, of "Some b"] by (simp add: add.assoc)
  have fut: "futures_ok (sy_futures y) (insert t (sy_issued y)) (held q ?s + ?R)"
    using futures_issued[OF inv'(7)] .
  have none: "(a, Some b) \<notin># held q ?s" "(a, Some b) \<notin># ?R" for a
    using fresh_buf(2)[OF inv b, of "(a, Some b)"] by (auto simp: in_flight_def)
  have fut': "futures_ok (?f # sy_futures y) (insert t (sy_issued y)) (held q ?s + (?R + {#(t, Some b)#}))"
    using fut fresh_buf(1)[OF inv b] none by (auto simp: futures_ok_def fut_refs_def filter_empty_conv)
  have own: "owned (fut_refs (?f # sy_futures y)) q (?R + {#(t, Some b)#}) ?s1"
  proof -
    have "strong_count (sh_bufs ?s) b = 0" using b by (simp add: strong_count_def)
    moreover have o: "strong_count (sh_bufs ?s) b' = buf_count (held q ?s + ?R) b' + fut_refs (sy_futures y) b'" for b'
      using inv'(2) unfolding owned_def by blast
    ultimately have "buf_count (held q ?s) b = 0" "buf_count ?R b = 0" using o[of b] by simp_all
    with o fresh_buf(1)[OF inv b] show ?thesis by (auto simp: owned_def same(1) share_facts(5))
  qed
  obtain res s1 where send: "send_event D (op_event p b t) ?s1 = (res, s1)" by fastforce
  show ?thesis
  proof (cases res)
    case Sent
    with r send have w: "w" "s' = s1" by (simp_all add: op_start_eq[OF C b])
    have acc: "accounts q (?R + {#(t, Some b)#}) ?s1 ?R s1"
      using send_event_ok[OF C, of "op_event p b t" ?s1 s1 ?R] send Sent by simp
    have "moving q s1 \<subseteq># moving q ?s" using send_event_moving[OF C send] same by simp
    moreover have "shared.more s1 = shared.more ?s" using send_event_moreD[OF send] share_facts(1) by metis
    moreover have "futures_ok (?f # sy_futures y) (insert t (sy_issued y)) (held q s1 + ?R)"
      using futures_ok_less[OF fut' channels_accounts(2)[OF acc, of "insert t (sy_issued y)", unfolded same(1) share_facts(4), OF chan]] .
    ultimately show ?thesis
      using sys_shared_step[OF inv _ same(1,3) share_facts(4) acc own _ chan] w by simp
  next
    case (SendError ev)
    with r send have w: "\<not> w" "s' = drop_tx t ?s" by (simp_all add: op_start_eq[OF C b])
    have "accounts q (?R + {#(t, None)#}) ?s ?R (drop_tx t ?s)" by (rule accounts_hangup)
    moreover have "owned (fut_refs (sy_futures y)) q (?R + {#(t, None)#}) ?s" using inv'(2) by (simp add: owned_def)
    moreover have "channels_ok (insert t (sy_issued y)) (held q ?s + (?R + {#(t, None)#})) (sh_trace ?s)"
      using channels_new[OF inv'(6) t, of None] by (simp add: add.assoc)
    moreover have "held q (drop_tx t ?s) = held q ?s" by (simp add: held_def drop_tx_def)
    ultimately show ?thesis
      using sys_shared_step[OF inv, of "drop_tx t ?s" ?s "{#(t, None)#}" "sy_futures y" "insert t (sy_issued y)"] w fut
      by simp
  qed
qed

lemma sys_shutdown_inv:
  assumes laws: "deps_laws D q tx rx" and inv: "sys_inv D q y"
    and t: "t \<notin> sy_issued y" and r: "shutdown_start D st t (sy_stack y) = Inr (w, s')"
  shows "sys_inv D q (y\<lparr>sy_stack := s', sy_issued := insert t (sy_issued y)\<rparr>)"
proof -
  note C = deps_lawsD(1)[OF laws] and inv' = sys_invD[OF inv]
  let ?s = "sy_stack y" and ?R = "events_reqs (handed (sy_batches y))" and ?ev = "Shutdown (Typed_Tcp (ts_handle st)) t"
  obtain res s1 where send: "send_event D ?ev ?s = (res, s1)" by fastforce
  have s': "s' = (case res of Sent \<Rightarrow> s1 | SendError _ \<Rightarrow> drop_tx t ?s)"
    using r send send_event_err[OF C, of ?ev ?s _ s1] by (auto simp: shutdown_start_def split: send_result.splits)
  have acc: "accounts q (?R + {#(t, None)#}) ?s ?R s'"
    using send_event_ok[OF C, of ?ev ?s s1 ?R] send accounts_hangup[of q ?R t ?s] s' by (cases res) simp_all
  have chan: "channels_ok (insert t (sy_issued y)) (held q ?s + (?R + {#(t, None)#})) (sh_trace ?s)"
    using channels_new[OF inv'(6) t, of None] by (simp add: add.assoc)
  have fut: "futures_ok (sy_futures y) (insert t (sy_issued y)) (held q ?s + (?R + {#(t, None)#}))"
    using inv'(7) by (auto simp: futures_ok_def)
  have "shared.more s' = shared.more ?s" using send_event_moreD[OF send] s' by (cases res) simp_all
  moreover have "moving q s' \<subseteq># moving q ?s" using send_event_moving[OF C send] s' by (cases res) simp_all
  moreover have "owned (fut_refs (sy_futures y)) q (?R + {#(t, None)#}) ?s" using inv'(2) by (simp add: owned_def)
  moreover note futures_ok_less[OF fut channels_accounts(2)[OF acc chan]]
  ultimately show ?thesis
    using sys_shared_step[OF inv _ refl refl refl acc _ _ chan, of "sy_futures y"] by simp
qed

lemma sys_release_inv:
  assumes inv: "sys_inv D q y" and fs: "sy_futures y = fs @ f # fs'"
    and s': "shared.more s' = shared.more (sy_stack y)" "sh_ch s' = sh_ch (sy_stack y)"
      "sh_wakers s' = sh_wakers (sy_stack y)" "sh_trace s' = sh_trace (sy_stack y)"
      "\<And>b. strong_count (sh_bufs s') b =
        (if b = fu_buf f then strong_count (sh_bufs (sy_stack y)) b - 1 else strong_count (sh_bufs (sy_stack y)) b)"
  shows "sys_inv D q (y\<lparr>sy_stack := s', sy_futures := fs @ fs'\<rparr>)"
proof -
  note inv' = sys_invD[OF inv] and same = same_shared[OF s'(2,3)]
  let ?R = "events_reqs (handed (sy_batches y))"
  have own: "owned (fut_refs (fs @ fs')) q ?R s'"
    using inv'(2) by (auto simp: owned_def same s'(5) fs)
  have fut: "futures_ok (fs @ fs') (sy_issued y) (held q s' + ?R)"
    using futures_ok_remove[of fs f fs'] inv'(7) by (simp add: fs same)
  have "accounts q (?R + {#}) s' ?R s'" by simp
  moreover have "channels_ok (sy_issued y) (held q (sy_stack y) + (?R + {#})) (sh_trace (sy_stack y))"
    using inv'(6) by simp
  ultimately show ?thesis
    using sys_shared_step[OF inv s'(1), of s' "{#}" "fs @ fs'" "sy_issued y"] own fut same s'(4) by simp
qed

text \<open>A future whose result channel is resolved holds the last reference to its buffer.\<close>

lemma resolved_last_ref:
  assumes inv: "sys_inv D q y" and f: "f \<in> set (sy_futures y)" and r: "0 < resolved (sh_trace (sy_stack y)) (fu_tx f)"
  shows "strong_count (sh_bufs (sy_stack y)) (fu_buf f) = 1"
proof -
  note inv' = sys_invD[OF inv]
  let ?H = "held q (sy_stack y) + events_reqs (handed (sy_batches y))"
  have "fu_tx f \<in> sy_issued y" using inv'(7) f by (simp add: futures_ok_def)
  then have "tx_count ?H (fu_tx f) + resolved (sh_trace (sy_stack y)) (fu_tx f) = 1"
    using inv'(6)[unfolded channels_ok_def, rule_format, of "fu_tx f"] by simp
  with r have "tx_count ?H (fu_tx f) = 0" by linarith
  then have no: "p \<in># ?H \<Longrightarrow> fst p \<noteq> fu_tx f" for p
    unfolding tx_count_def size_eq_0_iff_empty filter_mset_none by blast
  have "buf_count ?H (fu_buf f) = 0"
  proof -
    have "snd p \<noteq> Some (fu_buf f)" if "p \<in># ?H" for p
      using inv'(7) f that no[OF that] unfolding futures_ok_def by blast
    then have "filter_mset (\<lambda>p. snd p = Some (fu_buf f)) ?H = {#}" by (simp add: filter_mset_none)
    then show ?thesis by (simp only: buf_count_def size_empty)
  qed
  moreover have "fut_refs (sy_futures y) (fu_buf f) = 1"
  proof -
    obtain fs fs' where fs: "sy_futures y = fs @ f # fs'" using f by (meson split_list)
    have "distinct (map fu_buf (sy_futures y))" using inv'(7) by (simp add: futures_ok_def)
    then have "\<forall>g\<in>set fs \<union> set fs'. fu_buf g \<noteq> fu_buf f" by (auto simp: fs) (metis image_eqI)+
    then have "fut_refs fs (fu_buf f) = 0" "fut_refs fs' (fu_buf f) = 0"
      by (auto simp: fut_refs_def filter_empty_conv)
    then show ?thesis by (simp add: fs)
  qed
  ultimately show ?thesis using inv'(2) unfolding owned_def by simp
qed

lemma resolved_pos:
  "Hung_up t \<in> set tr \<or> (\<exists>a. Replied t a \<in> set tr) \<Longrightarrow> 0 < resolved tr t"
  by (force simp: resolved_def filter_empty_conv)

lemma concat_take_sub: "mset (concat (map f (take n xs))) \<subseteq># mset (concat (map f xs))"
proof -
  have "concat (map f xs) = concat (map f (take n xs)) @ concat (map f (drop n xs))"
    by (metis append_take_drop_id concat_append map_append)
  then show ?thesis by (metis mset_append mset_subset_eq_add_left)
qed

lemma token_inv_close:
  assumes "token_inv d q K s" "add_mset th d \<subseteq># delivered s'" "moving q s' \<subseteq># moving q s + {#th#}"
    "delivered s' = delivered s" "st_socket_handles s' = st_socket_handles s"
  shows "token_inv (add_mset th d) q K s'"
  unfolding token_inv_def
proof (intro conjI allI)
  fix x
  have "count (moving q s') x \<le> count (moving q s + {#th#}) x" using assms(3) by (rule mset_subset_eq_count)
  moreover have "count (moving q s + delivered s + K) x \<le> count d x + (if x \<in> st_socket_handles s then 1 else 0)"
    using assms(1) unfolding token_inv_def by blast
  ultimately show "count (moving q s' + delivered s' + K) x
      \<le> count (add_mset th d) x + (if x \<in> st_socket_handles s' then 1 else 0)"
    using assms(4,5) by auto
qed (rule assms(2))

lemma sys_drop_inv:
  assumes laws: "deps_laws D q tx rx" and inv: "sys_inv D q y"
    and own: "owners y = owners y' + {#th#}"
    and y': "sy_stack y' = snd (send_event D (Close th) (sy_stack y))" "sy_closed y' = add_mset th (sy_closed y)"
      "sy_batches y' = sy_batches y" "sy_futures y' = sy_futures y" "sy_issued y' = sy_issued y"
      "sy_tcp_acceptor y' = sy_tcp_acceptor y" "sy_udp_acceptor y' = sy_udp_acceptor y"
  shows "sys_inv D q y'"
proof -
  note C = deps_lawsD(1)[OF laws] and inv' = sys_invD[OF inv]
  let ?s = "sy_stack y" and ?s' = "sy_stack y'" and ?R = "events_reqs (handed (sy_batches y))"
  have more: "shared.more ?s' = shared.more ?s" using y'(1) send_event_more by metis
  note m = more_sys(1)[OF more, of D] more_sys(2-)[OF more]
  have acc: "accounts q ?R ?s ?R ?s'" using send_event_quiet[OF C, of "Close th" ?R ?s] y'(1) by simp
  have str: "streams_ok y'"
    using y' m own by (intro streams_ok_prefix[OF inv'(8)]) (simp_all add: ac_simps)
  have "announced (ac_taken (sy_tcp_acceptor y')) (ac_taken (sy_udp_acceptor y')) ?s' \<subseteq># delivered ?s'"
    unfolding announced_def delivered_def
    by (intro subset_mset.add_mono) (simp_all add: concat_take_sub)
  with str have "sy_closed y' \<subseteq># delivered ?s'"
    unfolding streams_ok_def by (meson mset_subset_eq_add_right subset_mset.order_trans)
  moreover have "moving q ?s' \<subseteq># moving q ?s + {#th#}"
    using send_event_moving[OF C, of "Close th" ?s "fst (send_event D (Close th) ?s)" ?s'] y'(1) by simp
  ultimately have "token_inv (sy_closed y') q (events_token (handed (sy_batches y))) ?s'"
    using token_inv_close[OF inv'(3)] m y'(2) by metis
  moreover have "calm q ?s'" using acc inv'(4) by (simp add: accounts_def)
  moreover note channels_accounts[OF acc inv'(6)] futures_ok_less[OF inv'(7)]
  ultimately show ?thesis
    using inv'(1,5) m y' accounts_owned[OF acc inv'(2)] str by (simp add: sys_inv_def in_flight_def)
qed

lemma announced_Suc:
  "n < length (st_tcp_stream_tx s) \<Longrightarrow> st_tcp_stream_tx s ! n = Inr i \<Longrightarrow>
   announced (Suc n) m s = announced n m s + {#Typed_Tcp (ti_handle i)#}"
  "m < length (st_udp_stream_tx s) \<Longrightarrow> st_udp_stream_tx s ! m = Inr j \<Longrightarrow>
   announced n (Suc m) s = announced n m s + {#Typed_Udp (ui_handle j)#}"
  by (simp_all add: announced_def delivered_def take_Suc_conv_app_nth)

lemma sys_accept_inv:
  assumes inv: "sys_inv D q y"
    and y': "sy_stack y' = sy_stack y" "sy_closed y' = sy_closed y" "sy_batches y' = sy_batches y"
      "sy_futures y' = sy_futures y" "sy_issued y' = sy_issued y" "streams_ok y'"
  shows "sys_inv D q y'"
  using inv y' by (simp add: sys_inv_def in_flight_def)

lemma accept_tcp_ok:
  assumes "streams_ok y" "tcp_poll_next (sy_tcp_acceptor y) (sy_alive y) (sy_stack y) = (Poll_ready (Some (Inr st)), ac)"
  shows "streams_ok (y\<lparr>sy_tcp := st # sy_tcp y, sy_tcp_acceptor := ac\<rparr>)"
  using assms announced_Suc(1)[of "ac_taken (sy_tcp_acceptor y)" "sy_stack y"]
  by (auto simp: tcp_poll_next_def streams_ok_def owners_def add.assoc split: if_split_asm sum.split_asm)

lemma accept_udp_ok:
  assumes "streams_ok y" "udp_poll_next (sy_udp_acceptor y) (sy_alive y) (sy_stack y) = (Poll_ready (Some (Inr u)), ac)"
  shows "streams_ok (y\<lparr>sy_udp := u # sy_udp y, sy_udp_acceptor := ac\<rparr>)"
  using assms announced_Suc(2)[of "ac_taken (sy_udp_acceptor y)" "sy_stack y"]
  by (auto simp: udp_poll_next_def streams_ok_def owners_def add.assoc split: if_split_asm sum.split_asm)

text \<open>The generator only moves requests from the channel into the batch.\<close>

lemma generate_pending_chan:
  assumes "generate_poll C E (pc, ch) = Some (Pending, pc', ch')"
  shows "nc_chan ch' = nc_chan ch"
proof -
  obtain pc1 ch1 where "wait_step C E (pc, ch) = (pc1, ch1)" by fastforce
  with assms wait_step_chan[OF this] show ?thesis
    by (auto simp: generate_poll_def split: wait_pc.split_asm option.split_asm prod.split_asm sum.split_asm)
qed

lemma generate_ready_chan:
  assumes C: "crossbeam_laws C q tx rx" and g: "generate_poll C E (pc, ch) = Some (Poll_ready (Inr evs), pc', ch')"
  shows "events_list evs = q (nc_chan ch) \<and> q (nc_chan ch') = []"
proof -
  obtain pc1 ch1 where w: "wait_step C E (pc, ch) = (pc1, ch1)" by fastforce
  with g have "pc1 = W_returned" by (cases pc1) (auto simp: generate_poll_def)
  with g w obtain items where c: "collect_nonblock C ch1 = Some (Inr items, ch')" "evs = \<lparr>events_list = items\<rparr>"
    by (auto simp: generate_poll_def split: option.split_asm prod.split_asm sum.split_asm)
  with collect_loop_result[OF C, of "[]" "nc_chan ch1"] have "items = q (nc_chan ch1)" "q (nc_chan ch') = []"
    by (auto simp: collect_nonblock_def split: if_splits)
  with c(2) wait_step_chan[OF w] show ?thesis by simp
qed

text \<open>
  Steps that only move requests between the channel, the wakers and the batches, or drop some of
  them: the shared part goes to \<open>s'\<close>, the batches to \<open>bs'\<close>.
\<close>

lemma token_inv_moved:
  assumes "token_inv d q K s" "moving q s' + K' \<subseteq># moving q s + K" "delivered s' = delivered s"
    "st_socket_handles s' = st_socket_handles s"
  shows "token_inv d q K' s'"
  unfolding token_inv_def
proof (intro conjI allI)
  fix th
  have "count (moving q s' + K') th \<le> count (moving q s + K) th" using assms(2) by (rule mset_subset_eq_count)
  moreover have "count (moving q s + delivered s + K) th \<le> count d th + (if th \<in> st_socket_handles s then 1 else 0)"
    using assms(1) unfolding token_inv_def by blast
  ultimately show "count (moving q s' + delivered s' + K') th \<le> count d th + (if th \<in> st_socket_handles s' then 1 else 0)"
    using assms(3,4) by simp
qed (use assms in \<open>simp add: token_inv_def\<close>)

lemma sys_move_inv:
  assumes inv: "sys_inv D q y" and more: "shared.more s' = shared.more (sy_stack y)"
    and acc: "accounts q (events_reqs (handed (sy_batches y))) (sy_stack y) (events_reqs (handed bs')) s'"
    and tok: "moving q s' + events_token (handed bs') \<subseteq># moving q (sy_stack y) + events_token (handed (sy_batches y))"
    and evs: "\<forall>ev\<in>set (handed bs'). \<not> udp_shutdown ev"
  shows "sys_inv D q (y\<lparr>sy_stack := s', sy_batches := bs'\<rparr>)"
proof -
  note inv' = sys_invD[OF inv] and m = more_sys(1)[OF more, of D] more_sys(2-)[OF more]
  note c = channels_accounts[OF acc inv'(6)]
  have "calm q s'" using acc inv'(4) by (simp add: accounts_def)
  moreover have "streams_ok (y\<lparr>sy_stack := s', sy_batches := bs'\<rparr>)"
    using m by (intro streams_ok_prefix[OF inv'(8)]) (simp_all add: owners_def)
  ultimately show ?thesis
    using inv'(1) m accounts_owned[OF acc inv'(2)] token_inv_moved[OF inv'(3) tok] c(1) futures_ok_less[OF inv'(7) c(2)] evs
    by (simp add: sys_inv_def in_flight_def)
qed

lemma sys_inv_flags [simp]:
  "sys_inv D q (y\<lparr>sy_alive := a\<rparr>) = sys_inv D q y" "sys_inv D q (y\<lparr>sy_listening := l\<rparr>) = sys_inv D q y"
  "sys_inv D q (y\<lparr>sy_generator := pc\<rparr>) = sys_inv D q y" "sys_inv D q (y\<lparr>sy_accepts_tcp := a\<rparr>) = sys_inv D q y"
  "sys_inv D q (y\<lparr>sy_accepts_udp := a\<rparr>) = sys_inv D q y"
  by (simp_all add: sys_inv_def in_flight_def streams_ok_def owners_def)

lemma generate_ready_tx:
  assumes C: "crossbeam_laws C q tx rx" and g: "generate_poll C E (pc, ch) = Some (Poll_ready (Inr evs), pc', ch')"
  shows "tx (nc_chan ch') = tx (nc_chan ch)"
proof -
  obtain pc1 ch1 where w: "wait_step C E (pc, ch) = (pc1, ch1)" by fastforce
  with g have "pc1 = W_returned" by (cases pc1) (auto simp: generate_poll_def)
  with g w obtain items where "collect_nonblock C ch1 = Some (Inr items, ch')"
    by (auto simp: generate_poll_def split: option.split_asm prod.split_asm sum.split_asm)
  with collect_loop_result[OF C, of "[]" "nc_chan ch1"] wait_step_chan[OF w] show ?thesis
    by (auto simp: collect_nonblock_def)
qed

lemma generate_accounts:
  assumes "q (nc_chan (sh_ch s)) = handed bs' @ q (nc_chan ch)"
  shows "accounts q (events_reqs (handed bs)) s (events_reqs (handed (bs @ bs'))) (s\<lparr>sh_ch := ch\<rparr>)"
  using assms by (intro accounts_move) (auto simp: held_def calm_def ac_simps)

lemma sys_generate_inv:
  assumes inv: "sys_inv D q y" and q: "q (nc_chan (sh_ch (sy_stack y))) = handed bs' @ q (nc_chan ch)"
  shows "sys_inv D q (y\<lparr>sy_stack := (sy_stack y)\<lparr>sh_ch := ch\<rparr>, sy_batches := sy_batches y @ bs'\<rparr>)"
proof (rule sys_move_inv[OF inv])
  let ?s = "(sy_stack y)\<lparr>sh_ch := ch\<rparr>"
  have "calm q (sy_stack y)" by (rule sys_invD(4)[OF inv])
  then show "\<forall>ev\<in>set (handed (sy_batches y @ bs')). \<not> udp_shutdown ev"
    using q sys_invD(5)[OF inv] by (auto simp: calm_def)
  show "accounts q (events_reqs (handed (sy_batches y))) (sy_stack y) (events_reqs (handed (sy_batches y @ bs'))) ?s"
    by (rule generate_accounts[OF q])
  have "moving q (sy_stack y) = moving q ?s + events_token (handed bs')"
    using q by (simp add: moving_def events_token_def ac_simps)
  then show "moving q ?s + events_token (handed (sy_batches y @ bs')) \<subseteq># moving q (sy_stack y) + events_token (handed (sy_batches y))"
    by (simp add: ac_simps)
qed simp

lemma drop_events_accounts: "accounts q (R + events_reqs evs) s R (fold drop_event evs s)"
proof (induction evs arbitrary: s)
  case (Cons ev evs)
  have "accounts q (R + events_reqs evs + ev_reqs ev) s (R + events_reqs evs) (drop_event ev s)"
    by (rule drop_event_accounts)
  with Cons.IH show ?case by (auto intro: accounts_trans simp: ac_simps)
qed simp

lemma drop_events_frame [simp]:
  "shared.more (fold drop_event evs s) = shared.more s" "moving q (fold drop_event evs s) = moving q s"
  by (induction evs arbitrary: s) simp_all

lemma discard_accounts:
  assumes "sy_batches y = bs @ evs # bs'"
  shows "accounts q (events_reqs (handed (sy_batches y))) s (events_reqs (handed (bs @ bs'))) (fold drop_event (events_list evs) s)"
  using drop_events_accounts[of q "events_reqs (handed (bs @ bs'))" "events_list evs" s] assms by (simp add: ac_simps)

lemma sys_discard_inv:
  assumes inv: "sys_inv D q y" and b: "sy_batches y = bs @ evs # bs'"
  shows "sys_inv D q (y\<lparr>sy_stack := fold drop_event (events_list evs) (sy_stack y), sy_batches := bs @ bs'\<rparr>)"
proof (rule sys_move_inv[OF inv])
  show "accounts q (events_reqs (handed (sy_batches y))) (sy_stack y) (events_reqs (handed (bs @ bs')))
      (fold drop_event (events_list evs) (sy_stack y))"
    by (rule discard_accounts[OF b])
qed (use b sys_invD(5)[OF inv] in auto)

lemma generator_drop_frame:
  assumes C: "crossbeam_laws (d_cb D) q tx rx"
  shows "accounts q R s R (generator_drop D s)" "moving q (generator_drop D s) \<subseteq># moving q s"
    "shared.more (generator_drop D s) = shared.more s"
proof -
  obtain c where c: "cb_drop_receiver (d_cb D) (nc_chan (sh_ch s)) = (q (nc_chan (sh_ch s)), c)" "q c = []"
    using crossbeam_drop[OF C] by blast
  let ?evs = "q (nc_chan (sh_ch s))" and ?t = "s\<lparr>sh_ch := (sh_ch s)\<lparr>nc_chan := c\<rparr>\<rparr>"
  have g: "generator_drop D s = fold drop_event ?evs ?t" using c by (simp add: generator_drop_def)
  have "accounts q R s (R + events_reqs ?evs) ?t"
    by (rule accounts_move) (auto simp: held_def calm_def c ac_simps)
  then show "accounts q R s R (generator_drop D s)"
    unfolding g by (rule accounts_trans[OF _ drop_events_accounts])
  show "moving q (generator_drop D s) \<subseteq># moving q s" unfolding g drop_events_frame(2) by (simp add: moving_def c)
  show "shared.more (generator_drop D s) = shared.more s" by (simp add: g)
qed

lemma sys_generator_drop_inv:
  assumes C: "crossbeam_laws (d_cb D) q tx rx" and inv: "sys_inv D q y"
  shows "sys_inv D q (y\<lparr>sy_stack := generator_drop D (sy_stack y)\<rparr>)"
  using sys_move_inv[OF inv, of "generator_drop D (sy_stack y)" "sy_batches y"]
    generator_drop_frame[OF C, where s = "sy_stack y"] sys_invD(5)[OF inv]
  by simp

lemma sys_stack_drop_inv:
  assumes C: "crossbeam_laws (d_cb D) q tx rx" and inv: "sys_inv D q y" and r: "stack_drop D ws (sy_stack y) = Inr s'"
  shows "sys_inv D q (y\<lparr>sy_stack := s'\<rparr>)"
proof -
  obtain s1 where "do_waker_acts D (map Released ws) (sy_stack y) = Inr s1" "shared.more s1 = shared.more (sy_stack y)"
    "\<And>R. accounts q R (sy_stack y) R s1" "moving q s1 \<subseteq># moving q (sy_stack y)"
    using acts_frame[OF C] by blast
  with r sys_move_inv[OF inv, of s' "sy_batches y"] sys_invD(5)[OF inv] show ?thesis by (simp add: stack_drop_def)
qed

lemma batch_simps [simp]: "batch None = []" "batch (Some evs) = events_list evs"
  by (simp_all add: batch_def)

lemma user_step_inv:
  assumes laws: "deps_laws D q tx rx" and step: "user_step D y y'" and inv: "sys_inv D q y"
  shows "sys_inv D q y'"
  using step
proof cases
  case (start p b t buf w s')
  then show ?thesis using sys_start_inv[OF laws inv, of b t p buf w s'] by simp
next
  case (start_shutdown st t w s')
  then show ?thesis using sys_shutdown_inv[OF laws inv] by simp
next
  case (complete fs f fs' r res buf s')
  from op_finish_cast[OF complete(4)]
  have "strong_count (sh_bufs (sy_stack y)) (fu_buf f) = 1" "s' = (sy_stack y)\<lparr>sh_bufs := (sh_bufs (sy_stack y))(fu_buf f := None)\<rparr>"
    by simp_all
  then show ?thesis
    unfolding complete(1) by (intro sys_release_inv[OF inv complete(2)]) (simp_all add: strong_count_def)
next
  case (cancel fs f fs')
  show ?thesis unfolding cancel(1)
    by (intro sys_release_inv[OF inv cancel(2)]) (simp_all add: drop_ref_facts)
next
  case (drop_tcp ts st ts')
  show ?thesis unfolding drop_tcp(1)
    by (rule sys_drop_inv[OF laws inv, where th = "Typed_Tcp (ts_handle st)"])
      (simp_all add: owners_def drop_tcp(2) tcp_stream_drop_def)
next
  case (drop_udp us u us')
  show ?thesis unfolding drop_udp(1)
    by (rule sys_drop_inv[OF laws inv, where th = "Typed_Udp (us_handle u)"])
      (simp_all add: owners_def drop_udp(2) udp_socket_drop_def)
next
  case (accept_tcp st ac)
  show ?thesis unfolding accept_tcp(1)
    by (rule sys_accept_inv[OF inv]) (use accept_tcp_ok[OF sys_invD(8)[OF inv] accept_tcp(3)] in simp_all)
next
  case (accept_udp u ac)
  show ?thesis unfolding accept_udp(1)
    by (rule sys_accept_inv[OF inv]) (use accept_udp_ok[OF sys_invD(8)[OF inv] accept_udp(3)] in simp_all)
qed (use inv in simp_all)

lemma sys_step_inv:
  assumes laws: "deps_laws D q tx rx" and I: "iface_laws B (d_udp D) (d_set D) (d_iface D)"
    and step: "sys_step D y y'" and inv: "sys_inv D q y"
  shows "sys_inv D q y'"
  using step
proof cases
  case user
  then show ?thesis by (rule user_step_inv[OF laws _ inv])
next
  case (generate_pending pc ch)
  then show ?thesis
    using sys_generate_inv[OF inv, of "[]" ch] generate_pending_chan[OF generate_pending(3)] by simp
next
  case (generate_ready evs pc ch)
  then show ?thesis
    using sys_generate_inv[OF inv, of "[evs]" ch] generate_ready_chan[OF deps_lawsD(1)[OF laws] generate_ready(3)]
    by simp
next
  case (turn bs evs bs' now packet r s')
  then show ?thesis using sys_turn_inv[OF laws I inv turn(4), of "bs @ bs'"] by simp
next
  case (idle_turn now packet r s')
  then show ?thesis using sys_turn_inv[OF laws I inv idle_turn(3), of "sy_batches y"] by simp
next
  case (discard bs evs bs')
  then show ?thesis using sys_discard_inv[OF inv discard(2)] by simp
next
  case (drop_stack ws s')
  then show ?thesis using sys_stack_drop_inv[OF deps_lawsD(1)[OF laws] inv drop_stack(4)] by simp
next
  case drop_generator
  then show ?thesis using sys_generator_drop_inv[OF deps_lawsD(1)[OF laws] inv] by simp
qed

text \<open>Every step but those of the users accounts for the requests under way and leaves the users' side alone.\<close>

lemma sys_step_accounts:
  assumes laws: "deps_laws D q tx rx" and I: "iface_laws B (d_udp D) (d_set D) (d_iface D)"
    and step: "sys_step D y y'" and inv: "sys_inv D q y"
  shows "user_step D y y' \<or> sy_futures y' = sy_futures y \<and>
    accounts q (events_reqs (handed (sy_batches y))) (sy_stack y) (events_reqs (handed (sy_batches y'))) (sy_stack y')"
  using step
proof cases
  case (generate_pending pc ch)
  then show ?thesis
    using generate_accounts[of q "sy_stack y" "[]" ch "sy_batches y"] generate_pending_chan[OF generate_pending(3)] by simp
next
  case (generate_ready evs pc ch)
  then show ?thesis
    using generate_accounts[of q "sy_stack y" "[evs]" ch "sy_batches y"]
      generate_ready_chan[OF deps_lawsD(1)[OF laws] generate_ready(3)] by simp
next
  case (turn bs evs bs' now packet r s')
  then show ?thesis using turn_good(4)[OF laws I inv turn(4), of "bs @ bs'"] by simp
next
  case (idle_turn now packet r s')
  then show ?thesis using turn_good(4)[OF laws I inv idle_turn(3), of "sy_batches y"] by simp
next
  case (discard bs evs bs')
  then show ?thesis using discard_accounts[OF discard(2), where s = "sy_stack y"] by simp
next
  case (drop_stack ws s')
  then show ?thesis using acts_frame[OF deps_lawsD(1)[OF laws], of "map Released ws" "sy_stack y"] by (auto simp: stack_drop_def)
next
  case drop_generator
  then show ?thesis using generator_drop_frame(1)[OF deps_lawsD(1)[OF laws], where s = "sy_stack y"] by simp
qed simp

lemma sys_reach_inv:
  assumes "deps_laws D q tx rx" "iface_laws B (d_udp D) (d_set D) (d_iface D)" "sys_reach D y"
  shows "sys_inv D q y"
  using assms(3)
  by (induction rule: sys_reach.induct) (blast intro: sys_init_inv[OF assms(1)] sys_step_inv[OF assms(1,2)])+

end
