(* ===== verification/Effects.thy ===== *)
theory Effects
  imports Stack_Turn
begin

text \<open>
  Invariants of the part of the state that the stack shares with the users. Every handler of
  \<^verbatim>\<open>src/tcp_stack/mod.rs\<close> reaches that part through a few effects only: it sends a request, registers a
  closure, runs or drops a registered one, fulfils a transfer, hangs up, or drops a buffer reference. The
  locale \<open>handler_effects\<close> states what these effects must keep; its lemmas carry an invariant through whole
  turns. \<open>stack_effects\<close> is a simpler contract that gives it, for invariants that do not look at what is
  transferred.
\<close>

section \<open>Requests and what may answer them\<close>

text \<open>\<open>okre t r\<close> says which replies may be sent on a result channel, \<open>fills b\<close> which buffers may be written to. A
  request is sound when every reply that its handlers could give and the buffer they could fill is allowed.\<close>

fun ev_ok :: "(tx_id \<Rightarrow> reply \<Rightarrow> bool) \<Rightarrow> (buf_id \<Rightarrow> bool) \<Rightarrow> operation_event \<Rightarrow> bool" where
  "ev_ok okre fills (Read h b t) \<longleftrightarrow> fills b \<and> (\<forall>r. okre t (Reply_usize r))"
| "ev_ok okre fills (Write h b t) \<longleftrightarrow> (\<forall>r. okre t (Reply_usize r))"
| "ev_ok okre fills (Send h a b t) \<longleftrightarrow> (\<forall>r. okre t (Reply_usize r))"
| "ev_ok okre fills (Recv h b t) \<longleftrightarrow> fills b \<and> (\<forall>r. okre t (Reply_from r))"
| "ev_ok okre fills (Shutdown h t) \<longleftrightarrow> (\<forall>r. okre t (Reply_unit r))"
| "ev_ok okre fills (Ready h) \<longleftrightarrow> True"
| "ev_ok okre fills (Close h) \<longleftrightarrow> True"

fun waker_ok :: "(tx_id \<Rightarrow> reply \<Rightarrow> bool) \<Rightarrow> (buf_id \<Rightarrow> bool) \<Rightarrow> waker_fn \<Rightarrow> bool" where
  "waker_ok okre fills (Wake_read h b t) \<longleftrightarrow> fills b \<and> (\<forall>r. okre t (Reply_usize r))"
| "waker_ok okre fills (Wake_write h b t) \<longleftrightarrow> (\<forall>r. okre t (Reply_usize r))"
| "waker_ok okre fills (Wake_send h a b t) \<longleftrightarrow> (\<forall>r. okre t (Reply_usize r))"
| "waker_ok okre fills (Wake_recv h b t) \<longleftrightarrow> fills b \<and> (\<forall>r. okre t (Reply_from r))"
| "waker_ok okre fills (Wake_shutdown t) \<longleftrightarrow> (\<forall>r. okre t (Reply_unit r))"
| "waker_ok okre fills (Wake_ready h) \<longleftrightarrow> True"
| "waker_ok okre fills (Wake_close h) \<longleftrightarrow> True"

fun action_ok :: "(tx_id \<Rightarrow> reply \<Rightarrow> bool) \<Rightarrow> action \<Rightarrow> bool" where
  "action_ok okre (Replied t r) \<longleftrightarrow> okre t r"
| "action_ok okre (Hung_up t) \<longleftrightarrow> True"
| "action_ok okre (Dropped_buf b) \<longleftrightarrow> True"

text \<open>A change of the store that writes to or creates the cells of \<open>F\<close> only; any cell may lose references.\<close>

definition only_fills :: "(buf_id \<Rightarrow> bool) \<Rightarrow> 'a arcs \<Rightarrow> 'a arcs \<Rightarrow> bool" where
  "only_fills F h h' \<longleftrightarrow>
     (\<forall>b c'. \<not> F b \<longrightarrow> h' b = Some c' \<longrightarrow> (\<exists>c. h b = Some c \<and> arc_data c' = arc_data c))"

lemma only_fills_simps [simp]:
  "only_fills F h h" "only_fills F h (arc_drop b h)" "only_fills F h (h(b := None))" "only_fills (\<lambda>_. True) h h'"
  "F b \<Longrightarrow> only_fills F h (arc_update b f h)"
  by (auto simp: only_fills_def arc_drop_def arc_update_def split: option.split_asm if_split_asm)

lemma only_fills_share: "F b \<Longrightarrow> only_fills F h (arc_clone b (arc_new b v h))"
  by (auto simp: only_fills_def arc_clone_def arc_new_def split: if_split_asm)

definition spent :: "waker_fn atomic_option option \<Rightarrow> bool" where
  "spent c \<longleftrightarrow> (case c of None \<Rightarrow> True | Some a \<Rightarrow> ao_used a)"

lemma spent_simps [simp]: "spent None" "spent (Some a) \<longleftrightarrow> ao_used a"
  by (simp_all add: spent_def)

text \<open>The closure in which a request waits.\<close>

fun waker_of :: "operation_event \<Rightarrow> waker_fn" where
  "waker_of (Read h b t) = Wake_read h b t"
| "waker_of (Write h b t) = Wake_write h b t"
| "waker_of (Recv h b t) = Wake_recv h b t"
| "waker_of (Send h a b t) = Wake_send h a b t"
| "waker_of (Shutdown h t) = Wake_shutdown t"
| "waker_of (Ready th) = Wake_ready (typed_into_handle th)"
| "waker_of (Close th) = Wake_close (typed_into_handle th)"

section \<open>What serving a transfer means\<close>

text \<open>
  The contract of the four transfers: \<open>fulfils D ev v r v'\<close> when a request whose buffer holds \<open>v\<close> may be answered with \<open>r\<close> and
  leave \<open>v'\<close> in the buffer. An error of a write or send leaves the buffer alone. A success of a write means that a
  socket that could send was handed the initialised bytes, and answered with that number; a success of a
  send, that the bytes went to the given address in one piece, and the number is their length. A read may report
  zero bytes without a call when the peer sends no more; otherwise the memory and the length
  of the buffer are what \<^verbatim>\<open>recv_slice\<close> of a socket with queued bytes made of them.
\<close>

fun fulfils ::
  "('c, 'e, 'l, 'b, 'tcp, 'udp, 'ss, 'if, 'cap, 'ck) stack_deps \<Rightarrow> operation_event \<Rightarrow> 'b \<Rightarrow> reply \<Rightarrow> 'b \<Rightarrow> bool" where
  "fulfils D (Write h b t) v (Reply_usize r) v' \<longleftrightarrow> v' = v \<and>
     (case r of Inl _ \<Rightarrow> True
      | Inr n \<Rightarrow> \<exists>sock sock'. t_can_send (d_tcp D) sock \<and> t_send_slice (d_tcp D) (io_as_slice (d_io D) v) sock = (Inr n, sock'))"
| "fulfils D (Send h a b t) v (Reply_usize r) v' \<longleftrightarrow> v' = v \<and>
     (case r of Inl _ \<Rightarrow> True
      | Inr n \<Rightarrow> n = length (io_as_slice (d_io D) v) \<and>
          (\<exists>sock sock'. u_can_send (d_udp D) sock \<and> u_send_slice (d_udp D) (io_as_slice (d_io D) v) a sock = (None, sock')))"
| "fulfils D (Read h b t) v (Reply_usize r) v' \<longleftrightarrow>
     v' = v \<and> (case r of Inl _ \<Rightarrow> True
       | Inr n \<Rightarrow> n = 0 \<and> (\<exists>sock. t_recv_queue (d_tcp D) sock = 0 \<and> \<not> t_may_recv (d_tcp D) sock)) \<or>
     (\<exists>sock res mem sock'. t_recv_queue (d_tcp D) sock \<noteq> 0 \<and>
        t_recv_slice (d_tcp D) (io_as_mut_slice (d_io D) v) sock = (res, mem, sock') \<and>
        (case res of
           Inl RecvError_Finished \<Rightarrow> v' = io_put (d_io D) mem v \<and> r = Inr 0
         | Inl (RecvError_other err) \<Rightarrow> v' = io_put (d_io D) mem v \<and> r = Inl (Error_new Other err)
         | Inr n \<Rightarrow> v' = io_set_buf_init (d_io D) n (io_put (d_io D) mem v) \<and> r = Inr n))"
| "fulfils D (Recv h b t) v (Reply_from r) v' \<longleftrightarrow>
     v' = v \<and> isl r \<or>
     (\<exists>sock res mem sock'. u_can_recv (d_udp D) sock \<and>
        u_recv_slice (d_udp D) (io_as_mut_slice (d_io D) v) sock = (res, mem, sock') \<and>
        (case res of
           Inl err \<Rightarrow> v' = io_put (d_io D) mem v \<and> r = Inl (Error_new Other err)
         | Inr (n, ip, port) \<Rightarrow> v' = io_set_buf_init (d_io D) n (io_put (d_io D) mem v) \<and> r = Inr (n, SocketAddr_new ip port)))"
| "fulfils D _ v _ v' \<longleftrightarrow> False"

fun incoming :: "operation_event \<Rightarrow> bool" where
  "incoming (Read _ _ _) \<longleftrightarrow> True"
| "incoming (Recv _ _ _) \<longleftrightarrow> True"
| "incoming _ \<longleftrightarrow> False"

lemma fulfils_ok:
  assumes "fulfils D ev v r v'" "ev_reqs ev = {#(t, Some b)#}" "ev_ok okre fills ev"
  shows "okre t r" "incoming ev \<Longrightarrow> fills b"
  using assms by (cases "(D, ev, v, r, v')" rule: fulfils.cases; simp)+

section \<open>The interface\<close>

text \<open>
  \<open>okev\<close> and \<open>okwk\<close> are the requests and closures the invariant allows, \<open>fresh\<close> the names it allows for new buffers. Closures of
  transfers are allowed exactly when their requests are.
\<close>

locale handler_effects =
  fixes D :: "('c, 'e, 'l, 'b, 'tcp, 'udp, 'ss, 'if, 'cap, 'ck) stack_deps"
    and I :: "('c, 'e, 'b, 'ss, 'if, 'cap) tcp_stack \<Rightarrow> bool"
    and okev :: "operation_event \<Rightarrow> bool"
    and okwk :: "waker_fn \<Rightarrow> bool"
    and fresh :: "buf_id \<Rightarrow> bool"
  assumes frame: "\<lbrakk>I s; sh_ch s' = sh_ch s; sh_wakers s' = sh_wakers s; sh_trace s' = sh_trace s;
      only_fills (\<lambda>_. False) (sh_bufs s) (sh_bufs s')\<rbrakk> \<Longrightarrow> I s'"
    and lend: "\<lbrakk>I s; sh_bufs s b = None; fresh b\<rbrakk> \<Longrightarrow> I (s\<lparr>sh_bufs := arc_clone b (arc_new b x (sh_bufs s))\<rparr>)"
    and dropped: "I s \<Longrightarrow> I (s\<lparr>sh_trace := sh_trace s @ [Dropped_buf b]\<rparr>)"
    and hangup_I: "I s \<Longrightarrow> I (drop_tx t s)"
    and reply: "\<lbrakk>I s; okev ev; ev_reqs ev = {#(t, Some b)#}; \<forall>c. sh_bufs s b = Some c \<longrightarrow> sb_inner (arc_data c) = v;
      fulfils D ev v r v\<rbrakk> \<Longrightarrow> I (answer b t r s)"
    and serve: "\<lbrakk>I s; okev ev; incoming ev; ev_reqs ev = {#(t, Some b)#}; buf_value b s = Inr sb;
      fulfils D ev (sb_inner sb) r (sb_inner sb')\<rbrakk> \<Longrightarrow> I (answer b t r (set_buf b sb' s))"
    and shut: "\<lbrakk>I s; okwk (Wake_shutdown t)\<rbrakk> \<Longrightarrow> I (send_reply t (Reply_unit u) s)"
    and send: "\<lbrakk>I s; okev ev; send_event D ev s = (r', s')\<rbrakk> \<Longrightarrow> I s' \<and> (r' = Sent \<or> r' = SendError ev)"
    and park: "\<lbrakk>I s; okwk f\<rbrakk> \<Longrightarrow> I (s\<lparr>sh_wakers := sh_wakers s @ [Some (wake_once_fn f)]\<rparr>)"
    and take_cell: "\<lbrakk>I s; w < length (sh_wakers s); spent c\<rbrakk> \<Longrightarrow> I (s\<lparr>sh_wakers := (sh_wakers s)[w := c]\<rparr>)"
    and parked: "\<lbrakk>I s; w < length (sh_wakers s); sh_wakers s ! w = Some cell; \<not> ao_used cell\<rbrakk> \<Longrightarrow> okwk (ao_value cell)"
    and control: "okev (Ready th)" "okev (Close th)" "okwk (Wake_ready h)" "okwk (Wake_close h)"
    and wakers: "okwk (Wake_read h b t) \<longleftrightarrow> okev (Read h b t)" "okwk (Wake_write h b t) \<longleftrightarrow> okev (Write h b t)"
      "okwk (Wake_recv h b t) \<longleftrightarrow> okev (Recv h b t)" "okwk (Wake_send h a b t) \<longleftrightarrow> okev (Send h a b t)"
      "okev (Shutdown th t) \<longleftrightarrow> okwk (Wake_shutdown t)"
begin

text \<open>The primitive effects.\<close>

lemma drop_buf_I: "I s \<Longrightarrow> I (drop_buf b s)"
  by (rule frame[OF dropped[of s b]]) (simp_all add: drop_buf_def)

text \<open>Answers that leave the buffer alone, whatever it holds.\<close>

lemma refuse_I:
  assumes "I s" "okev ev" "ev_reqs ev = {#(t, Some b)#}" "\<And>v. fulfils D ev v r v"
  shows "I (answer b t r s)"
proof (rule reply[OF assms(1-3)])
  show "\<forall>c. sh_bufs s b = Some c \<longrightarrow> sb_inner (arc_data c) = sb_inner (arc_data (the (sh_bufs s b)))" by simp
qed (rule assms(4))

lemma fail_I:
  "I s \<Longrightarrow> okev (Write h b t) \<Longrightarrow> I (answer b t (Reply_usize (Inl e)) s)"
  "I s \<Longrightarrow> okev (Read h b t) \<Longrightarrow> I (answer b t (Reply_usize (Inl e)) s)"
  "I s \<Longrightarrow> okev (Send h a b t) \<Longrightarrow> I (answer b t (Reply_usize (Inl e)) s)"
  "I s \<Longrightarrow> okev (Recv h b t) \<Longrightarrow> I (answer b t (Reply_from (Inl e)) s)"
  using refuse_I[of s "Write h b t"] refuse_I[of s "Read h b t"] refuse_I[of s "Send h a b t"] refuse_I[of s "Recv h b t"]
  by simp_all

lemma put_I: "I s \<Longrightarrow> I (put_socket D h x s)"
  by (rule frame[of s]) (simp_all add: put_socket_def)

lemma st_update_I:
  "I (s\<lparr>st_socket_set := x\<rparr>) \<longleftrightarrow> I s" "I (s\<lparr>st_socket_handles := hs\<rparr>) \<longleftrightarrow> I s"
  "I (s\<lparr>st_accepted_udp_sockets := as\<rparr>) \<longleftrightarrow> I s" "I (s\<lparr>st_virtual_iface := v\<rparr>) \<longleftrightarrow> I s"
  "I (s\<lparr>st_interface := i\<rparr>) \<longleftrightarrow> I s" "I (s\<lparr>st_tcp_stream_tx := ts\<rparr>) \<longleftrightarrow> I s" "I (s\<lparr>st_udp_stream_tx := us\<rparr>) \<longleftrightarrow> I s"
  by (auto intro: frame)

lemma sent_I: "send_event D ev s = (r, s') \<Longrightarrow> okev ev \<Longrightarrow> I s \<Longrightarrow> I s'"
  using send by blast

lemma send_I: "I s \<Longrightarrow> okev ev \<Longrightarrow> I (snd (send_event D ev s))"
  using send[OF _ _ surjective_pairing] by blast

lemma drop_event_I: "I s \<Longrightarrow> I (drop_event ev s)"
  by (cases ev) (simp_all add: hangup_I drop_buf_I)

lemma drop_events_I: "I s \<Longrightarrow> I (fold drop_event evs s)"
  by (induction evs arbitrary: s) (simp_all add: drop_event_I)

lemma drop_waker_fn_I: "I s \<Longrightarrow> I (drop_waker_fn f s)"
  by (cases f) (simp_all add: hangup_I drop_buf_I)

text \<open>Wakers.\<close>

lemma resend_I:
  assumes "I s" "okev ev"
    and "(case send_event D ev s of (Sent, s1) \<Rightarrow> Inr s1 | (SendError ev', s1) \<Rightarrow> g ev' s1) = Inr s'"
    and "\<And>s1. I s1 \<Longrightarrow> g ev s1 = Inr s' \<Longrightarrow> I s'"
  shows "I s'"
  using assms(3) send[OF assms(1,2)]
  by (cases "send_event D ev s") (auto split: send_result.split_asm intro: assms(4))

lemma run_waker_fn_I:
  assumes s: "I s" and f: "okwk f" and r: "run_waker_fn D f s = Inr s'"
  shows "I s'"
proof (cases f)
  case (Wake_write h b t)
  with f have ev: "okev (Write h b t)" by (simp add: wakers)
  show ?thesis
    by (rule resend_I[OF s ev r[unfolded Wake_write run_waker_fn.simps closure_defs, folded answer_def]])
      (auto intro: fail_I(1)[OF _ ev])
next
  case (Wake_read h b t)
  with f have ev: "okev (Read h b t)" by (simp add: wakers)
  show ?thesis
    by (rule resend_I[OF s ev r[unfolded Wake_read run_waker_fn.simps closure_defs, folded answer_def]])
      (auto intro: fail_I(2)[OF _ ev])
next
  case (Wake_send h a b t)
  with f have ev: "okev (Send h a b t)" by (simp add: wakers)
  show ?thesis
    by (rule resend_I[OF s ev r[unfolded Wake_send run_waker_fn.simps closure_defs, folded answer_def]])
      (auto intro: fail_I(3)[OF _ ev])
next
  case (Wake_recv h b t)
  with f have ev: "okev (Recv h b t)" by (simp add: wakers)
  show ?thesis
    by (rule resend_I[OF s ev r[unfolded Wake_recv run_waker_fn.simps closure_defs, folded answer_def]])
      (auto intro: fail_I(4)[OF _ ev])
qed (use s f r in \<open>auto intro: shut send_I control\<close>)

lemma do_waker_act_I:
  assumes s: "I s" and r: "do_waker_act D a s = Inr s'"
  shows "I s'"
proof -
  obtain w where a: "a = Woken w \<or> a = Released w" by (cases a) auto
  show ?thesis
  proof (cases "w < length (sh_wakers s) \<and> sh_wakers s ! w \<noteq> None")
    case True
    then obtain cell where w: "w < length (sh_wakers s)" "sh_wakers s ! w = Some cell" by blast
    have used: "I (s\<lparr>sh_wakers := (sh_wakers s)[w := c]\<rparr>)" if "spent c" for c using take_cell[OF s w(1) that] .
    show ?thesis
      using a r w used[of None] used[of "Some cell"] used[of "Some (cell\<lparr>ao_used := True\<rparr>)"] parked[OF s w]
      by (cases "ao_used cell") (auto simp: Let_def intro: run_waker_fn_I drop_waker_fn_I)
  qed (use a r s in \<open>auto split: if_splits\<close>)
qed

lemma do_waker_acts_I: "do_waker_acts D acts s = Inr s' \<Longrightarrow> I s \<Longrightarrow> I s'"
  unfolding do_waker_acts_def by (erule for_each_inv[where I = I]) (auto intro: do_waker_act_I)

lemma new_waker_I: "new_waker f s = (w, s') \<Longrightarrow> okwk f \<Longrightarrow> I s \<Longrightarrow> I s'"
  using park by (auto simp: new_waker_def)

lemma park_tcp_I: "park_tcp D reg f h sock s = Inr s' \<Longrightarrow> okwk f \<Longrightarrow> I s \<Longrightarrow> I s'"
  unfolding park_tcp_def Let_def
  by (auto intro: do_waker_acts_I put_I new_waker_I split: prod.split_asm)

lemma park_udp_I: "park_udp D reg f h sock s = Inr s' \<Longrightarrow> okwk f \<Longrightarrow> I s \<Longrightarrow> I s'"
  unfolding park_udp_def Let_def
  by (auto intro: do_waker_acts_I put_I new_waker_I split: prod.split_asm)

text \<open>The handlers.\<close>

lemma shutdown_I:
  assumes "handle_shutdown_event D th t s = Inr s'" "okev (Shutdown th t)" "I s"
  shows "I s'"
  using assms unfolding handle_shutdown_event_def Let_def
  by (auto simp: wakers intro: shut elim!: obind_InrE split: if_split_asm typed_socket_handle.split_asm prod.split_asm)
    (blast intro: do_waker_acts_I put_I new_waker_I[where f = "Wake_shutdown t"])

lemma remove_tcp_I: "remove_tcp_socket D h s = Inr s' \<Longrightarrow> I s \<Longrightarrow> I s'"
  unfolding remove_tcp_socket_def
  by (auto simp: st_update_I dest!: do_waker_acts_I elim!: obind_InrE split: option.split_asm)

lemma remove_udp_I: "remove_udp_socket D h a s = Inr s' \<Longrightarrow> I s \<Longrightarrow> I s'"
  unfolding remove_udp_socket_def
  by (auto simp: st_update_I dest!: do_waker_acts_I elim!: obind_InrE split: option.split_asm)

lemma close_I:
  assumes "handle_close_event D th s = Inr s'" "I s"
  shows "I s'"
  using assms unfolding handle_close_event_def Let_def
  by (auto dest!: do_waker_acts_I remove_tcp_I remove_udp_I park_tcp_I simp: put_I control elim!: obind_InrE
    split: if_split_asm typed_socket_handle.split_asm prod.split_asm option.split_asm)

lemma ready_I:
  assumes "handle_ready_wake_event D th s = Inr s'" "I s"
  shows "I s'"
  using assms unfolding handle_ready_wake_event_def
  by (auto simp: st_update_I control dest!: park_tcp_I elim!: obind_InrE
    split: if_split_asm typed_socket_handle.split_asm prod.split_asm option.split_asm)

lemma control_I: "handle_control D ev s = Inr s' \<Longrightarrow> okev ev \<Longrightarrow> I s \<Longrightarrow> I s'"
  by (cases ev) (auto intro: ready_I close_I shutdown_I)

lemma set_buf_twice: "set_buf b v' (set_buf b v s) = set_buf b v' s"
  by (simp add: set_buf_def arc_update_def split: option.split)

lemma put_value: "buf_value b (put_socket D h x s) = buf_value b s"
  by (simp add: buf_value_def put_socket_def)

lemma value_content: "buf_value b s = Inr sb \<Longrightarrow> \<forall>c. sh_bufs s b = Some c \<longrightarrow> sb_inner (arc_data c) = sb_inner sb"
  by (auto simp: buf_value_def split: option.split_asm)

lemma write_I:
  assumes r: "handle_tcp_wake_event D (Write h b t) s = Inr s'" and ev: "okev (Write h b t)" and s: "I s"
  shows "I s'"
proof -
  have ok: "I (answer b t (Reply_usize (Inr n)) (put_socket D h x s))"
    if "buf_value b s = Inr sb" "t_can_send (d_tcp D) sock" "t_send_slice (d_tcp D) (as_slice (d_io D) sb) sock = (Inr n, sock')"
    for x sb n sock sock'
    by (rule reply[OF put_I[OF s] ev _ value_content]) (use that in \<open>auto simp: as_slice_def put_value\<close>)
  show ?thesis
    using r ev s by (auto simp: Let_def wakers put_I fail_I(1)[OF _ ev] dest!: park_tcp_I elim!: obind_InrE
      split: if_split_asm prod.split_asm sum.split_asm) (rule ok)
qed

lemma send_to_I:
  assumes r: "handle_udp_wake_event D (Send h a b t) s = Inr s'" and ev: "okev (Send h a b t)" and s: "I s"
  shows "I s'"
proof -
  have ok: "I (answer b t (Reply_usize (Inr (length (as_slice (d_io D) sb)))) (put_socket D h x s))"
    if "buf_value b s = Inr sb" "u_can_send (d_udp D) sock" "u_send_slice (d_udp D) (as_slice (d_io D) sb) a sock = (None, sock')"
    for x sb sock sock'
    by (rule reply[OF put_I[OF s] ev _ value_content]) (use that in \<open>auto simp: as_slice_def put_value\<close>)
  show ?thesis
    using r ev s by (auto simp: Let_def wakers put_I fail_I(3)[OF _ ev] dest!: park_udp_I elim!: obind_InrE
      split: if_split_asm prod.split_asm option.split_asm) (rule ok)
qed

lemma read_I:
  assumes r: "handle_tcp_wake_event D (Read h b t) s = Inr s'" and ev: "okev (Read h b t)" and s: "I s"
  shows "I s'"
proof -
  have eof: "I (answer b t (Reply_usize (Inr 0)) s)" if "t_recv_queue (d_tcp D) sock = 0" "\<not> t_may_recv (d_tcp D) sock" for sock
    by (rule refuse_I[OF s ev]) (use that in auto)
  have ok: "I (answer b t (Reply_usize r) (set_buf b (sb\<lparr>sb_inner := v'\<rparr>) (put_socket D h x s)))"
    if "t_recv_slice (d_tcp D) (io_as_mut_slice (d_io D) (sb_inner sb)) sock = (res, mem, sock')" "buf_value b s = Inr sb"
      "t_recv_queue (d_tcp D) sock \<noteq> 0" "case res of
         Inl RecvError_Finished \<Rightarrow> v' = io_put (d_io D) mem (sb_inner sb) \<and> r = Inr 0
       | Inl (RecvError_other err) \<Rightarrow> v' = io_put (d_io D) mem (sb_inner sb) \<and> r = Inl (Error_new Other err)
       | Inr n \<Rightarrow> v' = io_set_buf_init (d_io D) n (io_put (d_io D) mem (sb_inner sb)) \<and> r = Inr n"
    for sb v' x r sock res mem sock'
    by (rule serve[OF put_I[OF s] ev, where sb = sb]) (use that in \<open>simp_all add: put_value\<close>, blast)
  show ?thesis
    using r ev s
    by (auto simp: Let_def wakers fail_I(2)[OF _ ev] set_buf_twice write_slice_mut_def set_initiated_len_def as_slice_mut_def
      dest!: park_tcp_I elim!: obind_InrE split: if_split_asm prod.split_asm sum.split_asm tcp_recv_error.split_asm)
      ((erule (1) eof)?, (erule ok; simp)+)
qed

lemma recv_I:
  assumes r: "handle_udp_wake_event D (Recv h b t) s = Inr s'" and ev: "okev (Recv h b t)" and s: "I s"
  shows "I s'"
proof -
  have ok: "I (answer b t (Reply_from r) (set_buf b (sb\<lparr>sb_inner := v'\<rparr>) (put_socket D h x s)))"
    if "u_recv_slice (d_udp D) (io_as_mut_slice (d_io D) (sb_inner sb)) sock = (res, mem, sock')" "buf_value b s = Inr sb"
      "u_can_recv (d_udp D) sock" "case res of
         Inl err \<Rightarrow> v' = io_put (d_io D) mem (sb_inner sb) \<and> r = Inl (Error_new Other err)
       | Inr (n, ip, port) \<Rightarrow> v' = io_set_buf_init (d_io D) n (io_put (d_io D) mem (sb_inner sb)) \<and> r = Inr (n, SocketAddr_new ip port)"
    for sb v' x r sock res mem sock'
    by (rule serve[OF put_I[OF s] ev, where sb = sb]) (use that in \<open>simp_all add: put_value\<close>, blast)
  show ?thesis
    using r ev s
    by (auto simp: Let_def wakers fail_I(4)[OF _ ev] set_buf_twice write_slice_mut_def set_initiated_len_def as_slice_mut_def
      dest!: park_udp_I elim!: obind_InrE split: if_split_asm prod.split_asm sum.split_asm)
      (erule ok; simp)+
qed

lemma tcp_wake_I: "handle_tcp_wake_event D ev s = Inr s' \<Longrightarrow> okev ev \<Longrightarrow> I s \<Longrightarrow> I s'"
  by (cases ev) (auto intro: write_I read_I simp del: handle_tcp_wake_event.simps(1,2))

lemma udp_wake_I: "handle_udp_wake_event D ev s = Inr s' \<Longrightarrow> okev ev \<Longrightarrow> I s \<Longrightarrow> I s'"
  by (cases ev) (auto intro: send_to_I recv_I simp del: handle_udp_wake_event.simps(1,2))

lemma drive_events_I:
  assumes r: "drive_events D evs s = Inr s'" and evs: "\<forall>ev\<in>set evs. okev ev" and s: "I s"
  shows "I s'"
proof -
  from r[unfolded drive_events_eq handle_passes_def] obtain s1 s2 where
    1: "for_each (handle_control D) (filter is_control evs) s = Inr s1" and
    2: "for_each (handle_tcp_wake_event D) (filter is_tcp_transfer evs) s1 = Inr s2" and
    3: "for_each (handle_udp_wake_event D) (filter is_udp_transfer evs) s2 = Inr s'"
    by (auto elim!: obind_InrE)
  have "I s1" by (rule for_each_inv[where I = I, OF 1 s]) (use evs in \<open>auto intro: control_I\<close>)
  then have "I s2" by (rule for_each_inv[where I = I, OF 2]) (use evs in \<open>auto intro: tcp_wake_I\<close>)
  then show ?thesis by (rule for_each_inv[where I = I, OF 3]) (use evs in \<open>auto intro: udp_wake_I\<close>)
qed

lemma init_tcp_I: "init_tcp D dst s = Inr (err, s') \<Longrightarrow> I s \<Longrightarrow> I s'"
  unfolding init_tcp_def Let_def
  by (auto simp: st_update_I control dest!: park_tcp_I elim!: obind_InrE split: sum.split_asm prod.split_asm)

lemma try_init_udp_I:
  assumes "try_init_udp D dst s = (r, s')" "I s"
  shows "I s'"
  using assms unfolding try_init_udp_def Let_def
  by (auto simp: st_update_I control dest!: sent_I split: if_split_asm sum.split_asm prod.split_asm send_result.split_asm)

lemma drive_packet_I: "drive_packet D p s = Inr (err, s') \<Longrightarrow> I s \<Longrightarrow> I s'"
  unfolding drive_packet_def
  by (auto simp: st_update_I dest!: init_tcp_I try_init_udp_I elim!: obind_InrE
    split: option.split_asm packet_type.split_asm prod.split_asm sum.split_asm)

lemma poll_I: "poll_interface D now s = Inr s' \<Longrightarrow> I s \<Longrightarrow> I s'"
  unfolding poll_interface_def Let_def
  by (auto simp: st_update_I dest!: do_waker_acts_I split: prod.split_asm)

lemma drive_once_I:
  assumes s: "I s" and evs: "\<forall>ev\<in>set (batch events). okev ev"
    and r: "drive_once D now packet events s = Inr (res, s')"
  shows "I s'"
proof -
  obtain err s1 where 1: "(case packet of None \<Rightarrow> Inr (None, s) | Some p \<Rightarrow> drive_packet D p s) = Inr (err, s1)"
    and 2: "case err of
        Some e \<Rightarrow> s' = fold drop_event (batch events) s1
      | None \<Rightarrow> (\<exists>s2 s3. poll_interface D now s1 = Inr s2 \<and>
          (case events of None \<Rightarrow> Inr s2 | Some evs \<Rightarrow> drive_events D (events_list evs) s2) = Inr s3 \<and>
          sh_ch s' = sh_ch s3 \<and> sh_wakers s' = sh_wakers s3 \<and> sh_trace s' = sh_trace s3 \<and>
          sh_bufs s' = sh_bufs s3)"
    using r by (auto simp: drive_once_def batch_def Let_def elim!: obind_InrE split: option.split_asm prod.split_asm)
  have "I s1" using 1 s by (auto split: option.split_asm intro: drive_packet_I)
  with 2 evs show ?thesis
    by (cases err; cases events)
      (auto simp: batch_def intro: drop_events_I dest!: poll_I drive_events_I intro: frame)
qed

end

section \<open>A simpler contract\<close>

text \<open>
  Invariants that allow every reply of the right type and every content of the buffers that may be filled: it is
  enough to look at the log and at the store one change at a time.
\<close>

locale stack_effects =
  fixes D :: "('c, 'e, 'l, 'b, 'tcp, 'udp, 'ss, 'if, 'cap, 'ck) stack_deps"
    and I :: "('c, 'e, 'b, 'ss, 'if, 'cap) tcp_stack \<Rightarrow> bool"
    and okre :: "tx_id \<Rightarrow> reply \<Rightarrow> bool"
    and fills :: "buf_id \<Rightarrow> bool"
  assumes fill: "\<lbrakk>I s; sh_ch s' = sh_ch s; sh_wakers s' = sh_wakers s; sh_trace s' = sh_trace s;
      only_fills fills (sh_bufs s) (sh_bufs s')\<rbrakk> \<Longrightarrow> I s'"
    and log: "\<lbrakk>I s; action_ok okre a\<rbrakk> \<Longrightarrow> I (s\<lparr>sh_trace := sh_trace s @ [a]\<rparr>)"
    and sending: "\<lbrakk>I s; ev_ok okre fills ev; send_event D ev s = (r, s')\<rbrakk> \<Longrightarrow> I s' \<and> (r = Sent \<or> r = SendError ev)"
    and parking: "\<lbrakk>I s; waker_ok okre fills f\<rbrakk> \<Longrightarrow> I (s\<lparr>sh_wakers := sh_wakers s @ [Some (wake_once_fn f)]\<rparr>)"
    and taking: "\<lbrakk>I s; w < length (sh_wakers s); spent c\<rbrakk> \<Longrightarrow> I (s\<lparr>sh_wakers := (sh_wakers s)[w := c]\<rparr>)"
    and waiting: "\<lbrakk>I s; w < length (sh_wakers s); sh_wakers s ! w = Some cell; \<not> ao_used cell\<rbrakk>
      \<Longrightarrow> waker_ok okre fills (ao_value cell)"
begin

lemma answer_I: "I s \<Longrightarrow> okre t r \<Longrightarrow> I (answer b t r s)"
  using log[of "drop_buf b s" "Replied t r"] fill[OF log[of s "Dropped_buf b"], of "drop_buf b s"]
  by (simp add: answer_def send_reply_def drop_buf_def)

lemma set_buf_I: "I s \<Longrightarrow> fills b \<Longrightarrow> I (set_buf b v s)"
  by (rule fill[of s]) (simp_all add: set_buf_def)

end

sublocale stack_effects \<subseteq> handler_effects D I "ev_ok okre fills" "waker_ok okre fills" fills
proof
  fix s s' :: "('c, 'e, 'b, 'ss, 'if, 'cap) tcp_stack"
  assume "I s" "sh_ch s' = sh_ch s" "sh_wakers s' = sh_wakers s" "sh_trace s' = sh_trace s"
    "only_fills (\<lambda>_. False) (sh_bufs s) (sh_bufs s')"
  then show "I s'" by (auto intro: fill simp: only_fills_def)
next
  fix s b v
  assume "I s" "fills b"
  then show "I (s\<lparr>sh_bufs := arc_clone b (arc_new b v (sh_bufs s))\<rparr>)" using fill[of s] by (simp add: only_fills_share)
next
  fix s ev t b v r
  assume s: "I s" and "ev_ok okre fills ev" "ev_reqs ev = {#(t, Some b)#}" "fulfils D ev v r v"
  then have "okre t r" by (intro fulfils_ok(1))
  with s show "I (answer b t r s)" by (rule answer_I)
next
  fix s ev t b r and sb sb' :: "'b shared_buf"
  assume s: "I s" and ev: "ev_ok okre fills ev" "incoming ev" "ev_reqs ev = {#(t, Some b)#}"
    "fulfils D ev (sb_inner sb) r (sb_inner sb')"
  show "I (answer b t r (set_buf b sb' s))"
    by (rule answer_I[OF set_buf_I[OF s fulfils_ok(2)[OF ev(4,3,1,2)]] fulfils_ok(1)[OF ev(4,3,1)]])
next
  fix s t r
  assume "I s" "waker_ok okre fills (Wake_shutdown t)"
  then show "I (send_reply t (Reply_unit r) s)" using log[of s "Replied t (Reply_unit r)"] by (simp add: send_reply_def)
next
  fix s t
  assume "I s"
  then show "I (drop_tx t s)" using log[of s "Hung_up t"] by (simp add: drop_tx_def)
next
  fix s b
  assume "I s"
  then show "I (s\<lparr>sh_trace := sh_trace s @ [Dropped_buf b]\<rparr>)" using log[of s "Dropped_buf b"] by simp
qed (auto dest: sending parking taking waiting)

section \<open>Replies have the type of their channel\<close>

text \<open>
  The type of the value that a result channel carries. In Rust the channel is typed; the model's reply
  is a sum, and the types are an invariant.
\<close>

datatype kind = Kind_usize | Kind_from | Kind_unit

fun reply_kind :: "reply \<Rightarrow> kind" where
  "reply_kind (Reply_usize _) = Kind_usize"
| "reply_kind (Reply_from _) = Kind_from"
| "reply_kind (Reply_unit _) = Kind_unit"

definition fits :: "(tx_id \<Rightarrow> kind) \<Rightarrow> tx_id \<Rightarrow> reply \<Rightarrow> bool" where
  "fits K t r \<longleftrightarrow> reply_kind r = K t"

definition typed_state ::
  "('c, operation_event) crossbeam \<Rightarrow> ('c \<Rightarrow> operation_event list) \<Rightarrow> ('c \<Rightarrow> bool) \<Rightarrow> ('c \<Rightarrow> bool) \<Rightarrow> (tx_id \<Rightarrow> kind)
   \<Rightarrow> ('c, 'e, 'b, 'z) shared_scheme \<Rightarrow> bool" where
  "typed_state C q tx rx K s \<longleftrightarrow> crossbeam_laws C q tx rx \<and>
     (\<forall>ev\<in>set (q (nc_chan (sh_ch s))). ev_ok (fits K) (\<lambda>_. True) ev) \<and>
     (\<forall>a. Some a \<in> set (sh_wakers s) \<longrightarrow> \<not> ao_used a \<longrightarrow> waker_ok (fits K) (\<lambda>_. True) (ao_value a)) \<and>
     (\<forall>a\<in>set (sh_trace s). action_ok (fits K) a)"

interpretation typed: stack_effects D "typed_state (d_cb D) q tx rx K" "fits K" "\<lambda>_. True"
proof
  fix s ev r s'
  assume "typed_state (d_cb D) q tx rx K s" "ev_ok (fits K) (\<lambda>_. True) ev" "send_event D ev s = (r, s')"
  then show "typed_state (d_cb D) q tx rx K s' \<and> (r = Sent \<or> r = SendError ev)"
    using crossbeam_sendD[of "d_cb D" q tx rx] crossbeam_send_errD[of "d_cb D" q tx rx]
    by (auto simp: typed_state_def send_event_def notify_send_def split: sum.split_asm)
next
  fix s w c
  assume "typed_state (d_cb D) q tx rx K s" "w < length (sh_wakers s)" "spent c"
  then show "typed_state (d_cb D) q tx rx K (s\<lparr>sh_wakers := (sh_wakers s)[w := c]\<rparr>)"
    by (auto simp: typed_state_def dest!: set_update_subset_insert[THEN subsetD])
qed (auto simp: typed_state_def wake_once_fn_def dest: nth_mem)

section \<open>A closed request channel stays as it is\<close>

definition closed_chan ::
  "('c, operation_event) crossbeam \<Rightarrow> ('c \<Rightarrow> operation_event list) \<Rightarrow> ('c \<Rightarrow> bool) \<Rightarrow> ('c \<Rightarrow> bool)
   \<Rightarrow> ('c, 'e, 'b, 'z) shared_scheme \<Rightarrow> bool" where
  "closed_chan C q tx rx s \<longleftrightarrow> crossbeam_laws C q tx rx \<and> q (nc_chan (sh_ch s)) = [] \<and> \<not> rx (nc_chan (sh_ch s))"

lemma any_ok [simp]: "ev_ok (\<lambda>_ _. True) (\<lambda>_. True) ev" "waker_ok (\<lambda>_ _. True) (\<lambda>_. True) f"
  by (cases ev; simp) (cases f; simp)

interpretation closed: stack_effects D "closed_chan (d_cb D) q tx rx" "\<lambda>_ _. True" "\<lambda>_. True"
proof
  fix s ev r s'
  assume "closed_chan (d_cb D) q tx rx s" "send_event D ev s = (r, s')"
  then show "closed_chan (d_cb D) q tx rx s' \<and> (r = Sent \<or> r = SendError ev)"
    using crossbeam_send_err[of "d_cb D" q tx rx] by (auto simp: closed_chan_def send_event_def notify_send_def)
qed (auto simp: closed_chan_def)

section \<open>The senders of the request channel\<close>

definition open_chan ::
  "('c, operation_event) crossbeam \<Rightarrow> ('c \<Rightarrow> operation_event list) \<Rightarrow> ('c \<Rightarrow> bool) \<Rightarrow> ('c \<Rightarrow> bool)
   \<Rightarrow> ('c, 'e, 'b, 'z) shared_scheme \<Rightarrow> bool" where
  "open_chan C q tx rx s \<longleftrightarrow> crossbeam_laws C q tx rx \<and> tx (nc_chan (sh_ch s))"

interpretation opened: stack_effects D "open_chan (d_cb D) q tx rx" "\<lambda>_ _. True" "\<lambda>_. True"
proof
  fix s ev r s'
  assume "open_chan (d_cb D) q tx rx s" "send_event D ev s = (r, s')"
  then show "open_chan (d_cb D) q tx rx s' \<and> (r = Sent \<or> r = SendError ev)"
    using crossbeam_sendD[of "d_cb D" q tx rx] crossbeam_send_errD[of "d_cb D" q tx rx]
    by (auto simp: open_chan_def send_event_def notify_send_def split: sum.split_asm)
qed (auto simp: open_chan_def)

end
