(* ===== verification/Progress.thy ===== *)
theory Progress
  imports System Effects
begin

text \<open>
  Two more invariants of the whole program. Every reply has the type that the waiting operation
  expects, so a suspended operation whose channel was answered or hung up can always be resumed. And a
  program whose stack and event generator are gone holds no request any more, so that every
  operation has been answered or hung up: none waits for ever.
\<close>

section \<open>Steps of the user through the interface of the effects\<close>

context handler_effects
begin

lemma op_start_I:
  assumes C: "crossbeam_laws (d_cb D) q tx rx" and b: "sh_bufs s b = None"
    and r: "op_start D p buf b t s = Inr (w, s')" and ev: "okev (op_event p b t)" and new: "fresh b" and s: "I s"
  shows "I s'"
proof -
  have "I (share_buf b buf s)" using lend[OF s b new] by (simp add: share_buf_def)
  then have "I (snd (send_event D (op_event p b t) (share_buf b buf s)))" by (rule send_I[OF _ ev])
  with r hangup_I[OF s] show ?thesis
    by (auto simp: op_start_eq[OF C b] split: prod.split_asm send_result.split_asm)
qed

lemma shutdown_start_I:
  assumes r: "shutdown_start D st t s = Inr (w, s')" and ev: "okev (Shutdown (Typed_Tcp (ts_handle st)) t)" and s: "I s"
  shows "I s'"
  using r sent_I[OF _ ev s] unfolding shutdown_start_def
  by (auto intro: hangup_I split: prod.split_asm send_result.split_asm operation_event.split_asm)

lemma drops_I: "I s \<Longrightarrow> I (tcp_stream_drop D st s)" "I s \<Longrightarrow> I (udp_socket_drop D u s)"
  by (simp_all add: tcp_stream_drop_def udp_socket_drop_def send_I control)

lemma drop_ref_I: "I s \<Longrightarrow> I (drop_ref b s)"
  by (rule frame[of s]) (simp_all add: drop_ref_def)

lemma op_finish_I: "op_finish p b r s = Some (Inr (res, buf, s')) \<Longrightarrow> I s \<Longrightarrow> I s'"
  by (drule op_finish_cast) (auto intro: frame)

lemma generator_drop_I:
  "I (s\<lparr>sh_ch := (sh_ch s)\<lparr>nc_chan := snd (cb_drop_receiver (d_cb D) (nc_chan (sh_ch s)))\<rparr>\<rparr>) \<Longrightarrow> I (generator_drop D s)"
  by (cases "cb_drop_receiver (d_cb D) (nc_chan (sh_ch s))") (simp add: generator_drop_def drop_events_I)

lemma stack_drop_I: "stack_drop D ws s = Inr s' \<Longrightarrow> I s \<Longrightarrow> I s'"
  unfolding stack_drop_def by (rule do_waker_acts_I)

text \<open>An invariant that allows the requests, channels and buffers that a step may make is kept by the step.\<close>

lemma user_step_I:
  assumes C: "crossbeam_laws (d_cb D) q tx rx"
    and new: "\<And>b. sh_bufs (sy_stack y) b = None \<Longrightarrow> fresh b"
    and ops: "\<And>p b t. sh_bufs (sy_stack y) b = None \<Longrightarrow> t \<notin> sy_issued y \<Longrightarrow> okev (op_event p b t)"
    and shuts: "\<And>th t. t \<notin> sy_issued y \<Longrightarrow> okev (Shutdown th t)"
    and step: "user_step D y y'" and s: "I (sy_stack y)"
  shows "I (sy_stack y')"
  using step
proof cases
  case (start p b t buf w s')
  with op_start_I[OF C start(3,5) ops[OF start(3,4)] new[OF start(3)] s] show ?thesis by simp
next
  case (start_shutdown st t w s')
  with shutdown_start_I[OF start_shutdown(4) shuts[OF start_shutdown(3)] s] show ?thesis by simp
next
  case (complete fs f fs' r res buf s')
  with op_finish_I[OF complete(4) s] show ?thesis by simp
qed (use s in \<open>simp_all add: drop_ref_I drops_I\<close>)

lemma sys_step_I:
  assumes C: "crossbeam_laws (d_cb D) q tx rx"
    and new: "\<And>b. sh_bufs (sy_stack y) b = None \<Longrightarrow> fresh b"
    and ops: "\<And>p b t. sh_bufs (sy_stack y) b = None \<Longrightarrow> t \<notin> sy_issued y \<Longrightarrow> okev (op_event p b t)"
    and shuts: "\<And>th t. t \<notin> sy_issued y \<Longrightarrow> okev (Shutdown th t)"
    and evs: "\<forall>ev\<in>set (handed (sy_batches y)). okev ev"
    and poll: "\<And>r pc ch. generate_poll (d_cb D) (d_ev D) (sy_generator y, sh_ch (sy_stack y)) = Some (r, pc, ch) \<Longrightarrow>
      r = Pending \<or> (\<exists>evs. r = Poll_ready (Inr evs)) \<Longrightarrow> I ((sy_stack y)\<lparr>sh_ch := ch\<rparr>)"
    and gen: "I ((sy_stack y)\<lparr>sh_ch := (sh_ch (sy_stack y))\<lparr>nc_chan :=
      snd (cb_drop_receiver (d_cb D) (nc_chan (sh_ch (sy_stack y))))\<rparr>\<rparr>)"
    and step: "sys_step D y y'" and s: "I (sy_stack y)"
  shows "I (sy_stack y')"
  using step
proof cases
  case user
  show ?thesis by (rule user_step_I[OF C new ops shuts user s])
next
  case (generate_pending pc ch)
  with poll[OF generate_pending(3)] show ?thesis by simp
next
  case (generate_ready evs pc ch)
  with poll[OF generate_ready(3)] show ?thesis by simp
next
  case (turn bs evs' bs' now packet r s')
  with drive_once_I[OF s _ turn(4)] evs show ?thesis by simp
next
  case (idle_turn now packet r s')
  with drive_once_I[OF s _ idle_turn(3)] show ?thesis by simp
next
  case (discard bs evs' bs')
  with drop_events_I[OF s] show ?thesis by simp
next
  case (drop_stack ws s')
  with stack_drop_I[OF drop_stack(4) s] show ?thesis by simp
next
  case drop_generator
  with generator_drop_I[OF gen] show ?thesis by simp
qed

end

section \<open>Types\<close>

fun op_kind :: "op \<Rightarrow> kind" where
  "op_kind (Op_read _) = Kind_usize"
| "op_kind (Op_write _) = Kind_usize"
| "op_kind (Op_send _ _) = Kind_usize"
| "op_kind (Op_recv _) = Kind_from"

definition typed_sys ::
  "('c, 'e, 'l, 'b, 'tcp, 'udp, 'ss, 'if, 'cap, 'ck) stack_deps \<Rightarrow> ('c \<Rightarrow> operation_event list) \<Rightarrow> ('c \<Rightarrow> bool)
   \<Rightarrow> ('c \<Rightarrow> bool) \<Rightarrow> (tx_id \<Rightarrow> kind) \<Rightarrow> ('c, 'e, 'l, 'b, 'ss, 'if, 'cap) sys \<Rightarrow> bool" where
  "typed_sys D q tx rx K y \<longleftrightarrow> typed_state (d_cb D) q tx rx K (sy_stack y) \<and>
     (\<forall>ev\<in>set (handed (sy_batches y)). ev_ok (fits K) (\<lambda>_. True) ev) \<and>
     (\<forall>f\<in>set (sy_futures y). K (fu_tx f) = op_kind (fu_op f))"

text \<open>A new channel may get any type: nothing that exists mentions it.\<close>

lemma ev_ok_fresh: "tx_count (ev_reqs ev) t = 0 \<Longrightarrow> ev_ok (fits (K(t := k))) (\<lambda>_. True) ev \<longleftrightarrow> ev_ok (fits K) (\<lambda>_. True) ev"
  by (cases ev) (auto simp: fits_def)

lemma waker_ok_fresh: "tx_count (waker_reqs f) t = 0 \<Longrightarrow> waker_ok (fits (K(t := k))) (\<lambda>_. True) f \<longleftrightarrow> waker_ok (fits K) (\<lambda>_. True) f"
  by (cases f) (auto simp: fits_def)

lemma action_ok_fresh: "\<not> resolves t a \<Longrightarrow> action_ok (fits (K(t := k))) a \<longleftrightarrow> action_ok (fits K) a"
  by (cases a) (auto simp: fits_def)

lemma tx_count_sum: "tx_count (sum_list Ms) t = 0 \<Longrightarrow> M \<in> set Ms \<Longrightarrow> tx_count M t = 0"
  by (induction Ms) auto

lemma events_fresh:
  assumes "tx_count (events_reqs evs) t = 0" "ev \<in> set evs"
  shows "tx_count (ev_reqs ev) t = 0"
  using tx_count_sum[of "map ev_reqs evs"] assms by (auto simp: events_reqs_def)

lemma typed_fresh:
  assumes inv: "sys_inv D q y" and t: "t \<notin> sy_issued y" and ty: "typed_sys D q tx rx K y"
  shows "typed_sys D q tx rx (K(t := k)) y"
proof -
  note inv' = sys_invD[OF inv]
  let ?s = "sy_stack y"
  have "tx_count (held q ?s + events_reqs (handed (sy_batches y))) t + resolved (sh_trace ?s) t = 0"
    using inv'(6)[unfolded channels_ok_def, rule_format, of t] t by simp
  then have 0: "tx_count (events_reqs (q (nc_chan (sh_ch ?s)))) t = 0" "tx_count (sum_list (map cell_reqs (sh_wakers ?s))) t = 0"
    "tx_count (events_reqs (handed (sy_batches y))) t = 0" "resolved (sh_trace ?s) t = 0"
    by (simp_all add: held_def)
  have wk: "tx_count (waker_reqs (ao_value a)) t = 0" if "Some a \<in> set (sh_wakers ?s)" "\<not> ao_used a" for a
    using tx_count_sum[OF 0(2), of "cell_reqs (Some a)"] that by (simp del: cell_reqs_simps) (force simp: cell_reqs_simps)
  have "\<not> resolves t a" if "a \<in> set (sh_trace ?s)" for a
    using 0(4) that by (auto simp: resolved_def filter_empty_conv)
  moreover have "fu_tx f \<noteq> t" if "f \<in> set (sy_futures y)" for f using inv'(7) that t by (auto simp: futures_ok_def)
  ultimately show ?thesis
    using ty events_fresh[OF 0(1)] events_fresh[OF 0(3)] wk
    by (simp add: typed_sys_def typed_state_def ev_ok_fresh waker_ok_fresh action_ok_fresh)
qed

lemma op_event_typed: "K t = op_kind p \<Longrightarrow> ev_ok (fits K) (\<lambda>_. True) (op_event p b t)"
  by (cases p) (simp_all add: fits_def)

lemma typed_user_step:
  assumes laws: "deps_laws D q tx rx" and inv: "sys_inv D q y" and step: "user_step D y y'" and ty: "typed_sys D q tx rx K y"
  shows "\<exists>K'. typed_sys D q tx rx K' y'"
proof -
  note C = deps_lawsD(1)[OF laws]
  have st: "typed_state (d_cb D) q tx rx K (sy_stack y)" and evs: "\<forall>ev\<in>set (handed (sy_batches y)). ev_ok (fits K) (\<lambda>_. True) ev"
    using ty by (simp_all add: typed_sys_def)
  note same = ty[unfolded typed_sys_def]
  show ?thesis
    using step
  proof cases
    case (start p b t buf w s')
    let ?K = "K(t := op_kind p)"
    have K: "typed_sys D q tx rx ?K y" by (rule typed_fresh[OF inv start(4) ty])
    have "typed_state (d_cb D) q tx rx ?K s'"
      by (rule typed.op_start_I[OF C start(3,5)]) (use K in \<open>simp_all add: typed_sys_def op_event_typed\<close>)
    with K show ?thesis by (intro exI[of _ ?K]) (auto simp: start(1) typed_sys_def)
  next
    case (start_shutdown st t w s')
    let ?K = "K(t := Kind_unit)"
    have K: "typed_sys D q tx rx ?K y" by (rule typed_fresh[OF inv start_shutdown(3) ty])
    have "typed_state (d_cb D) q tx rx ?K s'"
      by (rule typed.shutdown_start_I[OF start_shutdown(4)]) (use K in \<open>simp_all add: typed_sys_def fits_def\<close>)
    with K show ?thesis by (intro exI[of _ ?K]) (auto simp: start_shutdown(1) typed_sys_def)
  next
    case (complete fs f fs' r res buf s')
    with same typed.op_finish_I[OF complete(4) st] show ?thesis by (intro exI[of _ K]) (auto simp: typed_sys_def)
  next
    case (cancel fs f fs')
    with same typed.drop_ref_I[OF st] show ?thesis by (intro exI[of _ K]) (auto simp: typed_sys_def)
  next
    case (drop_tcp ts st' ts')
    with same typed.drops_I(1)[OF st] show ?thesis by (intro exI[of _ K]) (auto simp: typed_sys_def)
  next
    case (drop_udp us u us')
    with same typed.drops_I(2)[OF st] show ?thesis by (intro exI[of _ K]) (auto simp: typed_sys_def)
  next
    case (accept_tcp st ac)
    with same show ?thesis by (intro exI[of _ K]) (auto simp: typed_sys_def)
  next
    case (accept_udp u ac)
    with same show ?thesis by (intro exI[of _ K]) (auto simp: typed_sys_def)
  qed (use same in \<open>auto simp: typed_sys_def\<close>)
qed

lemma typed_step:
  assumes laws: "deps_laws D q tx rx" and inv: "sys_inv D q y" and step: "sys_step D y y'" and ty: "typed_sys D q tx rx K y"
  shows "\<exists>K'. typed_sys D q tx rx K' y'"
proof -
  note C = deps_lawsD(1)[OF laws]
  have st: "typed_state (d_cb D) q tx rx K (sy_stack y)" using ty by (simp add: typed_sys_def)
  note same = ty[unfolded typed_sys_def]
  show ?thesis
    using step
  proof cases
    case user
    then show ?thesis using typed_user_step[OF laws inv _ ty] by blast
  next
    case (generate_pending pc ch)
    with same generate_pending_chan[OF generate_pending(3)] show ?thesis
      by (intro exI[of _ K]) (auto simp: typed_sys_def typed_state_def)
  next
    case (generate_ready evs pc ch)
    with same generate_ready_chan[OF C generate_ready(3)] show ?thesis
      by (intro exI[of _ K]) (auto simp: typed_sys_def typed_state_def)
  next
    case (turn bs evs bs' now packet r s')
    with same typed.drive_once_I[OF st _ turn(4)] show ?thesis by (intro exI[of _ K]) (auto simp: typed_sys_def)
  next
    case (idle_turn now packet r s')
    with same typed.drive_once_I[OF st _ idle_turn(3)] show ?thesis by (intro exI[of _ K]) (auto simp: typed_sys_def)
  next
    case (discard bs evs bs')
    with same typed.drop_events_I[OF st] show ?thesis by (intro exI[of _ K]) (auto simp: typed_sys_def)
  next
    case (drop_stack ws s')
    with same typed.stack_drop_I[OF drop_stack(4) st] show ?thesis by (intro exI[of _ K]) (auto simp: typed_sys_def)
  next
    case drop_generator
    have "typed_state (d_cb D) q tx rx K (generator_drop D (sy_stack y))"
      by (rule typed.generator_drop_I)
        (use crossbeam_drop[OF C, of "nc_chan (sh_ch (sy_stack y))"] st in \<open>auto simp: typed_state_def\<close>)
    with same show ?thesis by (intro exI[of _ K]) (simp add: drop_generator(1) typed_sys_def)
  qed
qed

lemma typed_reach:
  assumes "deps_laws D q tx rx" "iface_laws B (d_udp D) (d_set D) (d_iface D)" "sys_reach D y"
  shows "\<exists>K. typed_sys D q tx rx K y"
  using assms(3)
proof (induction rule: sys_reach.induct)
  case (sys_start seed now b s ta ua)
  obtain v4 v6 n m k where "stack_new D seed now v4 v6 n m k = Inr (Inr (s, ta, ua))"
    using sys_start by (rule build_okE)
  from stack_new_start[OF assms(1) this] deps_lawsD(1)[OF assms(1)] show ?case
    by (auto simp: typed_sys_def typed_state_def sys_init_def)
next
  case (sys_next y y')
  then show ?case using typed_step[OF assms(1) sys_reach_inv[OF assms(1,2)]] by blast
qed

section \<open>When the stack and the generator are gone\<close>

text \<open>
  A stack that was dropped has released its wakers, and nobody registers new ones; a channel whose
  receiver was dropped is empty and stays so.
\<close>

definition gone_sys ::
  "('c, 'e, 'l, 'b, 'tcp, 'udp, 'ss, 'if, 'cap, 'ck) stack_deps \<Rightarrow> ('c \<Rightarrow> operation_event list) \<Rightarrow> ('c \<Rightarrow> bool)
   \<Rightarrow> ('c \<Rightarrow> bool) \<Rightarrow> ('c, 'e, 'l, 'b, 'ss, 'if, 'cap) sys \<Rightarrow> bool" where
  "gone_sys D q tx rx y \<longleftrightarrow>
     (sy_listening y \<or> closed_chan (d_cb D) q tx rx (sy_stack y)) \<and>
     (sy_alive y \<or> (\<forall>c\<in>set (sh_wakers (sy_stack y)). c = None))"

lemma effects_wakers [simp]:
  "sh_wakers (drop_buf b s) = sh_wakers s" "sh_wakers (send_reply t r s) = sh_wakers s" "sh_wakers (drop_tx t s) = sh_wakers s"
  "sh_wakers (drop_ref b s) = sh_wakers s" "sh_wakers (share_buf b buf s) = sh_wakers s"
  by (simp_all add: drop_buf_def send_reply_def drop_tx_def drop_ref_def share_buf_def)

lemma drops_wakers [simp]:
  "sh_wakers (drop_event ev s) = sh_wakers s" "sh_wakers (drop_waker_fn f s) = sh_wakers s"
  "sh_wakers (fold drop_event evs s) = sh_wakers s"
proof -
  show e: "sh_wakers (drop_event ev s) = sh_wakers s" for ev s by (cases ev) simp_all
  show "sh_wakers (drop_waker_fn f s) = sh_wakers s" by (cases f) simp_all
  show "sh_wakers (fold drop_event evs s) = sh_wakers s" by (induction evs arbitrary: s) (simp_all add: e)
qed

lemma send_event_wakers: "send_event D ev s = (r, s') \<Longrightarrow> sh_wakers s' = sh_wakers s"
  by (auto simp: send_event_def split: prod.split_asm)

lemma op_start_wakers:
  assumes "crossbeam_laws (d_cb D) q tx rx" "sh_bufs s b = None" "op_start D p buf b t s = Inr (w, s')"
  shows "sh_wakers s' = sh_wakers s"
  using assms(3)
  by (auto simp: op_start_eq[OF assms(1,2)] dest!: send_event_wakers split: prod.split_asm send_result.split_asm)

lemma shutdown_start_wakers: "shutdown_start D st t s = Inr (w, s') \<Longrightarrow> sh_wakers s' = sh_wakers s"
  by (auto simp: shutdown_start_def dest!: send_event_wakers
    split: prod.split_asm send_result.split_asm operation_event.split_asm)

lemma release_wakers: "do_waker_act D (Released w) s = Inr s' \<Longrightarrow> sh_wakers s' = (sh_wakers s)[w := None]"
proof (cases "w < length (sh_wakers s)")
  case True
  assume "do_waker_act D (Released w) s = Inr s'"
  with True list_update_id[of "sh_wakers s" w] show ?thesis
    by (cases "sh_wakers s ! w") (auto simp: Let_def split: if_splits)
qed (auto simp: list_update_beyond)

lemma stack_drop_wakers:
  assumes "stack_drop D ws s = Inr s'" "i < length (sh_wakers s)" "i \<in> set ws \<or> sh_wakers s ! i = None"
  shows "length (sh_wakers s') = length (sh_wakers s) \<and> sh_wakers s' ! i = None"
  using assms
proof (induction ws arbitrary: s)
  case (Cons w ws)
  then obtain s1 where s1: "do_waker_act D (Released w) s = Inr s1" "stack_drop D ws s1 = Inr s'"
    by (auto simp: stack_drop_def do_waker_acts_def split: sum.split_asm)
  from release_wakers[OF s1(1)] Cons.prems Cons.IH[OF s1(2)] show ?case
    by (cases "i = w") (auto simp: nth_list_update)
qed (simp add: stack_drop_def do_waker_acts_def)

lemma stack_drop_all:
  assumes "stack_drop D ws s = Inr s'" "set ws = {..<length (sh_wakers s)}"
  shows "\<forall>c\<in>set (sh_wakers s'). c = None"
proof (cases "sh_wakers s = []")
  case True
  with assms show ?thesis by (auto simp: stack_drop_def do_waker_acts_def)
next
  case False
  then have "length (sh_wakers s') = length (sh_wakers s)" using stack_drop_wakers[OF assms(1), of 0] assms(2) by simp
  then show ?thesis using stack_drop_wakers[OF assms(1)] assms(2) by (auto simp: in_set_conv_nth)
qed

lemma user_step_wakers:
  assumes C: "crossbeam_laws (d_cb D) q tx rx" and step: "user_step D y y'"
  shows "sh_wakers (sy_stack y') = sh_wakers (sy_stack y) \<and> sy_alive y' = sy_alive y \<and> sy_listening y' = sy_listening y"
  using step
proof cases
  case (start p b t buf w s')
  with op_start_wakers[OF C start(3,5)] show ?thesis by simp
next
  case (start_shutdown st t w s')
  with shutdown_start_wakers[OF start_shutdown(4)] show ?thesis by simp
next
  case (complete fs f fs' r res buf s')
  with op_finish_cast[OF complete(4)] show ?thesis by simp
qed (simp_all add: tcp_stream_drop_def udp_socket_drop_def send_event_wakers[OF surjective_pairing])

lemma gone_user_step:
  assumes laws: "deps_laws D q tx rx" and step: "user_step D y y'" and g: "gone_sys D q tx rx y"
  shows "gone_sys D q tx rx y'"
  using user_step_wakers[OF deps_lawsD(1)[OF laws] step] closed.user_step_I[OF deps_lawsD(1)[OF laws] TrueI any_ok(1) any_ok(1) step] g
  by (auto simp: gone_sys_def)

lemma gone_step:
  assumes laws: "deps_laws D q tx rx" and step: "sys_step D y y'" and g: "gone_sys D q tx rx y"
  shows "gone_sys D q tx rx y'"
proof -
  note C = deps_lawsD(1)[OF laws] and same = g[unfolded gone_sys_def]
  show ?thesis
    using step
  proof cases
    case user
    then show ?thesis by (rule gone_user_step[OF laws _ g])
  next
    case (turn bs evs bs' now packet r s')
    with same closed.drive_once_I[OF _ _ turn(4)] show ?thesis by (auto simp: gone_sys_def)
  next
    case (idle_turn now packet r s')
    with same closed.drive_once_I[OF _ _ idle_turn(3)] show ?thesis by (auto simp: gone_sys_def)
  next
    case (discard bs evs bs')
    with same closed.drop_events_I[of D q tx rx "sy_stack y"] show ?thesis by (auto simp: gone_sys_def)
  next
    case (drop_stack ws s')
    with same stack_drop_all[OF drop_stack(4,3)] closed.stack_drop_I[OF drop_stack(4)] show ?thesis
      by (auto simp: gone_sys_def)
  next
    case drop_generator
    have "closed_chan (d_cb D) q tx rx (generator_drop D (sy_stack y))"
      by (rule closed.generator_drop_I)
        (use crossbeam_drop[OF C, of "nc_chan (sh_ch (sy_stack y))"] C in \<open>auto simp: closed_chan_def\<close>)
    moreover have "sh_wakers (generator_drop D (sy_stack y)) = sh_wakers (sy_stack y)"
      by (simp add: generator_drop_def split: prod.split)
    ultimately show ?thesis using same by (simp add: drop_generator(1) gone_sys_def)
  qed (use same in \<open>auto simp: gone_sys_def\<close>)
qed

lemma gone_reach:
  assumes "deps_laws D q tx rx" "sys_reach D y"
  shows "gone_sys D q tx rx y"
  using assms(2)
proof (induction rule: sys_reach.induct)
  case (sys_next y y')
  then show ?case using gone_step[OF assms(1)] by blast
qed (simp add: gone_sys_def sys_init_def)

lemma sum_list_all_empty: "\<forall>x\<in>set xs. f x = {#} \<Longrightarrow> sum_list (map f xs) = {#}"
  by (induction xs) auto

lemma gone_in_flight:
  assumes "gone_sys D q tx rx y" "\<not> sy_alive y" "\<not> sy_listening y" "sy_batches y = []"
  shows "in_flight q y = {#}"
proof -
  have "sum_list (map cell_reqs (sh_wakers (sy_stack y))) = {#}"
    using assms(1,2) by (intro sum_list_all_empty) (auto simp: gone_sys_def)
  with assms show ?thesis by (simp add: gone_sys_def in_flight_def held_def closed_chan_def)
qed

section \<open>A sender is left\<close>

text \<open>The acceptors hold senders of the request channel, so the generator never finds it disconnected.\<close>

lemma senders_left:
  assumes laws: "deps_laws D q tx rx" and "sys_reach D y"
  shows "open_chan (d_cb D) q tx rx (sy_stack y)"
  using assms(2)
proof (induction rule: sys_reach.induct)
  case (sys_start seed now b s ta ua)
  obtain v4 v6 n m k where "stack_new D seed now v4 v6 n m k = Inr (Inr (s, ta, ua))"
    using sys_start by (rule build_okE)
  then have "nc_chan (sh_ch s) = cb_unbounded (d_cb D)"
    by (auto simp: stack_new_def notify_new_def Let_def elim!: obind_InrE split: sum.split_asm)
  with deps_lawsD(1)[OF laws] show ?case by (simp add: sys_init_def open_chan_def crossbeam_laws_def)
next
  case (sys_next y y')
  note C = deps_lawsD(1)[OF laws] and s = sys_next.IH
  show ?case
  proof (rule opened.sys_step_I[OF C _ _ _ _ _ _ sys_next.hyps(2) s])
    fix r pc ch
    assume "generate_poll (d_cb D) (d_ev D) (sy_generator y, sh_ch (sy_stack y)) = Some (r, pc, ch)"
      "r = Pending \<or> (\<exists>evs. r = Poll_ready (Inr evs))"
    with s show "open_chan (d_cb D) q tx rx ((sy_stack y)\<lparr>sh_ch := ch\<rparr>)"
      by (auto simp: open_chan_def dest: generate_pending_chan generate_ready_tx[OF C])
  qed (use crossbeam_drop[OF C, of "nc_chan (sh_ch (sy_stack y))"] s in \<open>auto simp: open_chan_def\<close>)
qed

section \<open>Resuming\<close>

text \<open>What the result channel of a suspended operation yields to \<^verbatim>\<open>recv_async\<close>, when it yields anything.\<close>

definition received :: "action list \<Rightarrow> tx_id \<Rightarrow> reply option \<Rightarrow> bool" where
  "received tr t r \<longleftrightarrow> (case r of None \<Rightarrow> Hung_up t \<in> set tr | Some a \<Rightarrow> Replied t a \<in> set tr)"

lemma resolved_received: "0 < resolved tr t \<Longrightarrow> \<exists>r. received tr t r"
proof -
  assume "0 < resolved tr t"
  then have "filter (resolves t) tr \<noteq> []" unfolding resolved_def by blast
  then obtain a where a: "a \<in> set tr" "resolves t a" by (metis filter_empty_conv)
  have "received tr t (case a of Replied _ r \<Rightarrow> Some r | _ \<Rightarrow> None)" by (insert a, cases a) (auto simp: received_def)
  then show ?thesis by blast
qed

lemma op_finish_typed:
  assumes "r = None \<or> (\<exists>a. r = Some a \<and> reply_kind a = op_kind p)"
  shows "op_finish p b r s \<noteq> None"
  using assms by (cases p; cases r; cases "the r") auto

text \<open>Every resolved operation can be resumed, whatever it receives, and hands its buffer back.\<close>

lemma resume_returns:
  assumes "deps_laws D q tx rx" "iface_laws B (d_udp D) (d_set D) (d_iface D)" "sys_reach D y"
    and f: "f \<in> set (sy_futures y)" and r: "received (sh_trace (sy_stack y)) (fu_tx f) r"
  shows "\<exists>res buf s'. op_finish (fu_op f) (fu_buf f) r (sy_stack y) = Some (Inr (res, buf, s'))"
proof -
  obtain K where K: "typed_sys D q tx rx K y" using typed_reach[OF assms(1-3)] by blast
  then have "r = None \<or> (\<exists>a. r = Some a \<and> reply_kind a = op_kind (fu_op f))"
    using f r by (cases r) (force simp: received_def typed_sys_def typed_state_def fits_def)+
  then obtain x where x: "op_finish (fu_op f) (fu_buf f) r (sy_stack y) = Some x" using op_finish_typed by blast
  have "0 < resolved (sh_trace (sy_stack y)) (fu_tx f)"
    using r by (intro resolved_pos) (auto simp: received_def split: option.split_asm)
  from op_finish_returns[OF resolved_last_ref[OF sys_reach_inv[OF assms(1-3)] f this] x] x show ?thesis
    by (auto simp: returns_def)
qed

end
