(* ===== verification/Moments.thy ===== *)
theory Moments
  imports Progress
begin

text \<open>
  A turn of the stack runs on a thread of its own, and a user may be woken in the middle of it: as soon as the
  answer is in the result channel, the operation takes its buffer back, whatever the turn does next. The log
  has the drops of references and the answers in the order in which they happen, each written by the definition
  that has the effect. So the moments of a run are the prefixes of the log, also inside a step of the composed system.
\<close>

section \<open>The shared state at a moment\<close>

text \<open>
  After the first \<open>n\<close> entries of the log the references that are dropped later are still there.
\<close>

definition at_moment :: "nat \<Rightarrow> ('c, 'e, 'b, 'z) shared_scheme \<Rightarrow> ('c, 'e, 'b, 'z) shared_scheme" where
  "at_moment n s = s\<lparr>
     sh_bufs := (\<lambda>b. map_option (\<lambda>c. c\<lparr>arc_strong := arc_strong c + count_list (drop n (sh_trace s)) (Dropped_buf b)\<rparr>)
       (sh_bufs s b)),
     sh_trace := take n (sh_trace s)\<rparr>"

text \<open>
  This is what another thread finds between the two effects of an answer: before the drop both references are there,
  after it one is.
\<close>

lemma moment_in_answer:
  assumes "sh_bufs s b = Some c" "arc_strong c = 2"
  shows "at_moment (length (sh_trace s)) (send_reply t r (drop_buf b s)) = s"
    "at_moment (Suc (length (sh_trace s))) (send_reply t r (drop_buf b s)) = drop_buf b s"
  using assms
  by (auto simp: at_moment_def send_reply_def drop_buf_def arc_drop_def fun_eq_iff option.map_ident intro!: shared.equality
    split: option.split)

section \<open>References are dropped before the answer\<close>

text \<open>Once the channel of an operation is resolved, no reference to its buffer is dropped any more.\<close>

definition prompt :: "action list \<Rightarrow> future \<Rightarrow> bool" where
  "prompt tr f \<longleftrightarrow> (\<forall>n. 0 < resolved (take n tr) (fu_tx f) \<longrightarrow> Dropped_buf (fu_buf f) \<notin> set (drop n tr))"

lemma resolved_take: "resolved (take n tr) t \<le> resolved tr t"
  using resolved_simps(2)[of "take n tr" "drop n tr" t] by simp

lemma prompt_snoc:
  assumes "prompt tr f" "a = Dropped_buf (fu_buf f) \<Longrightarrow> resolved tr (fu_tx f) = 0"
  shows "prompt (tr @ [a]) f"
  unfolding prompt_def
proof (intro allI impI)
  fix n assume r: "0 < resolved (take n (tr @ [a])) (fu_tx f)"
  show "Dropped_buf (fu_buf f) \<notin> set (drop n (tr @ [a]))"
  proof (cases "n \<le> length tr")
    case True
    with r have "0 < resolved (take n tr) (fu_tx f)" by simp
    moreover from this have "a \<noteq> Dropped_buf (fu_buf f)" using assms(2) resolved_take[of n tr "fu_tx f"] by auto
    ultimately show ?thesis using assms(1) True by (auto simp: prompt_def)
  qed simp
qed

lemma prompt_hang_ups: "prompt tr f \<Longrightarrow> prompt (tr @ map Hung_up ts) f"
proof (induction ts rule: rev_induct)
  case (snoc t ts)
  then show ?case using prompt_snoc[of "tr @ map Hung_up ts" f "Hung_up t"] by simp
qed simp

text \<open>Whole blocks keep it: the request that leaves with the buffer is the operation's own, and it leaves once.\<close>

lemma prompt_blocks:
  assumes "block_trace d M" "prompt tr f" "\<And>r. r \<in># M \<Longrightarrow> snd r = Some (fu_buf f) \<Longrightarrow> fst r = fu_tx f"
    and "resolved tr (fu_tx f) + tx_count M (fu_tx f) \<le> 1"
  shows "prompt (tr @ d) f"
  using assms(1,3,4)
proof (induction rule: block_trace.induct)
  case (bt_reply_buf d M b t r)
  then have "prompt (tr @ d) f" by (simp split: if_split_asm)
  moreover have "resolved (tr @ d) (fu_tx f) = 0" if "b = fu_buf f"
    using bt_reply_buf.prems(1)[of "(t, Some b)"] bt_reply_buf.prems(2) block_trace_resolved[OF bt_reply_buf.hyps] that by simp
  ultimately show ?case using prompt_snoc[of "tr @ d @ [Dropped_buf b]" f "Replied t r"] prompt_snoc[of "tr @ d" f "Dropped_buf b"] by simp
next
  case (bt_hangup_buf d M b t)
  then have "prompt (tr @ d) f" by (simp split: if_split_asm)
  moreover have "resolved (tr @ d) (fu_tx f) = 0" if "b = fu_buf f"
    using bt_hangup_buf.prems(1)[of "(t, Some b)"] bt_hangup_buf.prems(2) block_trace_resolved[OF bt_hangup_buf.hyps] that by simp
  ultimately show ?case using prompt_snoc[of "tr @ d @ [Dropped_buf b]" f "Hung_up t"] prompt_snoc[of "tr @ d" f "Dropped_buf b"] by simp
next
  case (bt_reply d M t r)
  then show ?case using prompt_snoc[of "tr @ d" f "Replied t r"] by (auto split: if_split_asm)
next
  case (bt_hangup d M t)
  then show ?case using prompt_snoc[of "tr @ d" f "Hung_up t"] by (auto split: if_split_asm)
qed (simp add: assms(2))

lemma prompt_accounts:
  assumes acc: "accounts q R s R' s'" and f: "futures_ok fs I (held q s + R)" "f \<in> set fs"
    and ch: "channels_ok I (held q s + R) (sh_trace s)" and p: "prompt (sh_trace s) f"
  shows "prompt (sh_trace s') f"
proof -
  from acc obtain d M where d: "sh_trace s' = sh_trace s @ d" "block_trace d M" "held q s' + R' + M = held q s + R"
    unfolding accounts_def by blast
  have M: "M \<subseteq># held q s + R" using d(3) by (metis mset_subset_eq_add_right)
  then have "fst r = fu_tx f" if "r \<in># M" "snd r = Some (fu_buf f)" for r
    using f that mset_subset_eqD[OF M that(1)] unfolding futures_ok_def by blast
  moreover have "tx_count M (fu_tx f) \<le> tx_count (held q s + R) (fu_tx f)"
    unfolding tx_count_def by (intro size_mset_mono multiset_filter_mono M)
  then have "resolved (sh_trace s) (fu_tx f) + tx_count M (fu_tx f) \<le> 1"
    using ch[unfolded channels_ok_def, rule_format, of "fu_tx f"] by (auto split: if_split_asm)
  ultimately show ?thesis using prompt_blocks[OF d(2) p] d(1) by simp
qed

section \<open>Along runs\<close>

text \<open>The users' own steps log nothing but senders that come back from a closed channel.\<close>

lemma op_start_log:
  assumes "crossbeam_laws (d_cb D) q tx rx" "sh_bufs s b = None" "op_start D p buf b t s = Inr (w, s')"
  shows "sh_trace s' = sh_trace s @ map Hung_up (if w then [] else [t])"
  using assms(3)
  by (auto simp: op_start_eq[OF assms(1,2)] send_event_def drop_tx_def share_buf_def split: prod.split_asm send_result.split_asm)

lemma user_step_log:
  assumes C: "crossbeam_laws (d_cb D) q tx rx" and step: "user_step D y y'"
  shows "\<exists>ts. sh_trace (sy_stack y') = sh_trace (sy_stack y) @ map Hung_up ts"
  using step
proof cases
  case (start p b t buf w s')
  with op_start_log[OF C start(3,5)] show ?thesis by (intro exI[of _ "if w then [] else [t]"]) simp
next
  case (start_shutdown st t w s')
  then show ?thesis
    by (intro exI[of _ "case w of None \<Rightarrow> [] | Some _ \<Rightarrow> [t]"])
      (auto simp: shutdown_start_def drop_tx_def dest!: send_event_err[OF C]
        split: prod.split_asm send_result.split_asm operation_event.split_asm, auto simp: send_event_def split: prod.split_asm)
next
  case (complete fs f fs' r res buf s')
  with op_finish_cast[OF complete(4)] show ?thesis by (intro exI[of _ "[]"]) simp
qed (auto intro!: exI[of _ "[]"] simp: tcp_stream_drop_def udp_socket_drop_def drop_ref_def send_event_def split: prod.split)

lemma prompt_user_step:
  assumes laws: "deps_laws D q tx rx" and inv: "sys_inv D q y" and step: "user_step D y y'"
    and p: "\<And>f. f \<in> set (sy_futures y) \<Longrightarrow> prompt (sh_trace (sy_stack y)) f" and f: "f \<in> set (sy_futures y')"
  shows "prompt (sh_trace (sy_stack y')) f"
proof (cases "f \<in> set (sy_futures y)")
  case True
  then show ?thesis using user_step_log[OF deps_lawsD(1)[OF laws] step] p prompt_hang_ups by metis
next
  case False
  with step f obtain pp b t buf s' where
    st: "sh_bufs (sy_stack y) b = None" "t \<notin> sy_issued y" "op_start D pp buf b t (sy_stack y) = Inr (True, s')"
      "sy_stack y' = s'" "fu_tx f = t"
    by cases (auto split: if_split_asm)
  have "resolved (sh_trace (sy_stack y)) t = 0"
    using sys_invD(6)[OF inv, unfolded channels_ok_def, rule_format, of t] st(2) by simp
  then have "resolved (take n (sh_trace (sy_stack y))) t = 0" for n
    using resolved_take[of n "sh_trace (sy_stack y)" t] by simp
  then show ?thesis using op_start_log[OF deps_lawsD(1)[OF laws] st(1,3)] st(4,5) by (simp add: prompt_def)
qed

lemma prompt_reach:
  assumes laws: "deps_laws D q tx rx" "iface_laws B (d_udp D) (d_set D) (d_iface D)" and "sys_reach D y" "f \<in> set (sy_futures y)"
  shows "prompt (sh_trace (sy_stack y)) f"
  using assms(3,4)
proof (induction arbitrary: f rule: sys_reach.induct)
  case (sys_next y y')
  note inv = sys_reach_inv[OF laws sys_next.hyps(1)]
  from sys_step_accounts[OF laws sys_next.hyps(2) inv] show ?case
  proof (elim disjE conjE)
    assume "user_step D y y'"
    from prompt_user_step[OF laws(1) inv this sys_next.IH sys_next.prems] show ?thesis .
  next
    assume s: "sy_futures y' = sy_futures y"
      and acc: "accounts q (events_reqs (handed (sy_batches y))) (sy_stack y) (events_reqs (handed (sy_batches y'))) (sy_stack y')"
    with sys_next.prems have "f \<in> set (sy_futures y)" by simp
    from prompt_accounts[OF acc sys_invD(7)[OF inv] this sys_invD(6)[OF inv] sys_next.IH[OF this]] show ?thesis .
  qed
qed (simp add: sys_init_def)

section \<open>Resuming at a moment\<close>

text \<open>An operation that is resumed as soon as it is answered returns what it would return later.\<close>

lemma count_list_none: "x \<notin> set xs \<Longrightarrow> count_list xs x = 0"
  by (induction xs) auto

lemma op_finish_same_cell:
  assumes "sh_bufs s' b = sh_bufs s b" "op_finish p b r s = Some (Inr (res, buf, t))"
  shows "\<exists>t'. op_finish p b r s' = Some (Inr (res, buf, t'))"
  using assms
  by (cases "(p, b, r, s)" rule: op_finish.cases)
    (auto simp: finish_defs cast_mut resumed_def finish_with_def cast_dyn_io_buf_def arc_into_inner_def
      elim!: obind_InrE split: option.split_asm if_split_asm)

lemma resume_at_moment:
  assumes laws: "deps_laws D q tx rx" "iface_laws B (d_udp D) (d_set D) (d_iface D)" and y: "sys_reach D y"
    and f: "f \<in> set (sy_futures y)" and r: "received (sh_trace (at_moment n (sy_stack y))) (fu_tx f) r"
  shows "\<exists>res buf s s'. op_finish (fu_op f) (fu_buf f) r (at_moment n (sy_stack y)) = Some (Inr (res, buf, s)) \<and>
    op_finish (fu_op f) (fu_buf f) r (sy_stack y) = Some (Inr (res, buf, s')) \<and> gives r res"
proof -
  let ?tr = "sh_trace (sy_stack y)"
  have n: "received (take n ?tr) (fu_tx f) r" using r by (simp add: at_moment_def)
  then have "received ?tr (fu_tx f) r" by (auto simp: received_def dest: in_set_takeD split: option.split_asm)
  then obtain res buf s' where o: "op_finish (fu_op f) (fu_buf f) r (sy_stack y) = Some (Inr (res, buf, s'))"
    using resume_returns[OF laws y f] by blast
  have "0 < resolved (take n ?tr) (fu_tx f)"
    using n by (intro resolved_pos) (auto simp: received_def split: option.split_asm)
  then have "count_list (drop n ?tr) (Dropped_buf (fu_buf f)) = 0"
    using prompt_reach[OF laws y f] by (intro count_list_none) (simp add: prompt_def)
  then have "sh_bufs (at_moment n (sy_stack y)) (fu_buf f) = sh_bufs (sy_stack y) (fu_buf f)"
    by (simp add: at_moment_def option.map_ident)
  from op_finish_same_cell[OF this o] o op_finish_gives[OF o] show ?thesis by blast
qed

end
