(* ===== verification/Sample_Net.thy ===== *)
theory Sample_Net
  imports Builder
begin

text \<open>
  A small in-memory implementation of every library the stack is parameterised over, which keeps
  the documented behaviour that the properties assume. The witnesses of the properties of the
  stack run on it. A packet of this network is the byte string: version, protocol (6 TCP, 17 UDP),
  flags (1 SYN), destination host, destination port, payload.
\<close>

section \<open>Headers\<close>

definition net_wire :: wire_crate where
  "net_wire = \<lparr>
     w_ip_version = (\<lambda>b. if b = [] then None else if hd b = 4 then Some Ipv4 else if hd b = 6 then Some Ipv6 else None),
     w_ipv4_new_checked = (\<lambda>b. if length b < 5 then None else Some b),
     w_ipv4_payload = (\<lambda>b. drop 2 b), w_ipv4_src_addr = (\<lambda>b. 1), w_ipv4_dst_addr = (\<lambda>b. ucast (b ! 3)),
     w_ipv4_next_header = (\<lambda>b. if b ! 1 = 6 then Proto_Tcp else if b ! 1 = 17 then Proto_Udp else Proto_other (b ! 1)),
     w_ipv6_new_checked = (\<lambda>b. if length b < 5 then None else Some b),
     w_ipv6_payload = (\<lambda>b. drop 2 b), w_ipv6_src_addr = (\<lambda>b. 1), w_ipv6_dst_addr = (\<lambda>b. ucast (b ! 3)),
     w_ipv6_next_header = (\<lambda>b. if b ! 1 = 6 then Proto_Tcp else if b ! 1 = 17 then Proto_Udp else Proto_other (b ! 1)),
     w_tcp_new_checked = Some, w_tcp_syn = (\<lambda>b. b ! 0 = 1), w_tcp_ack = (\<lambda>b. b ! 0 = 2),
     w_tcp_src_port = (\<lambda>b. 9), w_tcp_dst_port = (\<lambda>b. ucast (b ! 2)),
     w_udp_new_checked = Some, w_udp_src_port = (\<lambda>b. 9), w_udp_dst_port = (\<lambda>b. ucast (b ! 2))\<rparr>"

section \<open>Sockets\<close>

record net_tcp =
  nt_local :: "(ip_addr \<times> u16) option"
  nt_open :: bool
  nt_rx :: bytes
  nt_tx :: bytes
  nt_recv_waker :: "waker_id option"
  nt_send_waker :: "waker_id option"

fun wakes :: "waker_id option \<Rightarrow> waker_act list" where
  "wakes None = []"
| "wakes (Some w) = [Woken w]"

fun releases :: "waker_id option \<Rightarrow> waker_act list" where
  "releases None = []"
| "releases (Some w) = [Released w]"

definition net_tcp_crate :: "net_tcp tcp_crate" where
  "net_tcp_crate = \<lparr>
     t_new = (\<lambda>rx tx. \<lparr>nt_local = None, nt_open = False, nt_rx = [], nt_tx = [], nt_recv_waker = None, nt_send_waker = None\<rparr>),
     t_set_nagle_enabled = (\<lambda>b t. t),
     t_listen = (\<lambda>a t. if addr_port a = 0 then Inl ''unaddressable''
                       else Inr (t\<lparr>nt_local := Some (addr_ip a, addr_port a), nt_open := True, nt_rx := [7, 8, 9]\<rparr>)),
     t_close = (\<lambda>t. (t\<lparr>nt_open := False, nt_recv_waker := None, nt_send_waker := None\<rparr>,
                     wakes (nt_recv_waker t) @ wakes (nt_send_waker t))),
     t_is_active = nt_open, t_may_recv = nt_open, t_may_send = nt_open, t_can_send = nt_open,
     t_recv_queue = (\<lambda>t. length (nt_rx t)), t_state = (\<lambda>t. if nt_open t then ''Established'' else ''Closed''),
     t_send_slice = (\<lambda>d t. (Inr (length d), t\<lparr>nt_tx := nt_tx t @ d\<rparr>)),
     t_recv_slice = (\<lambda>m t. (Inr (min (length m) (length (nt_rx t))),
                            take (length m) (nt_rx t) @ drop (length (nt_rx t)) m,
                            t\<lparr>nt_rx := drop (length m) (nt_rx t)\<rparr>)),
     t_register_send_waker = (\<lambda>w t. (t\<lparr>nt_send_waker := Some w\<rparr>, releases (nt_send_waker t))),
     t_register_recv_waker = (\<lambda>w t. (t\<lparr>nt_recv_waker := Some w\<rparr>, releases (nt_recv_waker t))),
     t_remote_endpoint = (\<lambda>t. if nt_open t then Some (IpV4 1, 9) else None),
     t_local_endpoint = nt_local\<rparr>"

record net_udp =
  nu_local :: "ip_addr option \<times> u16"
  nu_rx :: "(bytes \<times> (ip_addr \<times> u16)) list"
  nu_tx :: "(bytes \<times> socket_addr) list"
  nu_recv_waker :: "waker_id option"
  nu_send_waker :: "waker_id option"

definition net_udp_crate :: "net_udp udp_crate" where
  "net_udp_crate = \<lparr>
     u_new = (\<lambda>n rx m tx. \<lparr>nu_local = (None, 0), nu_rx = [], nu_tx = [], nu_recv_waker = None, nu_send_waker = None\<rparr>),
     u_bind = (\<lambda>a u. if addr_port a = 0 then Inl ''unaddressable''
                     else Inr (u\<lparr>nu_local := (Some (addr_ip a), addr_port a)\<rparr>)),
     u_endpoint = nu_local,
     u_close = (\<lambda>u. (u\<lparr>nu_local := (None, 0), nu_recv_waker := None, nu_send_waker := None\<rparr>,
                     wakes (nu_recv_waker u) @ wakes (nu_send_waker u))),
     u_can_send = (\<lambda>u. length (nu_tx u) < 4), u_can_recv = (\<lambda>u. nu_rx u \<noteq> []),
     u_send_slice = (\<lambda>d a u. (None, u\<lparr>nu_tx := nu_tx u @ [(d, a)]\<rparr>)),
     u_recv_slice = (\<lambda>m u. case nu_rx u of
          [] \<Rightarrow> (Inl ''exhausted'', m, u)
        | (d, e) # rest \<Rightarrow> (if length m < length d then (Inl ''truncated'', m, u\<lparr>nu_rx := rest\<rparr>)
                            else (Inr (length d, e), d @ drop (length d) m, u\<lparr>nu_rx := rest\<rparr>))),
     u_register_send_waker = (\<lambda>w u. (u\<lparr>nu_send_waker := Some w\<rparr>, releases (nu_send_waker u))),
     u_register_recv_waker = (\<lambda>w u. (u\<lparr>nu_recv_waker := Some w\<rparr>, releases (nu_recv_waker u)))\<rparr>"

lemma net_udp_laws: "udp_laws net_udp_crate"
  by (auto simp: udp_laws_def net_udp_crate_def split: list.splits if_splits)

section \<open>Socket set and interface\<close>

type_synonym net_set = "(net_tcp, net_udp) socket option list"

fun socket_releases :: "(net_tcp, net_udp) socket \<Rightarrow> waker_act list" where
  "socket_releases (Socket_Tcp t) = releases (nt_recv_waker t) @ releases (nt_send_waker t)"
| "socket_releases (Socket_Udp u) = releases (nu_recv_waker u) @ releases (nu_send_waker u)"

fun socket_wakes :: "(net_tcp, net_udp) socket option \<Rightarrow> waker_act list" where
  "socket_wakes None = []"
| "socket_wakes (Some (Socket_Tcp t)) = wakes (nt_recv_waker t) @ wakes (nt_send_waker t)"
| "socket_wakes (Some (Socket_Udp u)) = wakes (nu_recv_waker u) @ wakes (nu_send_waker u)"

definition net_set_crate :: "(net_set, net_tcp, net_udp) set_crate" where
  "net_set_crate = \<lparr>
     ss_new = [], ss_add = (\<lambda>x ss. (length ss, ss @ [Some x])),
     ss_get = (\<lambda>h ss. if h < length ss then ss ! h else None),
     ss_put = (\<lambda>h x ss. ss[h := Some x]),
     ss_remove = (\<lambda>h ss. if h < length ss then
        (case ss ! h of None \<Rightarrow> None | Some x \<Rightarrow> Some (socket_releases x, ss[h := None])) else None)\<rparr>"

lemma net_set_laws: "set_laws net_set_crate"
  by (auto simp: set_laws_def net_set_crate_def nth_append nth_list_update split: if_splits)

text \<open>A poll takes one packet from the device, sends a copy of it, and wakes every registered waker.\<close>

definition net_bytes :: bytes_crate where
  "net_bytes = \<lparr>bm_zeroed = (\<lambda>n. replicate n 0), bm_freeze = (\<lambda>b. b)\<rparr>"

definition net_iface_crate :: "(ip_cidr list, nat, net_set, unit) iface_crate" where
  "net_iface_crate = \<lparr>
     cap_default = 0, cap_set_mtu = (\<lambda>n c. n), cap_set_medium_ip = (\<lambda>c. c), cap_set_checksum = (\<lambda>k c. c),
     if_new = (\<lambda>seed vi now. []), if_set_any_ip = (\<lambda>b i. i),
     if_push_addr = (\<lambda>c i. if length i < 2 then Inr (i @ [c]) else Inl Panic_unwrap),
     if_add_default_ipv4_route = (\<lambda>gw i. Inr i), if_add_default_ipv6_route = (\<lambda>gw i. Inr i),
     if_poll = (\<lambda>now i vi ss.
        (i, (case vi_rx_queue vi of [] \<Rightarrow> vi
             | p # ps \<Rightarrow> vi\<lparr>vi_rx_queue := ps, vi_tx_queue := vi_tx_queue vi @ [p]\<rparr>),
         ss, concat (map socket_wakes ss))),
     if_poll_delay = (\<lambda>now i ss. None)\<rparr>"

lemma same_socket_refl [simp]: "same_socket U x x"
  by (cases "(U, x, x)" rule: same_socket.cases) auto

lemma net_iface_laws: "iface_laws net_bytes net_udp_crate net_set_crate net_iface_crate"
  unfolding iface_laws_def
proof (intro allI impI conjI)
  fix now i vi ss i' vi' ss' acts h
  assume p: "if_poll net_iface_crate now i vi ss = (i', vi', ss', acts)"
  then show "same_socket net_udp_crate (ss_get net_set_crate h ss) (ss_get net_set_crate h ss')"
    by (simp add: net_iface_crate_def)
  show "\<exists>es. run (device_step net_bytes) vi es vi'"
  proof (cases "vi_rx_queue vi")
    case Nil
    with p show ?thesis using run_nil by (auto simp: net_iface_crate_def)
  next
    case (Cons x xs)
    let ?v = "vi\<lparr>vi_rx_queue := xs\<rparr>"
    have "device_step net_bytes vi (Rx x) ?v" using Cons by (simp add: device_step_rx_iff)
    moreover have "device_step net_bytes ?v (Tx x) (?v\<lparr>vi_tx_queue := vi_tx_queue ?v @ [x]\<rparr>)"
      by (rule dev_tx[of _ VirtualTxToken "\<lambda>_. x" _ "length x"])
        (simp_all add: vi_transmit_def tx_consume_def net_bytes_def)
    ultimately have "run (device_step net_bytes) vi ([Rx x] @ [Tx x]) (?v\<lparr>vi_tx_queue := vi_tx_queue ?v @ [x]\<rparr>)"
      using run_single run_snoc by metis
    with p Cons show ?thesis by (auto simp: net_iface_crate_def)
  qed
qed

section \<open>Buffers, and everything together\<close>

text \<open>A buffer, or a slice of one that begins after \<open>nb_front\<close>.\<close>

record net_buf =
  nb_front :: bytes
  nb_mem :: bytes
  nb_init :: nat

definition net_io :: "net_buf io_buf_crate" where
  "net_io = \<lparr>io_as_slice = (\<lambda>b. take (nb_init b) (nb_mem b)), io_as_mut_slice = nb_mem,
     io_put = (\<lambda>m b. b\<lparr>nb_mem := m\<rparr>), io_set_buf_init = (\<lambda>n b. b\<lparr>nb_init := max n (nb_init b)\<rparr>)\<rparr>"

type_synonym net_chan = "operation_event list \<times> bool \<times> bool"

definition net :: "(net_chan, bool option, unit, net_buf, net_tcp, net_udp, net_set, ip_cidr list, nat, unit) stack_deps" where
  "net = \<lparr>d_cb = list_crossbeam, d_ev = slot_event, d_io = net_io, d_wire = net_wire, d_tcp = net_tcp_crate,
     d_udp = net_udp_crate, d_set = net_set_crate, d_iface = net_iface_crate\<rparr>"

lemma net_laws: "deps_laws net fst (\<lambda>c. fst (snd c)) (\<lambda>c. snd (snd c))"
  using list_crossbeam_laws net_set_laws net_udp_laws by (simp add: deps_laws_def net_def)

lemma net_poll_laws: "iface_laws net_bytes (d_udp net) (d_set net) (d_iface net)"
  using net_iface_laws by (simp add: net_def)

lemmas net_simps = net_def net_io_def net_wire_def net_tcp_crate_def net_udp_crate_def net_set_crate_def
  net_iface_crate_def list_crossbeam_def slot_event_def

end
