(* ===== verification/Stack_Claims.thy ===== *)
theory Stack_Claims
  imports Sample_Net
begin

text \<open>
  The properties of the stack: construction, one turn of the event loop, sockets of new flows, and
  the life of a socket. Each comes with an instance on the in-memory network.
\<close>

section \<open>Construction\<close>

text \<open>C39 (invariant). A stack that \<^verbatim>\<open>build\<close> returns satisfies the invariant of the event loop: no
  socket, no accepted address, no request under way, no buffer referenced. Its accessors return the
  configured addresses and gateways, and the size of TCP buffers and the MTU are the configured
  ones or the defaults 131072 and 1500.\<close>

theorem build_establishes:
  assumes "deps_laws D q tx rx" "build D seed now b = Inr (Inr (s, ta, ua))"
  shows "stack_inv D s \<and> owned (\<lambda>_. 0) q {#} s \<and> token_inv {#} q {#} s \<and> q (nc_chan (sh_ch s)) = [] \<and>
    iface_ipv4_addr s = map_option cidr_address (b_ipv4_addr b) \<and> iface_ipv4_gateway s = b_ipv4_gateway b \<and>
    iface_ipv6_addr s = map_option cidr_address (b_ipv6_addr b) \<and> iface_ipv6_gateway s = b_ipv6_gateway b \<and>
    st_tcp_socket_buf_size s = (case b_tcp_socket_buf_size b of None \<Rightarrow> 131072 | Some n \<Rightarrow> n) \<and>
    capabilities (st_virtual_iface s) =
      tun_capabilities (d_iface D) (case b_mtu b of None \<Rightarrow> 1500 | Some m \<Rightarrow> m) (b_checksum_capabilities b)"
proof -
  from assms(2) have p: "paired (b_ipv4_addr b) (b_ipv4_gateway b)" "paired (b_ipv6_addr b) (b_ipv6_gateway b)"
    and n: "stack_new D seed now (both (b_ipv4_addr b) (b_ipv4_gateway b)) (both (b_ipv6_addr b) (b_ipv6_gateway b))
        (b_tcp_socket_buf_size b) (b_mtu b) (b_checksum_capabilities b) = Inr (Inr (s, ta, ua))"
    by (auto simp: build_eq split: if_splits)
  have m: "map_option (\<lambda>(x, _). f x) (both x y) = map_option f x" "map_option (\<lambda>(_, y). y) (both x y) = y"
    if "paired x y" for f :: "'x \<Rightarrow> 'z" and x and y :: "'y option"
    using that by (auto simp: both_def paired_def split: option.splits)
  show ?thesis
    using stack_new_start[OF assms(1) n] n p
    by (auto simp: stack_new_def Let_def m iface_ipv4_addr_def iface_ipv4_gateway_def
      iface_ipv6_addr_def iface_ipv6_gateway_def SOCKET_BUF_SIZE_def MTU_def vi_new_def capabilities_def
      elim!: obind_InrE split: sum.split_asm option.split)
qed

definition net_builder :: "unit tcp_stack_builder" where
  "net_builder = ipv4_gateway 1 (ipv4_addr \<lparr>cidr_address = 7, cidr_prefix_len = 24\<rparr> builder)"

definition net_stack :: "(net_chan, bool option, net_buf, net_set, ip_cidr list, nat) tcp_stack" where
  "net_stack = \<lparr>sh_ch = \<lparr>nc_chan = ([], True, True), nc_event = None\<rparr>, sh_wakers = [], sh_bufs = Map.empty, sh_trace = [],
     st_ipv4_addr = Some 7, st_ipv4_gateway = Some 1, st_ipv6_addr = None, st_ipv6_gateway = None,
     st_tcp_socket_buf_size = 131072,
     st_interface = [IpCidr_Ipv4 \<lparr>cidr_address = 1, cidr_prefix_len = 24\<rparr>],
     st_virtual_iface = \<lparr>vi_cap = 1500, vi_tx_queue = [], vi_rx_queue = []\<rparr>,
     st_socket_set = [], st_socket_handles = {}, st_accepted_udp_sockets = {},
     st_tcp_stream_tx = [], st_udp_stream_tx = []\<rparr>"

lemma net_build: "build net 0 0 net_builder = Inr (Inr (net_stack, \<lparr>ac_taken = 0\<rparr>, \<lparr>ac_taken = 0\<rparr>))"
  by (simp add: build_def net_builder_def builder_def builder_setters stack_new_def new_interface_def
    ipv4_init_interface_def net_simps tun_capabilities_def vi_new_def notify_new_def net_stack_def
    SOCKET_BUF_SIZE_def MTU_def Let_def)

theorem build_establishes_witness:
  "stack_inv net net_stack \<and> iface_ipv4_addr net_stack = Some 7 \<and> iface_ipv4_gateway net_stack = Some 1"
  using build_establishes[OF net_laws net_build]
  by (simp add: net_builder_def builder_def builder_setters)

text \<open>\<^verbatim>\<open>build\<close> fails with the message about IPv4 exactly when only one of the IPv4 address and
  gateway is set, else with the message about IPv6 when only one of those is set, and otherwise it
  is \<^verbatim>\<open>new\<close> on the configured pairs: neither check can be passed with half a configuration, and with
  no address at all the build goes ahead.\<close>

theorem build_checks:
  "build D seed now b =
     (if \<not> paired (b_ipv4_addr b) (b_ipv4_gateway b)
      then Inr (Inl ''ipv4 should set ipv4 addr and gateway together'')
      else if \<not> paired (b_ipv6_addr b) (b_ipv6_gateway b)
      then Inr (Inl ''ipv6 should set ipv6 addr and gateway together'')
      else stack_new D seed now (both (b_ipv4_addr b) (b_ipv4_gateway b)) (both (b_ipv6_addr b) (b_ipv6_gateway b))
        (b_tcp_socket_buf_size b) (b_mtu b) (b_checksum_capabilities b))"
  by (rule build_eq)

section \<open>One turn\<close>

text \<open>
  The instance for the witnesses: one accepted TCP socket with three bytes to read, and a batch with
  a read into a buffer of four bytes, which the waiting future refers to as well.
\<close>

definition net_sock :: net_tcp where
  "net_sock = \<lparr>nt_local = Some (IpV4 5, 80), nt_open = True, nt_rx = [7, 8, 9], nt_tx = [],
     nt_recv_waker = None, nt_send_waker = None\<rparr>"

definition net_live :: "(net_chan, bool option, net_buf, net_set, ip_cidr list, nat) tcp_stack" where
  "net_live = net_stack\<lparr>sh_bufs := [0 \<mapsto> \<lparr>arc_strong = 2, arc_data = \<lparr>sb_inner = \<lparr>nb_front = [], nb_mem = [0, 0, 0, 0], nb_init = 0\<rparr>\<rparr>\<rparr>],
     st_socket_set := [Some (Socket_Tcp net_sock)], st_socket_handles := {Typed_Tcp 0},
     st_tcp_stream_tx := [Inr \<lparr>ti_handle = 0, ti_local_addr = SocketAddrV4 1 9, ti_remote_addr = SocketAddrV4 5 80\<rparr>]\<rparr>"

definition net_batch :: events where
  "net_batch = \<lparr>events_list = [Read 0 0 3]\<rparr>"

definition net_futures :: "buf_id \<Rightarrow> nat" where
  "net_futures b = (if b = 0 then 1 else 0)"

lemma net_live_registry: "registry net net_live = [0 \<mapsto> Flow_tcp]"
  by (auto simp: registry_def net_live_def net_simps)

lemma net_live_inv: "stack_inv net net_live"
  unfolding stack_inv_def net_live_registry
  using typed_handles_upd[of Map.empty 0 Flow_tcp]
  by (auto simp: registry_ok_def udp_addrs_def net_live_def net_stack_def typed_handles_def split: if_splits)

lemma net_live_owned: "owned net_futures fst (events_reqs (batch (Some net_batch))) net_live"
  by (auto simp: owned_def held_def net_live_def net_stack_def net_batch_def net_futures_def batch_def strong_count_def)

lemma net_live_token: "token_inv {#} fst (events_token (batch (Some net_batch))) net_live"
  by (auto simp: token_inv_def delivered_def moving_def net_live_def net_stack_def net_batch_def batch_def)

lemma net_batch_ok: "\<forall>ev\<in>set (batch (Some net_batch)). \<not> udp_shutdown ev"
  by (simp add: net_batch_def batch_def)

lemmas net_turn = net_laws net_poll_laws net_live_inv net_live_owned net_live_token net_batch_ok

text \<open>The turn of the instance: the bytes are in the buffer, then the count is sent.\<close>

definition net_after :: "(net_chan, bool option, net_buf, net_set, ip_cidr list, nat) tcp_stack" where
  "net_after = net_live\<lparr>sh_bufs := [0 \<mapsto> \<lparr>arc_strong = 1, arc_data = \<lparr>sb_inner = \<lparr>nb_front = [], nb_mem = [7, 8, 9, 0], nb_init = 3\<rparr>\<rparr>\<rparr>],
     sh_trace := [Dropped_buf 0, Replied 3 (Reply_usize (Inr 3))],
     st_socket_set := [Some (Socket_Tcp (net_sock\<lparr>nt_rx := []\<rparr>))]\<rparr>"

lemma net_turn_result:
  "drive_once net 0 None (Some net_batch) net_live = Inr (Inr ([], None), net_after)"
  by (simp add: drive_once_def poll_interface_def drive_events_def net_batch_def net_live_def net_stack_def
    net_after_def net_simps net_sock_def do_waker_acts_def handle_tcp_wake_events_def get_tcp_def buf_value_def
    as_slice_mut_def write_slice_mut_def set_buf_def put_socket_def arc_update_def arc_drop_def answer_def
    send_reply_def drop_buf_def set_initiated_len_def pop_all_send_packets_def Let_def numeral_3_eq_3)

lemma turn_start:
  assumes "stack_inv D s" "owned u q R s" "token_inv d q K s"
  shows "good D q u d R s ({#} + R) ({#} + K) s"
  using assms by (simp add: good_def)

text \<open>With the invariant of the event loop, and no request to shut down a UDP socket
  in the batch, \<^verbatim>\<open>drive_once\<close> never panics on an unknown or mistyped handle, an unreachable match arm,
  an unbound UDP socket or a freed buffer, whatever the packet, the batch and smoltcp's wake-ups: it
  returns, or one of the two \<^verbatim>\<open>expect\<close> calls on the endpoints of a ready TCP socket fails.\<close>

theorem drive_once_safe:
  assumes "deps_laws D q tx rx" "iface_laws B (d_udp D) (d_set D) (d_iface D)"
    and "stack_inv D s" "owned u q (events_reqs (batch evs)) s" "token_inv d q (events_token (batch evs)) s"
    and "\<forall>ev\<in>set (batch evs). \<not> udp_shutdown ev"
  shows "returns (drive_once D now packet evs s) \<or>
    (\<exists>p. drive_once D now packet evs s = Inl p \<and> endpoint_panic p)"
  using good_drive_once[OF assms(1,2) turn_start[OF assms(3-5)] assms(6), of now packet]
  by (auto simp: returns_def)

text \<open>C16 (invariant). A turn that returns, with a result or with an error, re-establishes the invariant
  of the event loop: the set of handles is the set of sockets, the set of accepted addresses is
  the set of addresses of UDP sockets and no two share one, every buffer's reference count is what
  its holders hold, and every socket has at most one token.\<close>

theorem drive_once_invariant:
  assumes "deps_laws D q tx rx" "iface_laws B (d_udp D) (d_set D) (d_iface D)"
    and "stack_inv D s" "owned u q (events_reqs (batch evs)) s" "token_inv d q (events_token (batch evs)) s"
    and "\<forall>ev\<in>set (batch evs). \<not> udp_shutdown ev" "drive_once D now packet evs s = Inr (r, s')"
  shows "stack_inv D s' \<and> owned u q {#} s' \<and> token_inv d q {#} s'"
  using good_drive_once[OF assms(1,2) turn_start[OF assms(3-5)] assms(6), of now packet] assms(7)
  by (auto simp: good_def)

text \<open>C10 (safety). A turn loses no request and answers none twice: the requests of the batch and those
  already parked or queued are, after the turn, parked, queued, or have left, and each that left
  did so by exactly one reply or hang-up, right after its buffer reference was dropped.\<close>

theorem drive_once_conserves:
  assumes "deps_laws D q tx rx" "iface_laws B (d_udp D) (d_set D) (d_iface D)"
    and "stack_inv D s" "owned u q (events_reqs (batch evs)) s" "token_inv d q (events_token (batch evs)) s"
    and "\<forall>ev\<in>set (batch evs). \<not> udp_shutdown ev" "drive_once D now packet evs s = Inr (r, s')"
  shows "\<exists>tr M. sh_trace s' = sh_trace s @ tr \<and> block_trace tr M \<and>
    held q s' + M = held q s + events_reqs (batch evs)"
proof -
  have "accounts q (events_reqs (batch evs)) s {#} s'"
    using good_drive_once[OF assms(1,2) turn_start[OF assms(3-5)] assms(6), of now packet] assms(7)
    by (auto simp: good_def)
  then show ?thesis by (auto simp: accounts_def)
qed

theorem drive_once_safe_witness:
  "returns (drive_once net 0 None (Some net_batch) net_live) \<or>
    (\<exists>p. drive_once net 0 None (Some net_batch) net_live = Inl p \<and> endpoint_panic p)"
  by (rule drive_once_safe[OF net_turn])

theorem drive_once_invariant_witness:
  "drive_once net 0 None (Some net_batch) net_live = Inr (Inr ([], None), net_after) \<and>
    stack_inv net net_after \<and> owned net_futures fst {#} net_after \<and> token_inv {#} fst {#} net_after"
  using drive_once_invariant[OF net_turn net_turn_result] net_turn_result by simp

theorem drive_once_conserves_witness:
  "\<exists>tr M. sh_trace net_after = tr \<and> block_trace tr M \<and> held fst net_after + M = {#(3, Some 0)#}"
  using drive_once_conserves[OF net_turn net_turn_result]
  by (simp add: net_live_def net_stack_def held_def net_batch_def batch_def)

section \<open>Packets\<close>

lemma drive_once_okE:
  assumes "drive_once D now packet evs s = Inr (Inr (packets, sleep), s')"
  obtains s1 s2 s3 where "(case packet of None \<Rightarrow> Inr (None, s) | Some p \<Rightarrow> drive_packet D p s) = Inr (None, s1)"
    "poll_interface D now s1 = Inr s2" "drive_events D (batch evs) s2 = Inr s3"
    "pop_all_send_packets (st_virtual_iface s3) = (packets, st_virtual_iface s')" "st_interface s' = st_interface s3"
proof -
  have e: "(case evs of None \<Rightarrow> Inr t | Some evs \<Rightarrow> drive_events D (events_list evs) t) = drive_events D (batch evs) t" for t
    by (cases evs) (simp_all add: batch_def drive_events_def)
  show thesis
    using assms that unfolding drive_once_def e
    by (auto simp: Let_def elim!: obind_InrE split: option.split_asm prod.split_asm)
qed

text \<open>The device with which smoltcp is polled: the incoming packet is the last one of the receive queue.\<close>

definition offered :: "bytes option \<Rightarrow> 'cap virtual_interface \<Rightarrow> 'cap virtual_interface" where
  "offered packet vi = vi\<lparr>vi_rx_queue := vi_rx_queue vi @ (case packet of None \<Rightarrow> [] | Some p \<Rightarrow> [p])\<rparr>"

text \<open>A turn that succeeds polls smoltcp once and hands out what the poll left in the transmit queue.\<close>

definition polled ::
  "('c, 'e, 'l, 'b, 'tcp, 'udp, 'ss, 'if, 'cap, 'ck) stack_deps \<Rightarrow> nat \<Rightarrow> bytes option
   \<Rightarrow> ('c, 'e, 'b, 'ss, 'if, 'cap) tcp_stack \<Rightarrow> 'if \<times> 'cap virtual_interface \<Rightarrow> bool" where
  "polled D now packet s dev \<longleftrightarrow> (\<exists>s1 ss acts.
     (case packet of None \<Rightarrow> Inr (None, s) | Some p \<Rightarrow> drive_packet D p s) = Inr (None, s1) \<and>
     if_poll (d_iface D) now (st_interface s) (offered packet (st_virtual_iface s)) (st_socket_set s1) = (fst dev, snd dev, ss, acts))"

lemma drive_once_polls:
  assumes "drive_once D now packet evs s = Inr (Inr (packets, sleep), s')"
  shows "\<exists>i vi. polled D now packet s (i, vi) \<and> st_interface s' = i \<and> st_virtual_iface s' = vi\<lparr>vi_tx_queue := []\<rparr> \<and>
    packets = vi_tx_queue vi"
proof -
  from assms obtain s1 s2 s3 where
    1: "(case packet of None \<Rightarrow> Inr (None, s) | Some p \<Rightarrow> drive_packet D p s) = Inr (None, s1)" and
    2: "poll_interface D now s1 = Inr s2" and 3: "drive_events D (batch evs) s2 = Inr s3" and
    4: "pop_all_send_packets (st_virtual_iface s3) = (packets, st_virtual_iface s')" "st_interface s' = st_interface s3"
    by (rule drive_once_okE)
  have s1: "st_virtual_iface s1 = offered packet (st_virtual_iface s)" "st_interface s1 = st_interface s"
    using 1 drive_packet_outer[of D _ s None s1]
    by (auto simp: outer_def offered_def push_receive_packet_def split: option.splits)
  obtain i vi ss acts where p: "if_poll (d_iface D) now (st_interface s1) (st_virtual_iface s1) (st_socket_set s1) = (i, vi, ss, acts)"
    using prod_cases4 by blast
  with 2 have "do_waker_acts D acts (s1\<lparr>st_interface := i, st_virtual_iface := vi, st_socket_set := ss\<rparr>) = Inr s2"
    by (simp add: poll_interface_def)
  from do_waker_acts_outer[OF this] drive_events_grows[OF 3] have "st_virtual_iface s3 = vi" "st_interface s3 = i"
    by (simp_all add: outer_def grows_def)
  moreover have "polled D now packet s (i, vi)" unfolding polled_def using 1 p s1 by auto
  ultimately show ?thesis using 4 by (auto simp: pop_all_send_packets_def)
qed

lemma offered_queues [simp]:
  "vi_rx_queue (offered packet vi) = vi_rx_queue vi @ (case packet of None \<Rightarrow> [] | Some p \<Rightarrow> [p])"
  "vi_tx_queue (offered packet vi) = vi_tx_queue vi" "vi_cap (offered packet vi) = vi_cap vi"
  by (simp_all add: offered_def)

text \<open>C17 (safety). A turn neither loses, duplicates nor reorders packets. The incoming packet joins the
  end of the receive queue, and smoltcp is polled once, with that device. What the poll does to the device is some
  sequence of uses of its tokens. It takes a prefix of the receive queue, what it leaves stays in the
  queue, and the packets returned to the
  host are exactly those that were waiting followed by those the poll sent, in order;
  none stays behind.\<close>

theorem drive_once_packets:
  assumes "iface_laws B (d_udp D) (d_set D) (d_iface D)"
    and "drive_once D now packet evs s = Inr (Inr (packets, sleep), s')"
  shows "\<exists>vi es. polled D now packet s (st_interface s', vi) \<and>
    run (device_step B) (offered packet (st_virtual_iface s)) es vi \<and>
    vi_rx_queue (st_virtual_iface s) @ (case packet of None \<Rightarrow> [] | Some p \<Rightarrow> [p]) = rx_of es @ vi_rx_queue vi \<and>
    packets = vi_tx_queue vi \<and> packets = vi_tx_queue (st_virtual_iface s) @ tx_of es \<and>
    st_virtual_iface s' = vi\<lparr>vi_tx_queue := []\<rparr> \<and> capabilities (st_virtual_iface s') = capabilities (st_virtual_iface s)"
proof -
  from drive_once_polls[OF assms(2)] obtain vi where
    vi: "polled D now packet s (st_interface s', vi)" "st_virtual_iface s' = vi\<lparr>vi_tx_queue := []\<rparr>" "packets = vi_tx_queue vi"
    by auto
  with assms(1) obtain es where es: "run (device_step B) (offered packet (st_virtual_iface s)) es vi"
    unfolding polled_def iface_laws_def by fastforce
  from vif.run_conserves[OF es] vi es show ?thesis
    by (intro exI[of _ vi] exI[of _ es]) (simp add: capabilities_def)
qed

theorem drive_once_packets_witness:
  "\<exists>vi es. polled net 0 (Some [4, 17, 0, 5, 80]) net_stack (st_interface net_stack, vi) \<and>
    run (device_step net_bytes) (offered (Some [4, 17, 0, 5, 80]) (st_virtual_iface net_stack)) es vi \<and>
    rx_of es = [[4, 17, 0, 5, 80]] \<and> tx_of es = [[4, 17, 0, 5, 80]]"
proof -
  let ?s = "net_stack\<lparr>st_socket_set := [Some (Socket_Udp \<lparr>nu_local = (Some (IpV4 5), 80), nu_rx = [], nu_tx = [],
      nu_recv_waker = None, nu_send_waker = None\<rparr>)],
    st_socket_handles := {Typed_Udp 0}, st_accepted_udp_sockets := {SocketAddrV4 5 80},
    sh_ch := \<lparr>nc_chan = ([Ready (Typed_Udp 0)], True, True), nc_event = None\<rparr>\<rparr>"
  have r: "drive_once net 0 (Some [4, 17, 0, 5, 80]) None net_stack = Inr (Inr ([[4, 17, 0, 5, 80]], None), ?s)"
    by (simp add: drive_once_def drive_packet_def parse_packet_def try_init_udp_def create_udp_socket_def send_event_def
      notify_send_def poll_interface_def net_stack_def net_simps do_waker_acts_def push_receive_packet_def
      pop_all_send_packets_def Let_def)
  from drive_once_packets[OF net_poll_laws r] obtain vi es where
    vi: "polled net 0 (Some [4, 17, 0, 5, 80]) net_stack (st_interface ?s, vi)"
      "run (device_step net_bytes) (offered (Some [4, 17, 0, 5, 80]) (st_virtual_iface net_stack)) es vi"
      "[[4, 17, 0, 5, 80]] = rx_of es @ vi_rx_queue vi" "[[4, 17, 0, 5, 80]] = tx_of es"
      "st_virtual_iface ?s = vi\<lparr>vi_tx_queue := []\<rparr>"
    by (auto simp: net_stack_def)
  have "vi_rx_queue vi = []" using arg_cong[OF vi(5), of vi_rx_queue] by (simp add: net_stack_def)
  with vi show ?thesis by (intro exI[of _ vi] exI[of _ es]) simp
qed

section \<open>Turns that fail\<close>

fun drop_log :: "operation_event \<Rightarrow> action list" where
  "drop_log (Read h b t) = [Dropped_buf b, Hung_up t]"
| "drop_log (Write h b t) = [Dropped_buf b, Hung_up t]"
| "drop_log (Recv h b t) = [Dropped_buf b, Hung_up t]"
| "drop_log (Send h a b t) = [Dropped_buf b, Hung_up t]"
| "drop_log (Shutdown h t) = [Hung_up t]"
| "drop_log _ = []"

lemma drop_events_log: "sh_trace (fold drop_event evs s) = sh_trace s @ concat (map drop_log evs)"
proof (induction evs arbitrary: s)
  case (Cons ev evs)
  then show ?case by (cases ev) (simp_all add: drop_tx_def drop_buf_def)
qed simp

lemma drive_packet_fails:
  assumes "drive_packet D p s = Inr (Some e, s1)"
  shows "parse_packet (d_wire D) p \<noteq> None \<and> sh_trace s1 = sh_trace s \<and> outer s1 = outer s"
proof -
  have t: "sh_trace s' = sh_trace s" if "try_init_udp D dst s = (Inl e', s')" for dst e' s'
    using that by (auto simp: try_init_udp_def send_event_def Let_def split: if_split_asm sum.split_asm prod.split_asm send_result.split_asm)
  have i: "s' = s" if "init_tcp D dst s = Inr (Some e', s')" for dst e' s'
    using that by (auto simp: init_tcp_def Let_def elim!: obind_InrE split: sum.split_asm prod.split_asm)
  show ?thesis
    using assms drive_packet_outer[OF assms]
    by (auto simp: drive_packet_def dest: t i elim!: obind_InrE split: option.split_asm packet_type.split_asm prod.split_asm sum.split_asm)
qed

lemma drive_once_failed_outer:
  assumes "drive_once D now packet evs s = Inr (Inl e, s')"
  shows "outer s' = outer s"
proof -
  from assms obtain p s1 where p: "drive_packet D p s = Inr (Some e, s1)" and s': "s' = fold drop_event (batch evs) s1"
    by (auto simp: drive_once_def batch_def Let_def elim!: obind_InrE split: option.split_asm prod.split_asm)
  from drive_packet_fails[OF p] drop_events_outer[of "batch evs" s1] s' show ?thesis by simp
qed

text \<open>C29 (error). \<^verbatim>\<open>drive_once\<close> returns an error only for a packet that asks for a socket, and then nothing
  but the attempt happened: the packet was not passed to the device, smoltcp was not polled, no
  packet was sent, and every request of the batch was dropped unanswered, its buffer reference
  first and then its sender, in the order of the batch, so each waiting operation fails.\<close>

theorem drive_once_error:
  assumes "drive_once D now packet evs s = Inr (Inl e, s')"
  shows "(\<exists>p pt. packet = Some p \<and> parse_packet (d_wire D) p = Some pt) \<and>
    st_virtual_iface s' = st_virtual_iface s \<and> st_tcp_stream_tx s' = st_tcp_stream_tx s \<and>
    st_udp_stream_tx s' = st_udp_stream_tx s \<and>
    sh_trace s' = sh_trace s @ concat (map drop_log (batch evs))"
proof -
  from assms obtain p s1 where p: "packet = Some p" "drive_packet D p s = Inr (Some e, s1)"
    and s': "s' = fold drop_event (batch evs) s1"
    by (auto simp: drive_once_def batch_def Let_def elim!: obind_InrE split: option.split_asm prod.split_asm)
  from drive_packet_fails[OF p(2)] p(1) s' drop_events_log[of "batch evs" s1] drive_once_failed_outer[OF assms] show ?thesis
    by (auto simp: outer_def)
qed

theorem drive_once_error_witness:
  "\<exists>s'. drive_once net 0 (Some [4, 6, 1, 5, 0]) (Some net_batch) net_live = Inr (Inl ''unaddressable'', s') \<and>
    sh_trace s' = [Dropped_buf 0, Hung_up 3] \<and> st_virtual_iface s' = st_virtual_iface net_live"
proof -
  have r: "drive_once net 0 (Some [4, 6, 1, 5, 0]) (Some net_batch) net_live =
      Inr (Inl ''unaddressable'', drop_event (Read 0 0 3) net_live)"
    by (simp add: drive_once_def drive_packet_def parse_packet_def init_tcp_def create_tcp_socket_def net_batch_def
      net_live_def net_stack_def net_simps Let_def)
  from drive_once_error[OF r] show ?thesis using r
    by (intro exI[of _ "drop_event (Read 0 0 3) net_live"]) (simp add: net_batch_def batch_def net_live_def net_stack_def)
qed

section \<open>Sockets of new flows\<close>

lemma try_init_udp_spec:
  assumes laws: "deps_laws D q tx rx" and inv: "stack_inv D s" and dst: "addr_normal dst"
    and r: "try_init_udp D dst s = (res, s')"
  shows "if \<exists>h. registry D s h = Some (Flow_udp (Some dst)) then res = Inr False \<and> s' = s
    else case u_bind (d_udp D) dst (create_udp_socket (d_udp D) SOCKET_BUF_SIZE) of
        Inl _ \<Rightarrow> res = Inl ''udp socket bind failed'' \<and> s' = s
      | Inr _ \<Rightarrow> \<exists>h. registry D s h = None \<and> registry D s' = (registry D s)(h \<mapsto> Flow_udp (Some dst)) \<and>
          (if rx (nc_chan (sh_ch s))
           then res = Inr True \<and> q (nc_chan (sh_ch s')) = q (nc_chan (sh_ch s)) @ [Ready (Typed_Udp h)]
           else res = Inl ''send udp ready event failed'' \<and> q (nc_chan (sh_ch s')) = q (nc_chan (sh_ch s)))"
proof -
  note C = deps_lawsD(1)[OF laws]
  have acc: "dst \<in> st_accepted_udp_sockets s \<longleftrightarrow> (\<exists>h. registry D s h = Some (Flow_udp (Some dst)))"
    using inv by (simp add: stack_inv_def udp_addrs_def)
  show ?thesis
  proof (cases "dst \<in> st_accepted_udp_sockets s")
    case True
    with acc r show ?thesis by (simp add: try_init_udp_def)
  next
    case new: False
    show ?thesis
    proof (cases "u_bind (d_udp D) dst (create_udp_socket (d_udp D) SOCKET_BUF_SIZE)")
      case (Inl e)
      with new acc r show ?thesis by (simp add: try_init_udp_def)
    next
      case (Inr sock)
      obtain h ss' where a: "ss_add (d_set D) (Socket_Udp sock) (st_socket_set s) = (h, ss')" by fastforce
      let ?s = "s\<lparr>st_socket_set := ss', st_socket_handles := insert (Typed_Udp h) (st_socket_handles s),
                   st_accepted_udp_sockets := insert dst (st_accepted_udp_sockets s)\<rparr>"
      obtain sr s1 where send: "send_event D (Ready (Typed_Udp h)) ?s = (sr, s1)" by fastforce
      have "udp_addr (d_udp D) sock = Some dst"
        using deps_lawsD(3)[OF laws] Inr dst by (simp add: udp_laws_def udp_addr_def addr_normal_def)
      then have reg: "registry D s h = None" "registry D s1 = (registry D s)(h \<mapsto> Flow_udp (Some dst))"
        using registry_added[OF deps_lawsD(2)[OF laws] a] fields_frame(1)[OF send_event_moreD[OF send], of D] by simp_all
      have res: "(res, s') = (case sr of Sent \<Rightarrow> Inr True | SendError _ \<Rightarrow> Inl ''send udp ready event failed'', s1)"
        using r new Inr a send by (cases sr) (simp_all add: try_init_udp_def)
      have ch: "cb_send (d_cb D) (Ready (Typed_Udp h)) (nc_chan (sh_ch s)) =
          (case sr of Sent \<Rightarrow> Inr (nc_chan (sh_ch s1)) | SendError v \<Rightarrow> Inl v)" "sr \<noteq> Sent \<Longrightarrow> sh_ch s1 = sh_ch s"
        using send by (auto simp: send_event_def notify_send_def split: sum.split_asm)
      show ?thesis
      proof (cases "rx (nc_chan (sh_ch s))")
        case True
        then obtain c where "cb_send (d_cb D) (Ready (Typed_Udp h)) (nc_chan (sh_ch s)) = Inr c"
          "q c = q (nc_chan (sh_ch s)) @ [Ready (Typed_Udp h)]" using crossbeam_send_ok[OF C] by blast
        with ch True reg res new acc Inr show ?thesis by (cases sr) auto
      next
        case False
        with ch crossbeam_send_err[OF C False] reg res new acc Inr show ?thesis by (cases sr) auto
      qed
    qed
  qed
qed

text \<open>C19 (refinement). For a UDP packet the registry of flows changes as specified. When a UDP socket
  for the destination exists, \<^verbatim>\<open>try_init_udp\<close> changes nothing and answers \<open>false\<close>; when the destination
  cannot be bound it changes nothing and fails; otherwise it adds exactly one flow for exactly this
  destination under an unused handle, and announces it by one \<open>Ready\<close> request at the end of the
  channel, or fails when the event generator is gone.\<close>

theorem try_init_udp_refines:
  assumes laws: "deps_laws D q tx rx" and inv: "stack_inv D s" and dst: "addr_normal dst"
    and r: "try_init_udp D dst s = (res, s')"
  shows "if \<exists>h. registry D s h = Some (Flow_udp (Some dst)) then res = Inr False \<and> s' = s
    else case u_bind (d_udp D) dst (create_udp_socket (d_udp D) SOCKET_BUF_SIZE) of
        Inl _ \<Rightarrow> res = Inl ''udp socket bind failed'' \<and> s' = s
      | Inr _ \<Rightarrow> \<exists>h. registry D s h = None \<and> registry D s' = (registry D s)(h \<mapsto> Flow_udp (Some dst)) \<and>
          (if rx (nc_chan (sh_ch s))
           then res = Inr True \<and> q (nc_chan (sh_ch s')) = q (nc_chan (sh_ch s)) @ [Ready (Typed_Udp h)]
           else res = Inl ''send udp ready event failed'' \<and> q (nc_chan (sh_ch s')) = q (nc_chan (sh_ch s)))"
  by (rule try_init_udp_spec[OF assms])

theorem try_init_udp_refines_witness:
  "\<exists>h. registry net net_stack h = None \<and>
    registry net (snd (try_init_udp net (SocketAddrV4 5 53) net_stack)) =
      (registry net net_stack)(h \<mapsto> Flow_udp (Some (SocketAddrV4 5 53)))"
proof -
  have none: "\<not> (\<exists>h. registry net net_stack h = Some (Flow_udp (Some (SocketAddrV4 5 53))))"
    by (simp add: registry_def net_stack_def net_simps)
  have inv: "stack_inv net net_stack"
    using stack_new_start(1)[OF net_laws] build_okE[OF net_build] by metis
  from try_init_udp_refines[OF net_laws inv, of "SocketAddrV4 5 53", OF _ surjective_pairing] none
  show ?thesis by (auto simp: net_def net_udp_crate_def split: sum.splits if_splits)
qed

section \<open>Closing sockets\<close>

lemma remove_tcp_registry:
  assumes laws: "deps_laws D q tx rx" and get: "get_tcp D h s = Inr t" and r: "remove_tcp_socket D h s = Inr s'"
  shows "registry D s' = (registry D s)(h := None) \<and> st_socket_handles s' = st_socket_handles s - {Typed_Tcp h} \<and>
    st_accepted_udp_sockets s' = st_accepted_udp_sockets s"
proof -
  have "ss_get (d_set D) h (st_socket_set s) \<noteq> None" using get by (simp add: get_tcp_iff)
  from removal_frame[OF laws this] obtain acts ss' s2 where
    "ss_remove (d_set D) h (st_socket_set s) = Some (acts, ss')" "do_waker_acts D acts (s\<lparr>st_socket_set := ss'\<rparr>) = Inr s2"
    "registry D s2 = (registry D s)(h := None)" "st_socket_handles s2 = st_socket_handles s"
    "st_accepted_udp_sockets s2 = st_accepted_udp_sockets s" by metis
  with r show ?thesis by (auto simp: remove_tcp_socket_def)
qed

lemma remove_udp_registry:
  assumes laws: "deps_laws D q tx rx" and get: "get_udp D h s = Inr u"
    and a: "do_waker_acts D acts (put_socket D h x s) = Inr s1" and r: "remove_udp_socket D h dst s1 = Inr s'"
  shows "registry D s' = (registry D s)(h := None) \<and> st_socket_handles s' = st_socket_handles s - {Typed_Udp h} \<and>
    st_accepted_udp_sockets s' = st_accepted_udp_sockets s - {dst}"
proof -
  note put = set_put[OF deps_lawsD(2)[OF laws], of h "st_socket_set s" _ x]
  have known: "ss_get (d_set D) h (st_socket_set s) \<noteq> None" using get by (simp add: get_udp_iff)
  note f = more_fields[OF do_waker_acts_more[OF a]]
  have s1: "st_socket_set s1 = ss_put (d_set D) h x (st_socket_set s)" "st_socket_handles s1 = st_socket_handles s"
    "st_accepted_udp_sockets s1 = st_accepted_udp_sockets s"
    using f by (simp_all add: put_socket_def)
  then have reg: "(registry D s1)(h := None) = (registry D s)(h := None)" "ss_get (d_set D) h (st_socket_set s1) \<noteq> None"
    using put[OF known] by (auto simp: registry_def)
  from removal_frame[OF laws reg(2)] obtain acts' ss' s2 where
    "ss_remove (d_set D) h (st_socket_set s1) = Some (acts', ss')" "do_waker_acts D acts' (s1\<lparr>st_socket_set := ss'\<rparr>) = Inr s2"
    "registry D s2 = (registry D s1)(h := None)" "st_socket_handles s2 = st_socket_handles s1"
    "st_accepted_udp_sockets s2 = st_accepted_udp_sockets s1" by metis
  with r s1 reg(1) show ?thesis by (auto simp: remove_udp_socket_def)
qed

text \<open>
  The flow that a close removes at once: a UDP flow, or a TCP flow whose socket is inactive after
  the close. A TCP socket that is still active stays until its peer has finished.
\<close>

definition closes_now ::
  "('c, 'e, 'l, 'b, 'tcp, 'udp, 'ss, 'if, 'cap, 'ck) stack_deps \<Rightarrow> typed_socket_handle
   \<Rightarrow> ('c, 'e, 'b, 'ss, 'if, 'cap) tcp_stack \<Rightarrow> bool" where
  "closes_now D th s \<longleftrightarrow> th \<in> st_socket_handles s \<and>
     (case th of
        Typed_Udp h \<Rightarrow> True
      | Typed_Tcp h \<Rightarrow>
          (case get_tcp D h s of Inl _ \<Rightarrow> False | Inr t \<Rightarrow> \<not> t_is_active (d_tcp D) (fst (t_close (d_tcp D) t))))"

text \<open>C20 (refinement). Closing refines the removal of a flow from the registry: a close of an unknown
  handle changes nothing; a close of a UDP socket removes its flow, its handle and its address; a
  close of a TCP socket removes its flow and its handle when the socket is inactive, and otherwise
  leaves the registry as it is. No other flow is touched.\<close>

theorem close_refines:
  assumes laws: "deps_laws D q tx rx" and inv: "stack_inv D s" and r: "handle_close_event D th s = Inr s'"
  shows "registry D s' = (if closes_now D th s then (registry D s)(typed_into_handle th := None) else registry D s) \<and>
    st_socket_handles s' = (if closes_now D th s then st_socket_handles s - {th} else st_socket_handles s) \<and>
    st_accepted_udp_sockets s' =
      (case th of
         Typed_Udp h \<Rightarrow> st_accepted_udp_sockets s - {a. registry D s h = Some (Flow_udp (Some a))}
       | Typed_Tcp h \<Rightarrow> st_accepted_udp_sockets s)"
proof (cases "th \<in> st_socket_handles s")
  case True
  show ?thesis
  proof (cases th)
    case (Typed_Tcp h)
    then obtain t where get: "get_tcp D h s = Inr t" using True inv_tcp_handle[OF inv] by blast
    obtain t1 acts where c: "t_close (d_tcp D) t = (t1, acts)" by fastforce
    let ?p = "put_socket D h (Socket_Tcp t1) s"
    obtain s1 where s1: "do_waker_acts D acts ?p = Inr s1" "keeps D ?p s1"
      using serves_acts[OF deps_lawsD(1)[OF laws], of ?p acts] unfolding serves_def by blast
    have k: "keeps D s s1" using keeps_trans[OF keeps_put_tcp[OF laws get] s1(2)] .
    then have "stack_inv D s1" "Typed_Tcp h \<in> st_socket_handles s1"
      using inv keeps_inv[OF k] True Typed_Tcp by (simp_all add: keeps_def)
    then obtain t2 where get1: "get_tcp D h s1 = Inr t2" using inv_tcp_handle by blast
    show ?thesis
    proof (cases "t_is_active (d_tcp D) t1")
      case True
      with r get c s1(1) Typed_Tcp \<open>th \<in> st_socket_handles s\<close>
      have "park_tcp D (t_register_recv_waker (d_tcp D)) (Wake_close h) h t1 s1 = Inr s'"
        by (simp add: handle_close_event_def)
      with serves_park_tcp[OF laws get1, of "Wake_close h" "t_register_recv_waker (d_tcp D)" t1]
      have "keeps D s1 s'" unfolding serves_def by auto
      with k True get c Typed_Tcp show ?thesis by (simp add: keeps_def closes_now_def)
    next
      case False
      with r get c s1(1) Typed_Tcp \<open>th \<in> st_socket_handles s\<close>
      have "remove_tcp_socket D h s1 = Inr s'" by (simp add: handle_close_event_def)
      from remove_tcp_registry[OF laws get1 this] k False get c Typed_Tcp \<open>th \<in> st_socket_handles s\<close>
      show ?thesis by (simp add: keeps_def closes_now_def)
    qed
  next
    case (Typed_Udp h)
    then obtain u where get: "get_udp D h s = Inr u" using True inv_udp_handle[OF inv] by blast
    obtain ip port where e: "u_endpoint (d_udp D) u = (Some ip, port)"
      "registry D s h = Some (Flow_udp (Some (SocketAddr_new ip port)))" using inv_udp_bound[OF inv get] by blast
    from r True Typed_Udp get e obtain u1 acts s1 where
      "do_waker_acts D acts (put_socket D h (Socket_Udp u1) s) = Inr s1"
      "remove_udp_socket D h (SocketAddr_new ip port) s1 = Inr s'"
      by (auto simp: handle_close_event_def elim!: obind_InrE split: prod.split_asm)
    from remove_udp_registry[OF laws get this] True Typed_Udp e show ?thesis by (simp add: closes_now_def)
  qed
next
  case False
  then have "registry D s h \<noteq> Some (Flow_udp (Some a))" if "th = Typed_Udp h" for h a
    using that inv by (auto simp: stack_inv_def)
  with False r show ?thesis
    by (auto simp: handle_close_event_def closes_now_def split: typed_socket_handle.split)
qed

theorem close_refines_witness:
  "\<exists>s'. handle_close_event net (Typed_Tcp 0) net_live = Inr s' \<and> registry net s' = Map.empty \<and> st_socket_handles s' = {}"
proof -
  have r: "handle_close_event net (Typed_Tcp 0) net_live =
      Inr (net_live\<lparr>st_socket_set := [None], st_socket_handles := {}\<rparr>)"
    by (simp add: handle_close_event_def get_tcp_def net_live_def net_stack_def net_simps net_sock_def put_socket_def
      do_waker_acts_def remove_tcp_socket_def)
  have "closes_now net (Typed_Tcp 0) net_live"
    by (simp add: closes_now_def get_tcp_def net_live_def net_stack_def net_simps net_sock_def)
  with close_refines[OF net_laws net_live_inv r] r show ?thesis
    by (simp add: net_live_registry)
qed

end
