(* ===== verification/System_Claims.thy ===== *)
theory System_Claims
  imports Moments Stack_Claims
begin

text \<open>
  The properties of the whole program, over every reachable state of the composed system, and a run
  of the in-memory network that exercises them: a connection is opened, accepted and read from.
\<close>

section \<open>A run\<close>

type_synonym net_sys = "(net_chan, bool option, unit, net_buf, net_set, ip_cidr list, nat) sys"

definition run_info :: tcp_info where
  "run_info = \<lparr>ti_handle = 0, ti_local_addr = SocketAddrV4 1 9, ti_remote_addr = SocketAddrV4 5 80\<rparr>"

definition run_stream :: tcp_stream where
  "run_stream = \<lparr>ts_local_addr = SocketAddrV4 1 9, ts_remote_addr = SocketAddrV4 5 80, ts_handle = 0\<rparr>"

definition run_stack :: "operation_event list \<Rightarrow> bytes list \<Rightarrow> (net_chan, bool option, net_buf, net_set, ip_cidr list, nat) tcp_stack" where
  "run_stack evs rx = net_stack\<lparr>sh_ch := \<lparr>nc_chan = (evs, True, True), nc_event = None\<rparr>,
     sh_wakers := [Some \<lparr>ao_used = True, ao_value = Wake_ready 0\<rparr>],
     st_socket_set := [Some (Socket_Tcp (net_sock\<lparr>nt_rx := concat rx, nt_send_waker := Some 0\<rparr>))],
     st_socket_handles := {Typed_Tcp 0}\<rparr>"

lemma run1: "drive_once net 0 (Some [4, 6, 1, 5, 80]) None net_stack =
  Inr (Inr ([[4, 6, 1, 5, 80]], None), run_stack [Ready (Typed_Tcp 0)] [[7, 8, 9]])"
  by (simp add: turn_defs net_stack_def net_simps run_stack_def net_sock_def Let_def)

lemma run_collect:
  "generate_poll list_crossbeam slot_event (W_top, \<lparr>nc_chan = ([ev], True, True), nc_event = None\<rparr>) =
   Some (Poll_ready (Inr \<lparr>events_list = [ev]\<rparr>), W_returned, \<lparr>nc_chan = ([], True, True), nc_event = None\<rparr>)"
  by (simp add: generate_poll_def collect_nonblock_def collect_loop.simps list_crossbeam_def)

definition run_accepted :: "operation_event list \<Rightarrow> bytes list \<Rightarrow> (net_chan, bool option, net_buf, net_set, ip_cidr list, nat) tcp_stack" where
  "run_accepted evs rx = (run_stack evs rx)\<lparr>st_tcp_stream_tx := [Inr run_info]\<rparr>"

lemma run2: "drive_once net 0 None (Some \<lparr>events_list = [Ready (Typed_Tcp 0)]\<rparr>) (run_stack [] [[7, 8, 9]]) =
  Inr (Inr ([], None), run_accepted [] [[7, 8, 9]])"
  by (simp add: turn_defs net_stack_def net_simps run_stack_def run_accepted_def run_info_def net_sock_def Let_def)

definition run_buf :: net_buf where
  "run_buf = \<lparr>nb_front = [], nb_mem = [0, 0, 0, 0], nb_init = 0\<rparr>"

definition run_reading :: "operation_event list \<Rightarrow> (net_chan, bool option, net_buf, net_set, ip_cidr list, nat) tcp_stack" where
  "run_reading evs = (run_accepted evs [[7, 8, 9]])\<lparr>sh_bufs := [0 \<mapsto> \<lparr>arc_strong = 2, arc_data = \<lparr>sb_inner = run_buf\<rparr>\<rparr>]\<rparr>"

lemma run3: "op_start net (Op_read run_stream) run_buf 0 0 (run_accepted [] [[7, 8, 9]]) = Inr (True, run_reading [Read 0 0 0])"
  by (simp add: waiting_def read_start_def share_buf_def sb_new_def send_event_def notify_send_def net_simps
    arc_new_def arc_clone_def run_reading_def run_accepted_def run_stack_def net_stack_def run_stream_def numeral_2_eq_2)

definition run_read :: "(net_chan, bool option, net_buf, net_set, ip_cidr list, nat) tcp_stack" where
  "run_read = (run_accepted [] [])\<lparr>
     sh_bufs := [0 \<mapsto> \<lparr>arc_strong = 1, arc_data = \<lparr>sb_inner = \<lparr>nb_front = [], nb_mem = [7, 8, 9, 0], nb_init = 3\<rparr>\<rparr>\<rparr>],
     sh_trace := [Dropped_buf 0, Replied 0 (Reply_usize (Inr 3))]\<rparr>"

lemma run4: "drive_once net 0 None (Some \<lparr>events_list = [Read 0 0 0]\<rparr>) (run_reading []) = Inr (Inr ([], None), run_read)"
  by (simp add: turn_defs net_stack_def net_simps run_stack_def run_accepted_def run_reading_def run_read_def run_buf_def
    run_info_def net_sock_def numeral_3_eq_3 Let_def)

definition run_future :: future where
  "run_future = \<lparr>fu_op = Op_read run_stream, fu_buf = 0, fu_tx = 0\<rparr>"

definition run_sys :: net_sys where
  "run_sys = \<lparr>sy_stack = run_read, sy_generator = W_top, sy_batches = [], sy_futures = [run_future],
     sy_tcp = [run_stream], sy_udp = [], sy_tcp_acceptor = \<lparr>ac_taken = 1\<rparr>, sy_udp_acceptor = \<lparr>ac_taken = 0\<rparr>,
     sy_accepts_tcp = True, sy_accepts_udp = True,
     sy_alive = True, sy_listening = True, sy_closed = {#}, sy_issued = {0}\<rparr>"

text \<open>
  The steps of the run: a turn with the SYN, a batch, a turn, an accept, the start of a read; then a
  batch and a turn.
\<close>

abbreviation run_at ::
  "(net_chan, bool option, net_buf, net_set, ip_cidr list, nat) tcp_stack \<Rightarrow> events list \<Rightarrow> future list \<Rightarrow> tcp_stream list
   \<Rightarrow> nat \<Rightarrow> tx_id set \<Rightarrow> net_sys" where
  "run_at s bs fs ts n is \<equiv> \<lparr>sy_stack = s, sy_generator = W_top, sy_batches = bs, sy_futures = fs, sy_tcp = ts, sy_udp = [],
     sy_tcp_acceptor = \<lparr>ac_taken = n\<rparr>, sy_udp_acceptor = \<lparr>ac_taken = 0\<rparr>, sy_accepts_tcp = True, sy_accepts_udp = True,
     sy_alive = True, sy_listening = True,
     sy_closed = {#}, sy_issued = is\<rparr>"

abbreviation run_chan :: "operation_event list \<Rightarrow> (net_chan, bool option) notify_channel" where
  "run_chan evs \<equiv> \<lparr>nc_chan = (evs, True, True), nc_event = None\<rparr>"

lemma run_chans:
  "sh_ch (run_stack evs rx) = run_chan evs" "(run_stack evs rx)\<lparr>sh_ch := run_chan evs'\<rparr> = run_stack evs' rx"
  "sh_ch (run_reading evs) = run_chan evs" "(run_reading evs)\<lparr>sh_ch := run_chan evs'\<rparr> = run_reading evs'"
  by (simp_all add: run_reading_def run_accepted_def run_stack_def net_stack_def)

lemma run_announced: "sys_reach net (run_at (run_accepted [] [[7, 8, 9]]) [] [] [] 0 {})"
proof -
  have "sys_reach net (run_at net_stack [] [] [] 0 {})"
    using sys_start[OF net_build] by (simp add: sys_init_def)
  from sys_next[OF this idle_turn[of _ _ 0 "Some [4, 6, 1, 5, 80]"]]
  have 1: "sys_reach net (run_at (run_stack [Ready (Typed_Tcp 0)] [[7, 8, 9]]) [] [] [] 0 {})"
    using run1 by simp
  have "sys_reach net (run_at (run_stack [] [[7, 8, 9]]) [\<lparr>events_list = [Ready (Typed_Tcp 0)]\<rparr>] [] [] 0 {})"
    using sys_next[OF 1 generate_ready] run_collect[of "Ready (Typed_Tcp 0)"] by (simp add: run_chans net_def)
  from sys_next[OF this turn[of _ "[]" _ "[]" _ 0 None]] show ?thesis using run2 by simp
qed

lemma run_open: "sys_reach net (run_at (run_accepted [] [[7, 8, 9]]) [] [] [run_stream] 1 {})"
proof -
  have "tcp_poll_next \<lparr>ac_taken = 0\<rparr> True (run_accepted [] [[7, 8, 9]]) = (Poll_ready (Some (Inr run_stream)), \<lparr>ac_taken = 1\<rparr>)"
    by (simp add: tcp_poll_next_def run_accepted_def run_info_def run_stream_def)
  with sys_next[OF run_announced user[OF accept_tcp]] show ?thesis by simp
qed

lemma run_started: "sys_reach net (run_at (run_reading [Read 0 0 0]) [] [run_future] [run_stream] 1 {0})"
proof -
  have "sh_bufs (run_accepted [] [[7, 8, 9]]) 0 = None" by (simp add: run_accepted_def run_stack_def net_stack_def)
  with sys_next[OF run_open user[OF start[of "Op_read run_stream" _ 0 0 _ run_buf True]]] run3 show ?thesis
    by (simp add: run_future_def)
qed

lemma run_reach: "sys_reach net run_sys"
proof -
  have "sys_reach net (run_at (run_reading []) [\<lparr>events_list = [Read 0 0 0]\<rparr>] [run_future] [run_stream] 1 {0})"
    using sys_next[OF run_started generate_ready] run_collect[of "Read 0 0 0"] by (simp add: run_chans net_def)
  from sys_next[OF this turn[of _ "[]" _ "[]" _ 0 None]] show ?thesis
    using run4 by (simp add: run_sys_def)
qed

text \<open>Another end of the run: the stack and the generator are dropped while the read waits.\<close>

definition run_dropped :: "(net_chan, bool option, net_buf, net_set, ip_cidr list, nat) tcp_stack" where
  "run_dropped = (run_reading [])\<lparr>sh_ch := \<lparr>nc_chan = ([], True, False), nc_event = None\<rparr>, sh_wakers := [None],
     sh_bufs := [0 \<mapsto> \<lparr>arc_strong = 1, arc_data = \<lparr>sb_inner = run_buf\<rparr>\<rparr>], sh_trace := [Dropped_buf 0, Hung_up 0]\<rparr>"

definition run_orphan :: net_sys where
  "run_orphan = (run_at run_dropped [] [run_future] [run_stream] 1 {0})\<lparr>sy_alive := False, sy_listening := False\<rparr>"

lemma run_orphan_reach: "sys_reach net run_orphan"
proof -
  let ?s = "(run_reading [Read 0 0 0])\<lparr>sh_wakers := [None]\<rparr>"
  have "stack_drop net [0] (run_reading [Read 0 0 0]) = Inr ?s"
    by (simp add: stack_drop_def do_waker_acts_def run_reading_def run_accepted_def run_stack_def Let_def)
  moreover have "length (sh_wakers (run_reading [Read 0 0 0])) = 1"
    by (simp add: run_reading_def run_accepted_def run_stack_def)
  ultimately have "sys_reach net ((run_at ?s [] [run_future] [run_stream] 1 {0})\<lparr>sy_alive := False\<rparr>)"
    using sys_next[OF run_started drop_stack[of _ "[0]"]] by (auto simp: lessThan_Suc)
  from sys_next[OF this drop_generator] show ?thesis
    by (simp add: run_orphan_def run_dropped_def generator_drop_def run_chans net_simps drop_tx_def drop_buf_def arc_drop_def
      run_reading_def run_accepted_def run_stack_def net_stack_def)
qed

section \<open>Properties\<close>

text \<open>C4 (safety). However users, the event generator and the host interleave, from any successful \<^verbatim>\<open>build\<close>
  on, the next turn of the stack, with a batch the generator handed out or without one, and with
  any packet, returns, or fails in one of the two \<^verbatim>\<open>expect\<close> calls on the endpoints of a ready TCP
  socket. No handle is ever unknown or of the wrong type, no match arm marked unreachable is
  reached, no UDP socket is unbound, no freed buffer is touched.\<close>

theorem system_turn_safe:
  assumes "deps_laws D q tx rx" "iface_laws B (d_udp D) (d_set D) (d_iface D)" "sys_reach D y"
    and "evs = None \<or> (\<exists>b\<in>set (sy_batches y). evs = Some b)"
  shows "returns (drive_once D now packet evs (sy_stack y)) \<or>
    (\<exists>p. drive_once D now packet evs (sy_stack y) = Inl p \<and> endpoint_panic p)"
proof -
  note inv = sys_invD[OF sys_reach_inv[OF assms(1-3)]]
  obtain bs where bs: "mset (handed (sy_batches y)) = mset (handed bs @ batch evs)"
    using assms(4)
  proof (elim disjE bexE)
    fix b assume b: "b \<in> set (sy_batches y)" "evs = Some b"
    from split_list[OF b(1)] obtain xs ys where "sy_batches y = xs @ b # ys" by blast
    with that[of "xs @ ys"] b(2) show thesis by simp
  qed (use that[of "sy_batches y"] in simp)
  let ?R = "events_reqs (handed bs)" and ?K = "events_token (handed bs)"
  have evs: "\<forall>ev\<in>set (batch evs). \<not> udp_shutdown ev" using inv(5) mset_eq_setD[OF bs] by auto
  have "good D q (fut_refs (sy_futures y)) (sy_closed y) (?R + events_reqs (batch evs)) (sy_stack y)
      (?R + events_reqs (batch evs)) (?K + events_token (batch evs)) (sy_stack y)"
    using inv(1-3) hand_mset[OF bs] by (simp add: good_def)
  from good_drive_once[OF assms(1,2) this evs, of now packet] show ?thesis by (auto simp: returns_def)
qed

theorem system_turn_safe_witness:
  "returns (drive_once net 5 (Some [4, 17, 0, 5, 53]) None (sy_stack run_sys)) \<or>
    (\<exists>p. drive_once net 5 (Some [4, 17, 0, 5, 53]) None (sy_stack run_sys) = Inl p \<and> endpoint_panic p)"
  by (rule system_turn_safe[OF net_laws net_poll_laws run_reach]) simp

text \<open>C1 (safety). The \<^verbatim>\<open>unsafe\<close> casts are sound, also when the user runs on another thread in the middle of a turn: at every
  moment of every run, when the result channel of a suspended read, write, recv or send has been answered or hung up
  by then, the operation can be resumed with what it receives, with the references that are counted at that moment. It
  returns what it received, or a broken pipe, and its buffer, the same as if it were resumed later. The
  \<^verbatim>\<open>expect("buf reference count not equal 1")\<close> cannot fail, because every reference of the stack is dropped before the
  answer is sent, and no second request shares the buffer.\<close>

theorem resume_never_panics:
  assumes "deps_laws D q tx rx" "iface_laws B (d_udp D) (d_set D) (d_iface D)" "sys_reach D y"
    and "f \<in> set (sy_futures y)" "received (sh_trace (at_moment n (sy_stack y))) (fu_tx f) r"
  shows "\<exists>res buf s s'. op_finish (fu_op f) (fu_buf f) r (at_moment n (sy_stack y)) = Some (Inr (res, buf, s)) \<and>
    op_finish (fu_op f) (fu_buf f) r (sy_stack y) = Some (Inr (res, buf, s')) \<and> gives r res"
  by (rule resume_at_moment[OF assms])

theorem resume_never_panics_witness:
  "sh_trace run_read = [Dropped_buf 0, Replied 0 (Reply_usize (Inr 3))] \<and>
   (\<exists>buf s. op_finish (Op_read run_stream) 0 (Some (Reply_usize (Inr 3))) (at_moment 2 run_read) =
      Some (Inr (Got_usize (Inr 3), buf, s))) \<and>
   strong_count (sh_bufs (at_moment 0 run_read)) 0 = 2"
proof -
  have t: "sh_trace run_read = [Dropped_buf 0, Replied 0 (Reply_usize (Inr 3))]" by (simp add: run_read_def)
  have "received (sh_trace (at_moment 2 (sy_stack run_sys))) (fu_tx run_future) (Some (Reply_usize (Inr 3)))"
    by (simp add: run_sys_def run_future_def at_moment_def t received_def)
  from resume_never_panics[OF net_laws net_poll_laws run_reach _ this] show ?thesis
    by (auto simp: run_sys_def run_future_def t at_moment_def strong_count_def run_read_def)
qed

text \<open>C8 (liveness). No operation waits for ever on a program that is gone: when the stack and the event
  generator have been dropped, in any order and with whatever was queued or parked at the time,
  and the host holds no batch, no request is left anywhere, and every suspended operation has
  received an answer or the end of its channel, with which it returns.\<close>

theorem orphaned_operations_end:
  assumes "deps_laws D q tx rx" "iface_laws B (d_udp D) (d_set D) (d_iface D)" "sys_reach D y"
    and "\<not> sy_alive y" "\<not> sy_listening y" "sy_batches y = []"
  shows "in_flight q y = {#} \<and> (\<forall>f\<in>set (sy_futures y). \<exists>r res buf s'. received (sh_trace (sy_stack y)) (fu_tx f) r \<and>
    op_finish (fu_op f) (fu_buf f) r (sy_stack y) = Some (Inr (res, buf, s')) \<and> gives r res)"
proof (intro conjI ballI)
  show none: "in_flight q y = {#}" by (rule gone_in_flight[OF gone_reach[OF assms(1,3)] assms(4-6)])
  note inv = sys_invD[OF sys_reach_inv[OF assms(1-3)]]
  fix f assume f: "f \<in> set (sy_futures y)"
  then have "fu_tx f \<in> sy_issued y" using inv(7) by (simp add: futures_ok_def)
  then have "resolved (sh_trace (sy_stack y)) (fu_tx f) = 1"
    using inv(6) none by (simp add: channels_ok_def in_flight_def)
  then obtain r where r: "received (sh_trace (sy_stack y)) (fu_tx f) r" using resolved_received by fastforce
  moreover from resume_returns[OF assms(1-3) f r] obtain res buf s' where
    o: "op_finish (fu_op f) (fu_buf f) r (sy_stack y) = Some (Inr (res, buf, s'))" by blast
  ultimately show "\<exists>r res buf s'. received (sh_trace (sy_stack y)) (fu_tx f) r \<and>
      op_finish (fu_op f) (fu_buf f) r (sy_stack y) = Some (Inr (res, buf, s')) \<and> gives r res" using op_finish_gives[OF o] by blast
qed

theorem orphaned_operations_end_witness:
  "\<exists>r res buf s'. received [Dropped_buf 0, Hung_up 0] 0 r \<and>
    op_finish (Op_read run_stream) 0 r run_dropped = Some (Inr (res, buf, s')) \<and> gives r res"
  using orphaned_operations_end[OF net_laws net_poll_laws run_orphan_reach]
  by (simp add: run_orphan_def run_future_def run_dropped_def)

text \<open>C2 (safety). Every operation is answered at most once and none is forgotten: in every reachable
  state a result channel that was handed to the stack is either still with a request in the
  channel, in a batch or in a registered waker, exactly once, or it was answered or hung up, exactly
  once.\<close>

theorem answered_exactly_once:
  assumes "deps_laws D q tx rx" "iface_laws B (d_udp D) (d_set D) (d_iface D)" "sys_reach D y" "t \<in> sy_issued y"
  shows "tx_count (in_flight q y) t + resolved (sh_trace (sy_stack y)) t = 1"
  using sys_invD(6)[OF sys_reach_inv[OF assms(1-3)]] assms(4) unfolding channels_ok_def in_flight_def by simp

theorem answered_exactly_once_witness:
  "tx_count (in_flight fst run_sys) 0 + resolved (sh_trace run_read) 0 = 1"
  using answered_exactly_once[OF net_laws net_poll_laws run_reach, of 0] by (simp add: run_sys_def)

text \<open>C5 (invariant). In every reachable state the stack has at most one UDP socket per destination
  address, each UDP socket is bound, the addresses it remembers as accepted are exactly the
  addresses of its UDP sockets, and the set of handles is exactly the set of its sockets, each with
  its type.\<close>

theorem registry_consistent:
  assumes "deps_laws D q tx rx" "iface_laws B (d_udp D) (d_set D) (d_iface D)" "sys_reach D y"
  shows "(\<forall>h h' u u'. get_udp D h (sy_stack y) = Inr u \<longrightarrow> get_udp D h' (sy_stack y) = Inr u' \<longrightarrow>
      udp_addr (d_udp D) u = udp_addr (d_udp D) u' \<longrightarrow> h = h') \<and>
    (\<forall>h u. get_udp D h (sy_stack y) = Inr u \<longrightarrow> udp_addr (d_udp D) u \<noteq> None) \<and>
    st_accepted_udp_sockets (sy_stack y) =
      {a. \<exists>h u. get_udp D h (sy_stack y) = Inr u \<and> udp_addr (d_udp D) u = Some a} \<and>
    (\<forall>h. Typed_Udp h \<in> st_socket_handles (sy_stack y) \<longleftrightarrow> (\<exists>u. get_udp D h (sy_stack y) = Inr u)) \<and>
    (\<forall>h. Typed_Tcp h \<in> st_socket_handles (sy_stack y) \<longleftrightarrow> (\<exists>t. get_tcp D h (sy_stack y) = Inr t))"
proof -
  note inv = sys_invD(1)[OF sys_reach_inv[OF assms]]
  have "registry_ok (registry D (sy_stack y))" "st_accepted_udp_sockets (sy_stack y) = udp_addrs (registry D (sy_stack y))"
    using inv by (simp_all add: stack_inv_def)
  then show ?thesis
    using inv_udp_handle[OF inv] inv_tcp_handle[OF inv]
    by (auto simp: registry_ok_def registry_udp udp_addrs_def)
qed

theorem registry_consistent_witness:
  "st_accepted_udp_sockets run_read = {a. \<exists>h u. get_udp net h run_read = Inr u \<and> udp_addr (d_udp net) u = Some a} \<and>
   (\<exists>t. get_tcp net 0 run_read = Inr t)"
proof -
  have s: "sy_stack run_sys = run_read" by (simp add: run_sys_def)
  have "Typed_Tcp 0 \<in> st_socket_handles run_read" by (simp add: run_read_def run_accepted_def run_stack_def)
  with registry_consistent[OF net_laws net_poll_laws run_reach, unfolded s] show ?thesis by blast
qed

text \<open>C6 (safety). No buffer is leaked: in a reachable state in which no operation is suspended and no
  request is under way, no buffer is referenced any more.\<close>

theorem no_buffer_leak:
  assumes "deps_laws D q tx rx" "iface_laws B (d_udp D) (d_set D) (d_iface D)" "sys_reach D y"
    and "sy_futures y = []" "in_flight q y = {#}"
  shows "strong_count (sh_bufs (sy_stack y)) b = 0"
  using sys_invD(2)[OF sys_reach_inv[OF assms(1-3)]] assms(4,5) by (simp add: owned_def in_flight_def)

theorem no_buffer_leak_witness:
  "strong_count (sh_bufs net_stack) 0 = 0"
  using no_buffer_leak[OF net_laws net_poll_laws sys_start[OF net_build], of 0]
  by (simp add: sys_init_def in_flight_def held_def net_stack_def)

section \<open>Handles of the user\<close>

lemma send_event_closed:
  assumes "crossbeam_laws (d_cb D) q tx rx" "\<not> rx (nc_chan (sh_ch s))"
  shows "send_event D ev s = (SendError ev, s)"
  using crossbeam_send_err[OF assms, of ev] by (simp add: send_event_def notify_send_def)

text \<open>C38 (error). When the event generator is gone, every operation fails at once with a broken pipe and
  gives back the very buffer it was given, and the store of buffers is as before: the shared cell
  is taken apart again, the cast does not panic, nothing leaks.\<close>

theorem start_on_closed_channel:
  assumes "crossbeam_laws (d_cb D) q tx rx" "\<not> rx (nc_chan (sh_ch s))" "sh_bufs s b = None"
  shows "read_start D st buf b t s = Inr (Done (Inl (Error_new BrokenPipe
      ''TcpStack or EventGenerator may be dropped, send read operation event failed'')) buf, drop_tx t s) \<and>
    write_start D st buf b t s = Inr (Done (Inl (Error_new BrokenPipe
      ''TcpStack or EventGenerator may be dropped, send write operation event failed'')) buf, drop_tx t s) \<and>
    recv_start D us buf b t s = Inr (Done (Inl (Error_new BrokenPipe
      ''TcpStack or EventGenerator may be dropped, send read operation event failed'')) buf, drop_tx t s) \<and>
    send_start D us buf a b t s = Inr (Done (Inl (Error_new BrokenPipe
      ''TcpStack or EventGenerator may be dropped, send write operation event failed'')) buf, drop_tx t s) \<and>
    shutdown_start D st t s = Inr (Some (Inl (Error_new BrokenPipe
      ''TcpStack or EventGenerator may be dropped, send shutdown operation event failed'')), drop_tx t s)"
proof -
  have closed: "\<not> rx (nc_chan (sh_ch (share_buf b buf s)))" using assms(2) by (simp add: share_facts)
  note e = send_event_closed[OF assms(1) closed] send_event_closed[OF assms(1,2)]
  show ?thesis
    by (simp add: read_start_def write_start_def recv_start_def send_start_def shutdown_start_def e cast_mut
      take_back_shared[OF assms(3)])
qed

theorem start_on_closed_channel_witness:
  "read_start net run_stream run_buf 0 0 (net_stack\<lparr>sh_ch := \<lparr>nc_chan = ([], True, False), nc_event = None\<rparr>\<rparr>) =
    Inr (Done (Inl (Error_new BrokenPipe
      ''TcpStack or EventGenerator may be dropped, send read operation event failed'')) run_buf,
      drop_tx 0 (net_stack\<lparr>sh_ch := \<lparr>nc_chan = ([], True, False), nc_event = None\<rparr>\<rparr>))"
  using start_on_closed_channel[OF deps_lawsD(1)[OF net_laws],
      of "net_stack\<lparr>sh_ch := \<lparr>nc_chan = ([], True, False), nc_event = None\<rparr>\<rparr>" 0 run_stream run_buf 0]
  by (simp add: net_stack_def)

text \<open>C27 (functional). A ready TCP socket is announced once, with the two ends swapped: the stream's
  local address is the remote end of smoltcp's socket, the client that sent the SYN, and its peer is
  the address the client wanted to reach. An acceptor that has taken everything before gets this
  stream next. A socket that cannot receive yet is not announced.\<close>

theorem ready_then_accept:
  assumes "get_tcp D h s = Inr t" "handle_ready_wake_event D (Typed_Tcp h) s = Inr s'"
    and "ac_taken ac = length (st_tcp_stream_tx s)"
  shows "if t_may_recv (d_tcp D) t then
      \<exists>lip lport rip rport st ac'. t_remote_endpoint (d_tcp D) t = Some (lip, lport) \<and>
        t_local_endpoint (d_tcp D) t = Some (rip, rport) \<and>
        tcp_poll_next ac True s' = (Poll_ready (Some (Inr st)), ac') \<and> ts_handle st = h \<and>
        local_addr st = SocketAddr_new lip lport \<and> peer_addr st = SocketAddr_new rip rport \<and>
        fst (tcp_poll_next ac' True s') = Pending
    else fst (tcp_poll_next ac True s') = Pending"
proof (cases "t_may_recv (d_tcp D) t")
  case True
  with assms obtain lip lport rip rport where
    "t_remote_endpoint (d_tcp D) t = Some (lip, lport)" "t_local_endpoint (d_tcp D) t = Some (rip, rport)"
    "s' = s\<lparr>st_tcp_stream_tx := st_tcp_stream_tx s @
       [Inr \<lparr>ti_handle = h, ti_local_addr = SocketAddr_new lip lport, ti_remote_addr = SocketAddr_new rip rport\<rparr>]\<rparr>"
    by (auto simp: handle_ready_wake_event_def split: option.split_asm)
  with True assms(3) show ?thesis
    by (auto simp: tcp_poll_next_def local_addr_def peer_addr_def)
next
  case False
  with assms(1,2) have "park_tcp D (t_register_recv_waker (d_tcp D)) (Wake_ready h) h t s = Inr s'"
    by (simp add: handle_ready_wake_event_def)
  from park_outer(1)[OF this] False assms(3) show ?thesis by (simp add: outer_def tcp_poll_next_def)
qed

theorem ready_then_accept_witness:
  "\<exists>st ac'. tcp_poll_next \<lparr>ac_taken = 1\<rparr> True
      (net_live\<lparr>st_tcp_stream_tx := st_tcp_stream_tx net_live @ [Inr run_info]\<rparr>) = (Poll_ready (Some (Inr st)), ac') \<and>
    local_addr st = SocketAddrV4 1 9 \<and> peer_addr st = SocketAddrV4 5 80"
proof -
  have g: "get_tcp net 0 net_live = Inr net_sock"
    by (simp add: get_tcp_def net_live_def net_stack_def net_simps)
  have r: "handle_ready_wake_event net (Typed_Tcp 0) net_live =
      Inr (net_live\<lparr>st_tcp_stream_tx := st_tcp_stream_tx net_live @ [Inr run_info]\<rparr>)"
    using g by (simp add: handle_ready_wake_event_def net_simps net_sock_def run_info_def)
  have "ac_taken \<lparr>ac_taken = 1\<rparr> = length (st_tcp_stream_tx net_live)" by (simp add: net_live_def)
  from ready_then_accept[OF g r this] show ?thesis by (simp add: net_simps net_sock_def) blast
qed

section \<open>Data\<close>

text \<open>
  Documented behaviour of compio's buffers: a write through the mutable slice replaces the memory;
  marking bytes as initialised leaves the memory alone and extends the initialised prefix, and does nothing when the prefix is
  that long already.
\<close>

definition io_laws :: "'b io_buf_crate \<Rightarrow> bool" where
  "io_laws IO \<longleftrightarrow>
     (\<forall>m b. length m = length (io_as_mut_slice IO b) \<longrightarrow> io_as_mut_slice IO (io_put IO m b) = m \<and>
        length (io_as_slice IO (io_put IO m b)) = length (io_as_slice IO b)) \<and>
     (\<forall>n b. n \<le> length (io_as_mut_slice IO b) \<longrightarrow>
        io_as_slice IO (io_set_buf_init IO n b) = take (max n (length (io_as_slice IO b))) (io_as_mut_slice IO b))"

lemma net_io_laws: "io_laws net_io"
  by (auto simp: io_laws_def net_io_def max_def min_def)

text \<open>The buffer after a transfer of \<open>n\<close> bytes into it, the answer, and the cast.\<close>

lemma filled_answer_finish:
  assumes "io_laws (d_io D)" "sh_bufs s b = Some \<lparr>arc_strong = 2, arc_data = sb\<rparr>" "sh_bufs s1 = sh_bufs s"
    and m: "length m = length (as_slice_mut (d_io D) sb)" "n \<le> length m"
    and sb': "sb' = write_slice_mut (d_io D) m sb"
    and s2: "s2 = answer b t r (set_buf b (set_initiated_len (d_io D) n sb') (set_buf b sb' s1))"
  shows "sh_trace s2 = sh_trace s1 @ [Dropped_buf b, Replied t r]"
    "\<exists>buf s3. finish_with cast_dyn_io_buf_mut msg b (Some res) s2 = Inr (res, buf, s3) \<and>
      io_as_slice (d_io D) buf = take (max n (length (as_slice (d_io D) sb))) m \<and>
      take n (io_as_slice (d_io D) buf) = take n m \<and> sh_bufs s3 b = None"
proof -
  have "sh_bufs s2 b = Some \<lparr>arc_strong = 1, arc_data = set_initiated_len (d_io D) n sb'\<rparr>"
    using assms(2,3) by (simp add: s2 answer_def send_reply_def drop_buf_def set_buf_def arc_update_def arc_drop_def)
  moreover have "io_as_slice (d_io D) (sb_inner (set_initiated_len (d_io D) n sb')) = take (max n (length (as_slice (d_io D) sb))) m"
    using assms(1) m
    by (simp add: sb' io_laws_def set_initiated_len_def write_slice_mut_def as_slice_mut_def as_slice_def)
  ultimately show "\<exists>buf s3. finish_with cast_dyn_io_buf_mut msg b (Some res) s2 = Inr (res, buf, s3) \<and>
      io_as_slice (d_io D) buf = take (max n (length (as_slice (d_io D) sb))) m \<and>
      take n (io_as_slice (d_io D) buf) = take n m \<and> sh_bufs s3 b = None"
    by (simp add: finish_with_def cast_dyn_io_buf_mut_def arc_into_inner_def sb_into_inner_def min_def)
  show "sh_trace s2 = sh_trace s1 @ [Dropped_buf b, Replied t r]"
    by (simp add: s2 answer_def send_reply_def drop_buf_def set_buf_def)
qed

text \<open>C21 (functional). A read delivers the data. When the socket has bytes queued, handling the request
  takes them from the socket into the memory of the user's buffer, marks them initialised, drops
  the stack's reference and then answers with their number; resuming the read returns that number
  and a buffer that holds the memory \<^verbatim>\<open>recv_slice\<close> left, with the bytes taken from the socket at its beginning. All of them count as initialised;
  bytes that were initialised before stay so, also when fewer arrive, as for the arrays of the examples.\<close>

theorem read_delivers:
  assumes "io_laws (d_io D)" "Typed_Tcp h \<in> st_socket_handles s" "get_tcp D h s = Inr sock"
    and "0 < t_recv_queue (d_tcp D) sock" "sh_bufs s b = Some \<lparr>arc_strong = 2, arc_data = sb\<rparr>"
    and "t_recv_slice (d_tcp D) (as_slice_mut (d_io D) sb) sock = (Inr n, m, sock')"
    and "length m = length (as_slice_mut (d_io D) sb)" "n \<le> length m"
  shows "\<exists>s1 buf s2. handle_tcp_wake_event D (Read h b t) s = Inr s1 \<and>
    sh_trace s1 = sh_trace s @ [Dropped_buf b, Replied t (Reply_usize (Inr n))] \<and>
    read_finish b (Some (Inr n)) s1 = Inr (Inr n, buf, s2) \<and>
    io_as_slice (d_io D) buf = take (max n (length (as_slice (d_io D) sb))) m \<and>
    take n (io_as_slice (d_io D) buf) = take n m \<and> sh_bufs s2 b = None"
proof -
  let ?p = "put_socket D h (Socket_Tcp sock') s" and ?sb = "write_slice_mut (d_io D) m sb"
  have p: "sh_bufs ?p = sh_bufs s" "sh_trace ?p = sh_trace s" by (simp_all add: put_socket_def)
  note f = filled_answer_finish[OF assms(1,5) p(1) assms(7,8) refl refl, where t = t and r = "Reply_usize (Inr n)"]
  have "handle_tcp_wake_event D (Read h b t) s =
      Inr (answer b t (Reply_usize (Inr n)) (set_buf b (set_initiated_len (d_io D) n ?sb) (set_buf b ?sb ?p)))"
    using assms(2-6) by (simp add: buf_value_def Let_def)
  with f(1) f(2)[of _ "Inr n"] p(2) show ?thesis unfolding read_finish_def by auto
qed

theorem read_delivers_witness:
  "\<exists>s1 buf s2. handle_tcp_wake_event net (Read 0 0 3) net_live = Inr s1 \<and>
    read_finish 0 (Some (Inr 3)) s1 = Inr (Inr 3, buf, s2) \<and> io_as_slice net_io buf = [7, 8, 9]"
proof -
  have g: "get_tcp net 0 net_live = Inr net_sock" by (simp add: get_tcp_def net_live_def net_stack_def net_simps)
  let ?sb = "\<lparr>sb_inner = \<lparr>nb_front = [], nb_mem = [0, 0, 0, 0], nb_init = 0\<rparr>\<rparr> :: net_buf shared_buf"
  have r: "t_recv_slice (d_tcp net) (as_slice_mut (d_io net) ?sb) net_sock = (Inr 3, [7, 8, 9, 0], net_sock\<lparr>nt_rx := []\<rparr>)"
    by (simp add: net_simps net_sock_def as_slice_mut_def numeral_3_eq_3)
  have "io_laws (d_io net)" using net_io_laws by (simp add: net_def)
  from read_delivers[OF this _ g _ _ r, of 0 3] show ?thesis
    by (auto simp: net_live_def net_simps net_sock_def as_slice_mut_def as_slice_def)
qed

text \<open>C22 (functional). A datagram is delivered whole: when the UDP socket has one that fits the buffer,
  handling the request and resuming the operation returns its length and its sender's address in
  the form of a socket address, and a buffer that begins with the datagram, all of it initialised; a longer part that was initialised
  before stays so.\<close>

theorem recv_delivers:
  assumes "io_laws (d_io D)" "Typed_Udp h \<in> st_socket_handles s" "get_udp D h s = Inr sock"
    and "u_can_recv (d_udp D) sock" "sh_bufs s b = Some \<lparr>arc_strong = 2, arc_data = sb\<rparr>"
    and "u_recv_slice (d_udp D) (as_slice_mut (d_io D) sb) sock = (Inr (n, (ip, port)), m, sock')"
    and "length m = length (as_slice_mut (d_io D) sb)" "n \<le> length m"
  shows "\<exists>s1 buf s2. handle_udp_wake_event D (Recv h b t) s = Inr s1 \<and>
    sh_trace s1 = sh_trace s @ [Dropped_buf b, Replied t (Reply_from (Inr (n, SocketAddr_new ip port)))] \<and>
    recv_finish b (Some (Inr (n, SocketAddr_new ip port))) s1 = Inr (Inr (n, SocketAddr_new ip port), buf, s2) \<and>
    io_as_slice (d_io D) buf = take (max n (length (as_slice (d_io D) sb))) m \<and>
    take n (io_as_slice (d_io D) buf) = take n m \<and> sh_bufs s2 b = None"
proof -
  let ?p = "put_socket D h (Socket_Udp sock') s" and ?sb = "write_slice_mut (d_io D) m sb"
    and ?r = "Reply_from (Inr (n, SocketAddr_new ip port))"
  have p: "sh_bufs ?p = sh_bufs s" "sh_trace ?p = sh_trace s" by (simp_all add: put_socket_def)
  note f = filled_answer_finish[OF assms(1,5) p(1) assms(7,8) refl refl, where t = t and r = ?r]
  have "handle_udp_wake_event D (Recv h b t) s =
      Inr (answer b t ?r (set_buf b (set_initiated_len (d_io D) n ?sb) (set_buf b ?sb ?p)))"
    using assms(2-6) by (simp add: buf_value_def Let_def)
  with f(1) f(2)[of _ "Inr (n, SocketAddr_new ip port)"] p(2) show ?thesis unfolding recv_finish_def by auto
qed

definition net_udp_live :: "(net_chan, bool option, net_buf, net_set, ip_cidr list, nat) tcp_stack" where
  "net_udp_live = net_stack\<lparr>sh_bufs := [0 \<mapsto> \<lparr>arc_strong = 2, arc_data = \<lparr>sb_inner = run_buf\<rparr>\<rparr>],
     st_socket_set := [Some (Socket_Udp \<lparr>nu_local = (Some (IpV4 5), 53), nu_rx = [([1, 2], (IpV4 1, 9))], nu_tx = [],
       nu_recv_waker = None, nu_send_waker = None\<rparr>)],
     st_socket_handles := {Typed_Udp 0}, st_accepted_udp_sockets := {SocketAddrV4 5 53}\<rparr>"

theorem recv_delivers_witness:
  "\<exists>s1 buf s2. handle_udp_wake_event net (Recv 0 0 4) net_udp_live = Inr s1 \<and>
    recv_finish 0 (Some (Inr (2, SocketAddrV4 1 9))) s1 = Inr (Inr (2, SocketAddrV4 1 9), buf, s2) \<and>
    io_as_slice net_io buf = [1, 2]"
proof -
  let ?u = "\<lambda>rx. \<lparr>nu_local = (Some (IpV4 5), 53), nu_rx = rx, nu_tx = [], nu_recv_waker = None, nu_send_waker = None\<rparr>"
  have g: "get_udp net 0 net_udp_live = Inr (?u [([1, 2], (IpV4 1, 9))])"
    by (simp add: get_udp_def net_udp_live_def net_stack_def net_simps)
  have r: "u_recv_slice (d_udp net) (as_slice_mut (d_io net) \<lparr>sb_inner = run_buf\<rparr>) (?u [([1, 2], (IpV4 1, 9))]) =
      (Inr (2, (IpV4 1, 9)), [1, 2, 0, 0], ?u [])"
    by (simp add: net_simps as_slice_mut_def run_buf_def numeral_2_eq_2)
  have "io_laws (d_io net)" using net_io_laws by (simp add: net_def)
  from recv_delivers[OF this _ g _ _ r, of 0 4] show ?thesis
    by (auto simp: net_udp_live_def net_simps as_slice_mut_def as_slice_def run_buf_def)
qed

end
