(* ===== verification/Host.thy ===== *)
theory Host
  imports System_Claims
begin

text \<open>
  \<^verbatim>\<open>run_stack\<close> of \<^verbatim>\<open>examples/echo.rs\<close>, which the other examples repeat word for word: the four tasks that
  connect a tun device to the stack. One reads packets, one writes packets, one polls the event
  generator, and one drives the stack with whatever the other two deliver. They talk through three
  unbounded flume channels. The device, which is a file of the operating system, is a parameter.
\<close>

section \<open>The device\<close>

record 't tun_device =
  tun_read :: "nat \<Rightarrow> 't \<Rightarrow> (string + bytes) \<times> 't"     \<comment> \<open>\<^verbatim>\<open>read\<close> into a buffer of this length: the bytes read\<close>
  tun_write :: "bytes \<Rightarrow> 't \<Rightarrow> (string + nat) \<times> 't"

text \<open>Documented behaviour of \<^verbatim>\<open>read\<close>: it never reads more than the buffer holds.\<close>

definition tun_laws :: "'t tun_device \<Rightarrow> bool" where
  "tun_laws T \<longleftrightarrow> (\<forall>n t data t'. tun_read T n t = (Inr data, t') \<longrightarrow> length data \<le> n)"

section \<open>State\<close>

text \<open>
  \<open>ho_packets\<close> and \<open>ho_replies\<close> are the channels from the reader and to the writer; the channel of
  batches is \<open>sy_batches\<close> of the system. A task that has returned has dropped its ends of the
  channels.
\<close>

definition host_mtu :: nat where
  "host_mtu = 1500"

record ('c, 'e, 'l, 'b, 'ss, 'if, 'cap, 't) host =
  ho_sys :: "('c, 'e, 'l, 'b, 'ss, 'if, 'cap) sys"
  ho_tun :: 't
  ho_buffer :: bytes
  ho_packets :: "bytes list"
  ho_replies :: "bytes list"
  ho_sleep :: "nat option"
  ho_reading :: bool
  ho_writing :: bool
  ho_polling :: bool
  ho_driving :: bool

definition host_init ::
  "('c, 'e, 'b, 'ss, 'if, 'cap) tcp_stack \<Rightarrow> acceptor \<Rightarrow> acceptor \<Rightarrow> 't \<Rightarrow> ('c, 'e, 'l, 'b, 'ss, 'if, 'cap, 't) host" where
  "host_init s ta ua tun = \<lparr>ho_sys = sys_init s ta ua, ho_tun = tun, ho_buffer = [], ho_packets = [], ho_replies = [],
     ho_sleep = None, ho_reading = True, ho_writing = True, ho_polling = True, ho_driving = True\<rparr>"

section \<open>The tasks\<close>

text \<open>\<^verbatim>\<open>BytesMut::resize\<close> and \<^verbatim>\<open>BytesMut::split_to\<close>.\<close>

definition resize :: "nat \<Rightarrow> u8 \<Rightarrow> bytes \<Rightarrow> bytes" where
  "resize n v b = take n b @ replicate (n - length b) v"

definition split_to :: "nat \<Rightarrow> bytes \<Rightarrow> (bytes \<times> bytes) outcome" where
  "split_to n b = (if n \<le> length b then Inr (take n b, drop n b) else Inl (Panic_expect ''split_to out of bounds''))"

definition read_task ::
  "'t tun_device \<Rightarrow> ('c, 'e, 'l, 'b, 'ss, 'if, 'cap, 't) host \<Rightarrow> ('c, 'e, 'l, 'b, 'ss, 'if, 'cap, 't) host outcome" where
  "read_task T h =
     (let buffer = (if length (ho_buffer h) < host_mtu then resize host_mtu 0 (ho_buffer h) else ho_buffer h);
          (res, tun) = tun_read T (length buffer) (ho_tun h);
          h1 = h\<lparr>ho_tun := tun, ho_buffer := buffer\<rparr>
      in case res of
           Inl _ \<Rightarrow> Inr (h1\<lparr>ho_reading := False\<rparr>)
         | Inr data \<Rightarrow>
             if length data = 0 then Inr (h1\<lparr>ho_reading := False\<rparr>)
             else obind (split_to (length data) (data @ drop (length data) buffer)) (\<lambda>(packet, rest).
               if ho_driving h then
                 Inr (h1\<lparr>ho_buffer := rest, ho_packets := ho_packets h @ [packet]\<rparr>)
               else Inr (h1\<lparr>ho_buffer := rest, ho_reading := False\<rparr>)))"

text \<open>\<^const>\<open>None\<close>: the task is suspended in \<^verbatim>\<open>recv_async\<close>. When the task returns, its end of the channel is dropped with
  what it holds.\<close>

definition write_task ::
  "'t tun_device \<Rightarrow> ('c, 'e, 'l, 'b, 'ss, 'if, 'cap, 't) host \<Rightarrow> ('c, 'e, 'l, 'b, 'ss, 'if, 'cap, 't) host option" where
  "write_task T h =
     (case ho_replies h of
        [] \<Rightarrow> if ho_driving h then None else Some (h\<lparr>ho_writing := False\<rparr>)
      | packet # packets \<Rightarrow>
          (case tun_write T packet (ho_tun h) of
             (Inl _, tun) \<Rightarrow> Some (h\<lparr>ho_tun := tun, ho_replies := [], ho_writing := False\<rparr>)
           | (Inr _, tun) \<Rightarrow> Some (h\<lparr>ho_tun := tun, ho_replies := packets\<rparr>)))"

text \<open>One poll of the events task. When it returns, it drops the generator.\<close>

definition stop_events ::
  "('c, 'e, 'l, 'b, 'tcp, 'udp, 'ss, 'if, 'cap, 'ck) stack_deps \<Rightarrow> ('c, 'e, 'b, 'ss, 'if, 'cap) tcp_stack
   \<Rightarrow> ('c, 'e, 'l, 'b, 'ss, 'if, 'cap, 't) host \<Rightarrow> ('c, 'e, 'l, 'b, 'ss, 'if, 'cap, 't) host" where
  "stop_events D s h = h\<lparr>ho_sys := (ho_sys h)\<lparr>sy_stack := generator_drop D s, sy_generator := W_top, sy_listening := False\<rparr>,
     ho_polling := False\<rparr>"

definition events_task ::
  "('c, 'e, 'l, 'b, 'tcp, 'udp, 'ss, 'if, 'cap, 'ck) stack_deps \<Rightarrow> ('c, 'e, 'l, 'b, 'ss, 'if, 'cap, 't) host
   \<Rightarrow> ('c, 'e, 'l, 'b, 'ss, 'if, 'cap, 't) host option" where
  "events_task D h =
     (let y = ho_sys h; s = sy_stack y
      in case generate_poll (d_cb D) (d_ev D) (sy_generator y, sh_ch s) of
           None \<Rightarrow> None
         | Some (Pending, pc, ch) \<Rightarrow> Some (h\<lparr>ho_sys := y\<lparr>sy_stack := s\<lparr>sh_ch := ch\<rparr>, sy_generator := pc\<rparr>\<rparr>)
         | Some (Poll_ready (Inl _), pc, ch) \<Rightarrow> Some (stop_events D (s\<lparr>sh_ch := ch\<rparr>) h)
         | Some (Poll_ready (Inr events), pc, ch) \<Rightarrow>
             if ho_driving h then
               Some (h\<lparr>ho_sys := y\<lparr>sy_stack := s\<lparr>sh_ch := ch\<rparr>, sy_batches := sy_batches y @ [events], sy_generator := W_top\<rparr>\<rparr>)
             else Some (stop_events D (fold drop_event (events_list events) (s\<lparr>sh_ch := ch\<rparr>)) h))"

text \<open>
  What the selector returns: a message of one of the channels, the news that one of them is empty
  and has lost its sender, or nothing before the timeout. \<open>select_ok\<close> says which of them are possible;
  flume chooses.
\<close>

datatype selected = Sel_packet | Sel_events | Sel_packets_closed | Sel_events_closed | Sel_timeout

fun select_ok :: "selected \<Rightarrow> ('c, 'e, 'l, 'b, 'ss, 'if, 'cap, 't) host \<Rightarrow> bool" where
  "select_ok Sel_packet h \<longleftrightarrow> ho_packets h \<noteq> []"
| "select_ok Sel_events h \<longleftrightarrow> sy_batches (ho_sys h) \<noteq> []"
| "select_ok Sel_packets_closed h \<longleftrightarrow> ho_packets h = [] \<and> \<not> ho_reading h"
| "select_ok Sel_events_closed h \<longleftrightarrow> sy_batches (ho_sys h) = [] \<and> \<not> ho_polling h"
| "select_ok Sel_timeout h \<longleftrightarrow> ho_sleep h \<noteq> None"

definition first :: "'a list \<Rightarrow> 'a option" where
  "first xs = (case xs of [] \<Rightarrow> None | x # _ \<Rightarrow> Some x)"

text \<open>
  When the drive task returns, the stack is dropped, and with the channels' ends the packets and the
  batches that are left. \<open>order\<close> is the order in which smoltcp drops the wakers of the sockets.
\<close>

definition stop_drive ::
  "('c, 'e, 'l, 'b, 'tcp, 'udp, 'ss, 'if, 'cap, 'ck) stack_deps \<Rightarrow> (nat \<Rightarrow> waker_id list)
   \<Rightarrow> ('c, 'e, 'l, 'b, 'ss, 'if, 'cap, 't) host \<Rightarrow> ('c, 'e, 'l, 'b, 'ss, 'if, 'cap, 't) host outcome" where
  "stop_drive D order h =
     (let y = ho_sys h; s = sy_stack y
      in obind (stack_drop D (order (length (sh_wakers s))) s) (\<lambda>s1.
         Inr (h\<lparr>ho_sys := y\<lparr>sy_alive := False, sy_stack := fold drop_event (handed (sy_batches y)) s1, sy_batches := []\<rparr>,
                ho_packets := [], ho_driving := False\<rparr>)))"

text \<open>\<open>drive_turn\<close> is an iteration of the loop with the packet and the batch it has received.\<close>

definition drive_turn ::
  "('c, 'e, 'l, 'b, 'tcp, 'udp, 'ss, 'if, 'cap, 'ck) stack_deps \<Rightarrow> (nat \<Rightarrow> waker_id list) \<Rightarrow> nat
   \<Rightarrow> bytes option \<Rightarrow> events option
   \<Rightarrow> ('c, 'e, 'l, 'b, 'ss, 'if, 'cap, 't) host \<Rightarrow> ('c, 'e, 'l, 'b, 'ss, 'if, 'cap, 't) host outcome" where
  "drive_turn D order now packet events h =
     obind (drive_once D now packet events (sy_stack (ho_sys h))) (\<lambda>(res, s).
     let h1 = h\<lparr>ho_sys := (ho_sys h)\<lparr>sy_stack := s\<rparr>\<rparr>
     in case res of
          Inl _ \<Rightarrow> stop_drive D order h1
        | Inr (write_packets, new_sleep) \<Rightarrow>
            (let h2 = h1\<lparr>ho_sleep := new_sleep\<rparr>
             in if ho_writing h \<or> write_packets = [] then Inr (h2\<lparr>ho_replies := ho_replies h @ write_packets\<rparr>)
                else stop_drive D order h2))"

definition take_packet :: "('c, 'e, 'l, 'b, 'ss, 'if, 'cap, 't) host \<Rightarrow> ('c, 'e, 'l, 'b, 'ss, 'if, 'cap, 't) host" where
  "take_packet h = h\<lparr>ho_packets := drop 1 (ho_packets h)\<rparr>"

definition take_batch :: "('c, 'e, 'l, 'b, 'ss, 'if, 'cap, 't) host \<Rightarrow> ('c, 'e, 'l, 'b, 'ss, 'if, 'cap, 't) host" where
  "take_batch h = h\<lparr>ho_sys := (ho_sys h)\<lparr>sy_batches := drop 1 (sy_batches (ho_sys h))\<rparr>\<rparr>"

definition drive_task ::
  "('c, 'e, 'l, 'b, 'tcp, 'udp, 'ss, 'if, 'cap, 'ck) stack_deps \<Rightarrow> (nat \<Rightarrow> waker_id list) \<Rightarrow> nat \<Rightarrow> selected
   \<Rightarrow> ('c, 'e, 'l, 'b, 'ss, 'if, 'cap, 't) host \<Rightarrow> ('c, 'e, 'l, 'b, 'ss, 'if, 'cap, 't) host outcome" where
  "drive_task D order now sel h =
     (case sel of
        Sel_timeout \<Rightarrow> drive_turn D order now None None h
      | Sel_packets_closed \<Rightarrow> stop_drive D order h
      | Sel_events_closed \<Rightarrow> stop_drive D order h
      | Sel_packet \<Rightarrow>
          drive_turn D order now (first (ho_packets h)) (first (sy_batches (ho_sys h))) (take_batch (take_packet h))
      | Sel_events \<Rightarrow>
          drive_turn D order now (first (ho_packets h)) (first (sy_batches (ho_sys h))) (take_packet (take_batch h)))"

section \<open>Interleavings\<close>

inductive host_step ::
  "('c, 'e, 'l, 'b, 'tcp, 'udp, 'ss, 'if, 'cap, 'ck) stack_deps \<Rightarrow> 't tun_device \<Rightarrow> (nat \<Rightarrow> waker_id list)
   \<Rightarrow> ('c, 'e, 'l, 'b, 'ss, 'if, 'cap, 't) host \<Rightarrow> ('c, 'e, 'l, 'b, 'ss, 'if, 'cap, 't) host \<Rightarrow> bool" for D T order where
  host_read: "\<lbrakk>ho_reading h; read_task T h = Inr h'\<rbrakk> \<Longrightarrow> host_step D T order h h'"
| host_write: "\<lbrakk>ho_writing h; write_task T h = Some h'\<rbrakk> \<Longrightarrow> host_step D T order h h'"
| host_events: "\<lbrakk>ho_polling h; events_task D h = Some h'\<rbrakk> \<Longrightarrow> host_step D T order h h'"
| host_drive: "\<lbrakk>ho_driving h; select_ok sel h; drive_task D order now sel h = Inr h'\<rbrakk> \<Longrightarrow> host_step D T order h h'"
| host_user: "user_step D (ho_sys h) y \<Longrightarrow> host_step D T order h (h\<lparr>ho_sys := y\<rparr>)"

inductive host_reach ::
  "('c, 'e, 'l, 'b, 'tcp, 'udp, 'ss, 'if, 'cap, 'ck) stack_deps \<Rightarrow> 't tun_device \<Rightarrow> (nat \<Rightarrow> waker_id list)
   \<Rightarrow> ('c, 'e, 'l, 'b, 'ss, 'if, 'cap, 't) host \<Rightarrow> bool" for D T order where
  host_start: "build D seed now b = Inr (Inr (s, ta, ua)) \<Longrightarrow> host_reach D T order (host_init s ta ua tun)"
| host_next: "\<lbrakk>host_reach D T order h; host_step D T order h h'\<rbrakk> \<Longrightarrow> host_reach D T order h'"

definition drop_order :: "(nat \<Rightarrow> waker_id list) \<Rightarrow> bool" where
  "drop_order order \<longleftrightarrow> (\<forall>n. set (order n) = {..<n})"

section \<open>Refinement\<close>

lemma discard_all:
  "sys_reach D y \<Longrightarrow>
   sys_reach D (y\<lparr>sy_stack := fold drop_event (handed (sy_batches y)) (sy_stack y), sy_batches := []\<rparr>)"
proof (induction "sy_batches y" arbitrary: y)
  case Nil
  then have "y\<lparr>sy_batches := []\<rparr> = y" by simp
  with Nil show ?case by (metis (no_types) Nil.hyps fold_simps(1) handed_simps(1) sys.surjective sys.update_convs(1,3))
next
  case (Cons b bs)
  let ?y = "y\<lparr>sy_stack := fold drop_event (events_list b) (sy_stack y), sy_batches := bs\<rparr>"
  have "sys_reach D ?y" using sys_next[OF Cons.prems discard[of y "[]" b bs]] Cons.hyps(2) by simp
  from Cons.hyps(1)[OF _ this] Cons.hyps(2)[symmetric] show ?case by simp
qed

lemma stop_drive_reach:
  assumes "drop_order order" "sys_reach D (ho_sys h)" "sy_alive (ho_sys h)" "stop_drive D order h = Inr h'"
  shows "sys_reach D (ho_sys h') \<and> \<not> ho_driving h' \<and> \<not> sy_alive (ho_sys h') \<and>
    sy_listening (ho_sys h') = sy_listening (ho_sys h)"
proof -
  let ?y = "ho_sys h"
  obtain s1 where s1: "stack_drop D (order (length (sh_wakers (sy_stack ?y)))) (sy_stack ?y) = Inr s1"
    and h': "h' = h\<lparr>ho_sys := ?y\<lparr>sy_alive := False, sy_stack := fold drop_event (handed (sy_batches ?y)) s1, sy_batches := []\<rparr>,
      ho_packets := [], ho_driving := False\<rparr>"
    using assms(4) by (auto simp: stop_drive_def Let_def elim!: obind_InrE)
  have "sys_reach D (?y\<lparr>sy_stack := s1, sy_alive := False\<rparr>)"
    using sys_next[OF assms(2) drop_stack[OF assms(3) _ s1]] assms(1) by (simp add: drop_order_def)
  from discard_all[OF this] show ?thesis by (simp add: h')
qed

lemma drive_turn_reach:
  assumes order: "drop_order order" and alive: "sy_alive (ho_sys h)" "ho_driving h"
    and once: "\<And>r s. drive_once D now packet events (sy_stack (ho_sys h)) = Inr (r, s) \<Longrightarrow>
      sys_reach D ((ho_sys h)\<lparr>sy_stack := s\<rparr>)"
    and r: "drive_turn D order now packet events h = Inr h'"
  shows "sys_reach D (ho_sys h') \<and> ho_driving h' = sy_alive (ho_sys h') \<and> sy_listening (ho_sys h') = sy_listening (ho_sys h)"
proof -
  obtain res s where d: "drive_once D now packet events (sy_stack (ho_sys h)) = Inr (res, s)"
    using r by (auto simp: drive_turn_def elim!: obind_InrE)
  note reach = once[OF d]
  show ?thesis
    using r d reach alive
      stop_drive_reach[OF order, of D "h\<lparr>ho_sys := (ho_sys h)\<lparr>sy_stack := s\<rparr>\<rparr>" h']
      stop_drive_reach[OF order, of D "h\<lparr>ho_sys := (ho_sys h)\<lparr>sy_stack := s\<rparr>, ho_sleep := z\<rparr>" h' for z]
    by (auto simp: drive_turn_def Let_def split: sum.split_asm prod.split_asm if_split_asm)
qed

lemma first_simps [simp]: "first [] = None" "first (x # xs) = Some x"
  by (simp_all add: first_def)

lemma sys_upd_same: "sy_batches y = bs \<Longrightarrow> y\<lparr>sy_batches := bs, sy_stack := s\<rparr> = y\<lparr>sy_stack := s\<rparr>"
  by (cases y) simp

lemma sys_upd_swap: "y\<lparr>sy_batches := bs, sy_stack := s\<rparr> = y\<lparr>sy_stack := s, sy_batches := bs\<rparr>"
  by (cases y) simp

lemma batch_turn:
  assumes "sys_reach D y" "sy_alive y" "drive_once D now packet (first (sy_batches y)) (sy_stack y) = Inr (r, s)"
  shows "sys_reach D (y\<lparr>sy_batches := drop 1 (sy_batches y), sy_stack := s\<rparr>)"
proof (cases "sy_batches y")
  case Nil
  with sys_next[OF assms(1) idle_turn[OF assms(2)]] assms(3) show ?thesis by (simp add: sys_upd_same)
next
  case (Cons b bs)
  with sys_next[OF assms(1) turn[OF assms(2), of "[]" b bs]] assms(3) show ?thesis by (simp add: sys_upd_swap)
qed

lemma drive_task_reach:
  assumes order: "drop_order order" and reach: "sys_reach D (ho_sys h)" and alive: "sy_alive (ho_sys h)" "ho_driving h"
    and r: "drive_task D order now sel h = Inr h'"
  shows "sys_reach D (ho_sys h') \<and> ho_driving h' = sy_alive (ho_sys h') \<and> sy_listening (ho_sys h') = sy_listening (ho_sys h)"
proof -
  have stop: ?thesis if "stop_drive D order h = Inr h'"
    using stop_drive_reach[OF order reach alive(1) that] by simp
  have idle: ?thesis if "drive_turn D order now None None h = Inr h'"
    by (rule drive_turn_reach[OF order alive _ that]) (rule sys_next[OF reach idle_turn[OF alive(1)]])
  have turn: ?thesis if "drive_turn D order now p (first (sy_batches (ho_sys h))) (take_batch (take_packet h)) = Inr h'" for p
    using drive_turn_reach[OF order _ _ _ that] batch_turn[OF reach alive(1)] alive
    by (simp add: take_batch_def take_packet_def)
  have "take_packet (take_batch h) = take_batch (take_packet h)" by (simp add: take_packet_def take_batch_def)
  then show ?thesis using r stop idle turn by (cases sel) (simp_all add: drive_task_def)
qed

lemma generate_not_err:
  assumes C: "crossbeam_laws C q tx rx" and "tx (nc_chan ch)"
  shows "generate_poll C E (pc, ch) \<noteq> Some (Poll_ready (Inl e), pc', ch')"
proof -
  obtain pc1 ch1 where w: "wait_step C E (pc, ch) = (pc1, ch1)" by fastforce
  with wait_step_chan[OF w] assms(2) collect_loop_result[OF C, of "[]" "nc_chan ch1"] show ?thesis
    by (auto simp: generate_poll_def collect_nonblock_def split: wait_pc.split option.split prod.split)
qed

lemma events_task_reach:
  assumes laws: "deps_laws D q tx rx" and reach: "sys_reach D (ho_sys h)" and on: "sy_listening (ho_sys h)" "ho_polling h"
    and r: "events_task D h = Some h'"
  shows "sys_reach D (ho_sys h') \<and> ho_polling h' = sy_listening (ho_sys h') \<and> sy_alive (ho_sys h') = sy_alive (ho_sys h)
    \<and> ho_driving h' = ho_driving h"
proof -
  let ?y = "ho_sys h" and ?s = "sy_stack (ho_sys h)"
  obtain res pc ch where g: "generate_poll (d_cb D) (d_ev D) (sy_generator ?y, sh_ch ?s) = Some (res, pc, ch)"
    using r by (auto simp: events_task_def Let_def split: option.split_asm)
  show ?thesis
  proof (cases res)
    case Pending
    with r g sys_next[OF reach generate_pending[OF on(1)], of pc ch] on show ?thesis
      by (auto simp: events_task_def Let_def)
  next
    case (Poll_ready x)
    have "tx (nc_chan (sh_ch ?s))" using senders_left[OF laws reach] by (simp add: open_chan_def)
    then obtain evs where x: "x = Inr evs"
      using g Poll_ready generate_not_err[OF deps_lawsD(1)[OF laws], of "sh_ch ?s" "d_ev D" "sy_generator ?y"]
      by (cases x) auto
    let ?z = "?y\<lparr>sy_stack := ?s\<lparr>sh_ch := ch\<rparr>, sy_batches := sy_batches ?y @ [evs], sy_generator := W_top\<rparr>"
    have z: "sys_reach D ?z" using sys_next[OF reach generate_ready[OF on(1)]] g Poll_ready x by simp
    show ?thesis
    proof (cases "ho_driving h")
      case True
      with r g Poll_ready x z on show ?thesis by (auto simp: events_task_def Let_def)
    next
      case False
      let ?t = "fold drop_event (events_list evs) (?s\<lparr>sh_ch := ch\<rparr>)"
      have e: "?z\<lparr>sy_stack := ?t, sy_batches := sy_batches ?y @ []\<rparr> = ?y\<lparr>sy_stack := ?t, sy_generator := W_top\<rparr>"
        by (cases "ho_sys h") simp
      have "sys_reach D (?z\<lparr>sy_stack := fold drop_event (events_list evs) (sy_stack ?z), sy_batches := sy_batches ?y @ []\<rparr>)"
        by (rule sys_next[OF z discard[of ?z "sy_batches ?y" evs "[]"]]) simp
      then have "sys_reach D (?z\<lparr>sy_stack := ?t, sy_batches := sy_batches ?y @ []\<rparr>)" by simp
      then have "sys_reach D (?y\<lparr>sy_stack := ?t, sy_generator := W_top\<rparr>)" unfolding e .
      from sys_next[OF this drop_generator] on
      have "sys_reach D (?y\<lparr>sy_stack := generator_drop D ?t, sy_generator := W_top, sy_listening := False\<rparr>)"
        by (cases "ho_sys h") simp
      with False r g Poll_ready x show ?thesis by (auto simp: events_task_def stop_events_def Let_def)
    qed
  qed
qed

lemma user_step_flags: "user_step D y y' \<Longrightarrow> sy_alive y' = sy_alive y \<and> sy_listening y' = sy_listening y"
  by (induction rule: user_step.induct) simp_all

lemma host_refinement:
  assumes laws: "deps_laws D q tx rx" and order: "drop_order order" and "host_reach D T order h"
  shows "sys_reach D (ho_sys h) \<and> ho_driving h = sy_alive (ho_sys h) \<and> ho_polling h = sy_listening (ho_sys h)"
  using assms(3)
proof (induction rule: host_reach.induct)
  case (host_start seed now b s ta ua tun)
  from sys_start[OF this] show ?case by (simp add: host_init_def sys_init_def)
next
  case (host_next h h')
  then have IH: "sys_reach D (ho_sys h)" "ho_driving h = sy_alive (ho_sys h)" "ho_polling h = sy_listening (ho_sys h)"
    by simp_all
  show ?case
    using host_next.hyps(2)
  proof cases
    case host_read
    with IH show ?thesis
      by (auto simp: read_task_def Let_def elim!: obind_InrE split: prod.split_asm sum.split_asm if_split_asm)
  next
    case host_write
    with IH show ?thesis
      by (auto simp: write_task_def split: list.split_asm prod.split_asm sum.split_asm if_split_asm)
  next
    case host_events
    with IH events_task_reach[OF laws IH(1)] show ?thesis by simp
  next
    case (host_drive sel now)
    moreover have "ho_polling h' = ho_polling h" using host_drive(3)
      by (auto simp: drive_task_def drive_turn_def stop_drive_def take_packet_def take_batch_def Let_def elim!: obind_InrE
        split: selected.split_asm prod.split_asm sum.split_asm if_split_asm)
    ultimately show ?thesis using IH drive_task_reach[OF order IH(1)] by simp
  next
    case (host_user y)
    with IH sys_next[OF IH(1) user] user_step_flags[OF host_user(2)] show ?thesis by simp
  qed
qed

section \<open>The read buffer\<close>

lemma length_resize [simp]: "length (resize n v b) = n"
  by (simp add: resize_def)

lemma split_to_data [simp]: "split_to (length data) (data @ rest) = Inr (data, rest)"
  by (simp add: split_to_def)

text \<open>The reader always offers a buffer of the size of the MTU, and sends on exactly what it read.\<close>

definition read_outcome ::
  "'t tun_device \<Rightarrow> bytes \<Rightarrow> ('c, 'e, 'l, 'b, 'ss, 'if, 'cap, 't) host
   \<Rightarrow> ('c, 'e, 'l, 'b, 'ss, 'if, 'cap, 't) host outcome" where
  "read_outcome T buffer h =
      (case tun_read T host_mtu (ho_tun h) of
         (Inl _, tun) \<Rightarrow> Inr (h\<lparr>ho_tun := tun, ho_buffer := buffer, ho_reading := False\<rparr>)
       | (Inr data, tun) \<Rightarrow>
           Inr (if data = [] then h\<lparr>ho_tun := tun, ho_buffer := buffer, ho_reading := False\<rparr>
             else if ho_driving h then
               h\<lparr>ho_tun := tun, ho_buffer := drop (length data) buffer, ho_packets := ho_packets h @ [data]\<rparr>
             else h\<lparr>ho_tun := tun, ho_buffer := drop (length data) buffer, ho_reading := False\<rparr>))"

lemma read_task_eq:
  assumes "length (ho_buffer h) \<le> host_mtu"
  shows "\<exists>buffer. length buffer = host_mtu \<and>
    read_task T h =
      read_outcome T buffer h"
  using assms
  by (intro exI[of _ "if length (ho_buffer h) < host_mtu then resize host_mtu 0 (ho_buffer h) else ho_buffer h"])
    (auto simp: read_task_def read_outcome_def Let_def split: prod.split sum.split)

lemma tasks_buffer:
  "write_task T h = Some h' \<Longrightarrow> ho_buffer h' = ho_buffer h"
  "events_task D h = Some h' \<Longrightarrow> ho_buffer h' = ho_buffer h"
  "stop_drive D order h = Inr h' \<Longrightarrow> ho_buffer h' = ho_buffer h"
  "drive_turn D order now packet events h = Inr h' \<Longrightarrow> ho_buffer h' = ho_buffer h"
  "drive_task D order now sel h = Inr h' \<Longrightarrow> ho_buffer h' = ho_buffer h"
proof -
  show stop: "stop_drive D order h = Inr h' \<Longrightarrow> ho_buffer h' = ho_buffer h" for h
    by (auto simp: stop_drive_def Let_def elim!: obind_InrE)
  show turn: "drive_turn D order now packet events h = Inr h' \<Longrightarrow> ho_buffer h' = ho_buffer h" for packet events h
    by (auto simp: drive_turn_def Let_def dest!: stop elim!: obind_InrE split: sum.split_asm prod.split_asm if_split_asm)
  show "drive_task D order now sel h = Inr h' \<Longrightarrow> ho_buffer h' = ho_buffer h"
    by (cases sel) (auto simp: drive_task_def take_packet_def take_batch_def dest!: stop turn)
  show "write_task T h = Some h' \<Longrightarrow> ho_buffer h' = ho_buffer h"
    by (auto simp: write_task_def split: list.split_asm prod.split_asm sum.split_asm if_split_asm)
  show "events_task D h = Some h' \<Longrightarrow> ho_buffer h' = ho_buffer h"
    by (auto simp: events_task_def stop_events_def Let_def
      split: option.split_asm prod.split_asm poll.split_asm sum.split_asm if_split_asm)
qed

lemma host_step_buffer:
  assumes "host_step D T order h h'" "length (ho_buffer h) \<le> host_mtu"
  shows "length (ho_buffer h') \<le> host_mtu"
  using assms(1)
proof cases
  case host_read
  from read_task_eq[OF assms(2), of T] obtain buffer where b: "length buffer = host_mtu" "read_task T h = read_outcome T buffer h"
    by blast
  obtain res tun where "tun_read T host_mtu (ho_tun h) = (res, tun)" by fastforce
  with b host_read(2) show ?thesis by (cases res) (auto simp: read_outcome_def split: if_split_asm)
qed (use assms(2) in \<open>auto dest!: tasks_buffer\<close>)

lemma host_reach_buffer: "host_reach D T order h \<Longrightarrow> length (ho_buffer h) \<le> host_mtu"
  by (induction rule: host_reach.induct) (auto simp: host_init_def dest: host_step_buffer)

section \<open>A run\<close>

text \<open>A device that is a list of packets to read and a list of packets written.\<close>

definition list_tun :: "(bytes list \<times> bytes list) tun_device" where
  "list_tun = \<lparr>tun_read = (\<lambda>n (ins, outs). case ins of [] \<Rightarrow> (Inl ''closed'', (ins, outs)) | p # ps \<Rightarrow> (Inr (take n p), (ps, outs))),
     tun_write = (\<lambda>p (ins, outs). (Inr (length p), (ins, outs @ [p])))\<rparr>"

lemma list_tun_laws: "tun_laws list_tun"
  by (auto simp: tun_laws_def list_tun_def split: list.split_asm)

type_synonym net_host = "(net_chan, bool option, unit, net_buf, net_set, ip_cidr list, nat, bytes list \<times> bytes list) host"

definition host0 :: net_host where
  "host0 = host_init net_stack \<lparr>ac_taken = 0\<rparr> \<lparr>ac_taken = 0\<rparr> ([[4, 6, 1, 5, 80]], [])"

definition host1 :: net_host where
  "host1 = host0\<lparr>ho_tun := ([], []), ho_buffer := drop 5 (resize host_mtu 0 []), ho_packets := [[4, 6, 1, 5, 80]]\<rparr>"

definition host2 :: net_host where
  "host2 = host1\<lparr>ho_sys := run_at (run_stack [Ready (Typed_Tcp 0)] [[7, 8, 9]]) [] [] [] 0 {}, ho_packets := [],
     ho_replies := [[4, 6, 1, 5, 80]]\<rparr>"

lemma host0_reach: "host_reach net list_tun (\<lambda>n. [0..<n]) host0"
  unfolding host0_def by (rule host_start[OF net_build])

lemma host2_reach: "host_reach net list_tun (\<lambda>n. [0..<n]) host2"
proof -
  have "read_task list_tun host0 = Inr host1"
    by (simp add: read_task_def host0_def host1_def host_init_def list_tun_def Let_def)
      (simp add: split_to_def resize_def host_mtu_def)
  then have 1: "host_reach net list_tun (\<lambda>n. [0..<n]) host1"
    using host_next[OF host0_reach host_read] by (simp add: host0_def host_init_def)
  have "drive_task net (\<lambda>n. [0..<n]) 0 Sel_packet host1 = Inr host2"
    by (simp add: drive_task_def drive_turn_def take_packet_def take_batch_def host2_def host1_def host0_def host_init_def
      sys_init_def run1 Let_def)
  from host_next[OF 1 host_drive[OF _ _ this]] show ?thesis by (simp add: host1_def host0_def host_init_def)
qed

section \<open>Properties\<close>

text \<open>C18 (refinement). The driver of the examples is an instance of the composed program: whatever the order
  in which its four tasks, the users and the device run, and also when tasks end by an error and
  drop the stack, the generator and what is queued, its state is a reachable state of the system,
  in which the stack is alive exactly while the drive task runs, and the generator exactly while
  the events task runs. So every property of the reachable states holds for it.\<close>

theorem host_refines:
  assumes "deps_laws D q tx rx" "drop_order order" "host_reach D T order h"
  shows "sys_reach D (ho_sys h) \<and> ho_driving h = sy_alive (ho_sys h) \<and> ho_polling h = sy_listening (ho_sys h)"
  by (rule host_refinement[OF assms])

theorem host_refines_witness: "sys_reach net (ho_sys host2) \<and> sy_alive (ho_sys host2) \<and> ho_replies host2 = [[4, 6, 1, 5, 80]]"
  using host_refines[OF net_laws _ host2_reach] by (auto simp: drop_order_def host2_def atLeast0LessThan)

text \<open>C35 (bounds). The read buffer is always big enough and never grows: in every reachable state the read
  task offers the device exactly 1500 bytes, the split of the buffer is within bounds, what is
  queued is exactly what was read, at most 1500 bytes with nothing left over from earlier packets,
  and the part of the buffer that is kept is shorter than before.\<close>

theorem host_read_bounds:
  assumes "tun_laws T" "host_reach D T order h" "ho_driving h"
    and "tun_read T host_mtu (ho_tun h) = (Inr data, tun)" "data \<noteq> []"
  shows "\<exists>h'. read_task T h = Inr h' \<and> ho_packets h' = ho_packets h @ [data] \<and> length data \<le> host_mtu \<and>
    length (ho_buffer h') = host_mtu - length data"
proof -
  have "length (ho_buffer h) \<le> host_mtu" by (rule host_reach_buffer[OF assms(2)])
  moreover have "length data \<le> host_mtu" using assms(1,4) by (auto simp: tun_laws_def)
  ultimately show ?thesis using read_task_eq[of h T] assms(3-5) by (auto simp: read_outcome_def)
qed

theorem host_read_bounds_witness:
  "\<exists>h'. read_task list_tun host0 = Inr h' \<and> ho_packets h' = [[4, 6, 1, 5, 80]] \<and> length (ho_buffer h') = 1495"
  using host_read_bounds[OF list_tun_laws host0_reach, of "[4, 6, 1, 5, 80]" "([], [])"]
  by (simp add: host0_def host_init_def list_tun_def host_mtu_def)

end
