(* ===== verification/Tun_Setup.thy ===== *)
theory Tun_Setup
  imports Host
begin

text \<open>
  \<^verbatim>\<open>create_tun\<close>, \<^verbatim>\<open>init_tun\<close>, \<^verbatim>\<open>init_log\<close> and \<^verbatim>\<open>SafeFd\<close> of the examples: how the tun interface that
  \<^verbatim>\<open>run_stack\<close> reads from comes to be. The crates \<^verbatim>\<open>tun\<close>, \<^verbatim>\<open>rtnetlink\<close>, \<^verbatim>\<open>rustix\<close> and \<^verbatim>\<open>tracing\<close> and the operating system behind them are
  parameters, functions over a world \<open>'w\<close>. \<^verbatim>\<open>examples/echo.rs\<close> configures both versions of IP, the other examples
  IPv4 only, with the same text otherwise.
\<close>

section \<open>Parameters\<close>

record ('cf, 'fd, 'w) tun_crate =
  tc_configure :: 'cf
  tc_name :: "string \<Rightarrow> 'cf \<Rightarrow> 'cf"
  tc_layer_l3 :: "'cf \<Rightarrow> 'cf"
  tc_mtu :: "nat \<Rightarrow> 'cf \<Rightarrow> 'cf"
  tc_packet_information :: "bool \<Rightarrow> 'cf \<Rightarrow> 'cf"
  tc_create :: "'cf \<Rightarrow> 'w \<Rightarrow> (string + 'fd) \<times> 'w"
  tc_async_new :: "'fd \<Rightarrow> 'w \<Rightarrow> (string + 'fd) \<times> 'w"              \<comment> \<open>\<^verbatim>\<open>Async::new\<close>\<close>

text \<open>A request is built and executed in one expression of the source, so each kind of request is one function. The
  stream of links that match a name yields the index of the first one.\<close>

record 'w netlink_crate =
  nl_new_connection :: "'w \<Rightarrow> (string + unit) \<times> 'w"               \<comment> \<open>and the spawned task that serves it\<close>
  nl_link_get :: "string \<Rightarrow> 'w \<Rightarrow> (string + nat option) \<times> 'w"
  nl_address_add :: "nat \<Rightarrow> ip_addr \<Rightarrow> nat \<Rightarrow> 'w \<Rightarrow> (string + unit) \<times> 'w"
  nl_link_set_up :: "nat \<Rightarrow> 'w \<Rightarrow> (string + unit) \<times> 'w"
  nl_route_add_v4 :: "u32 \<Rightarrow> nat \<Rightarrow> u32 \<Rightarrow> 'w \<Rightarrow> (string + unit) \<times> 'w"    \<comment> \<open>prefix, its length, gateway\<close>
  nl_route_add_v6 :: "u128 \<Rightarrow> nat \<Rightarrow> u128 \<Rightarrow> 'w \<Rightarrow> (string + unit) \<times> 'w"

text \<open>\<^verbatim>\<open>unwrap()\<close> on the result of a call, then the rest of the function.\<close>

definition unwrap :: "('e + 'a) \<times> 'w \<Rightarrow> ('a \<Rightarrow> 'w \<Rightarrow> 'r outcome) \<Rightarrow> 'r outcome" where
  "unwrap rw rest = (case rw of (Inl _, _) \<Rightarrow> Inl Panic_unwrap | (Inr x, w) \<Rightarrow> rest x w)"

lemma unwrap_simps [simp]: "unwrap (Inl e, w) rest = Inl Panic_unwrap" "unwrap (Inr x, w) rest = rest x w"
  by (simp_all add: unwrap_def)

section \<open>Constants\<close>

text \<open>\<^verbatim>\<open>Ipv4Addr::new\<close> and \<^verbatim>\<open>Ipv6Addr::new\<close>: big-endian octets and segments.\<close>

definition Ipv4Addr_new :: "u8 \<Rightarrow> u8 \<Rightarrow> u8 \<Rightarrow> u8 \<Rightarrow> u32" where
  "Ipv4Addr_new a b c d = word_rcat [a, b, c, d]"

definition Ipv6Addr_new :: "u16 list \<Rightarrow> u128" where
  "Ipv6Addr_new segments = word_rcat segments"

definition IFACE :: string where
  "IFACE = ''echo0''"

definition IPV4 :: "u32 cidr" where
  "IPV4 = \<lparr>cidr_address = Ipv4Addr_new 192 168 100 10, cidr_prefix_len = 24\<rparr>"

definition IPV4_GATEWAY :: u32 where
  "IPV4_GATEWAY = Ipv4Addr_new 192 168 100 1"

text \<open>The addresses that \<^verbatim>\<open>main\<close> parses from \<^verbatim>\<open>fc00::10:10\<close> and \<^verbatim>\<open>fc00::10:1\<close>.\<close>

definition example_ipv6 :: "u128 cidr" where
  "example_ipv6 = \<lparr>cidr_address = Ipv6Addr_new [0xfc00, 0, 0, 0, 0, 0, 0x10, 0x10], cidr_prefix_len = 7\<rparr>"

definition example_ipv6_gateway :: u128 where
  "example_ipv6_gateway = Ipv6Addr_new [0xfc00, 0, 0, 0, 0, 0, 0x10, 0x1]"

lemma example_addresses:
  "cidr_address IPV4 = 0xC0A8640A" "cidr_prefix_len IPV4 = 24" "IPV4_GATEWAY = 0xC0A86401"
  "cidr_address example_ipv6 = 0xFC000000000000000000000000100010" "cidr_prefix_len example_ipv6 = 7"
  "example_ipv6_gateway = 0xFC000000000000000000000000100001"
  by (simp_all add: IPV4_def IPV4_GATEWAY_def example_ipv6_def example_ipv6_gateway_def Ipv4Addr_new_def Ipv6Addr_new_def
    word_rcat_def)

section \<open>The interface\<close>

definition init_tun ::
  "'w netlink_crate \<Rightarrow> string \<Rightarrow> u32 cidr \<Rightarrow> u32 \<Rightarrow> u128 cidr \<Rightarrow> u128 \<Rightarrow> 'w \<Rightarrow> 'w outcome" where
  "init_tun N iface_name ipv4 ipv4_gw ipv6 ipv6_gw w =
     unwrap (nl_link_get N iface_name w) (\<lambda>link w.
     case link of
       None \<Rightarrow> Inl (Panic_expect (''tun '' @ iface_name @ '' created failed, it doesn't exist''))
     | Some link_index \<Rightarrow>
         unwrap (nl_address_add N link_index (IpV4 (cidr_address ipv4)) (cidr_prefix_len ipv4) w) (\<lambda>_ w.
         unwrap (nl_address_add N link_index (IpV6 (cidr_address ipv6)) (cidr_prefix_len ipv6) w) (\<lambda>_ w.
         unwrap (nl_link_set_up N link_index w) (\<lambda>_ w.
         unwrap (nl_route_add_v4 N 0 0 ipv4_gw w) (\<lambda>_ w.
         unwrap (nl_route_add_v6 N 0 0 ipv6_gw w) (\<lambda>_ w.
         Inr w))))))"

definition init_tun_v4 :: "'w netlink_crate \<Rightarrow> string \<Rightarrow> u32 cidr \<Rightarrow> u32 \<Rightarrow> 'w \<Rightarrow> 'w outcome" where
  "init_tun_v4 N iface_name ipv4 ipv4_gw w =
     unwrap (nl_link_get N iface_name w) (\<lambda>link w.
     case link of
       None \<Rightarrow> Inl (Panic_expect (''tun '' @ iface_name @ '' created failed, it doesn't exist''))
     | Some link_index \<Rightarrow>
         unwrap (nl_address_add N link_index (IpV4 (cidr_address ipv4)) (cidr_prefix_len ipv4) w) (\<lambda>_ w.
         unwrap (nl_link_set_up N link_index w) (\<lambda>_ w.
         unwrap (nl_route_add_v4 N 0 0 ipv4_gw w) (\<lambda>_ w.
         Inr w))))"

definition tun_conf :: "('cf, 'fd, 'w) tun_crate \<Rightarrow> 'cf" where
  "tun_conf T = tc_packet_information T False (tc_mtu T host_mtu (tc_layer_l3 T (tc_name T IFACE (tc_configure T))))"

definition create_tun ::
  "('cf, 'fd, 'w) tun_crate \<Rightarrow> 'w netlink_crate \<Rightarrow> u32 cidr \<Rightarrow> u32 \<Rightarrow> u128 cidr \<Rightarrow> u128 \<Rightarrow> 'w \<Rightarrow> ('fd \<times> 'w) outcome" where
  "create_tun T N ipv4 ipv4_gw ipv6 ipv6_gw w =
     unwrap (tc_create T (tun_conf T) w) (\<lambda>tun_fd w.
     unwrap (nl_new_connection N w) (\<lambda>_ w.
     obind (init_tun N IFACE ipv4 ipv4_gw ipv6 ipv6_gw w) (\<lambda>w.
     unwrap (tc_async_new T tun_fd w) (\<lambda>fd w. Inr (fd, w)))))"

definition create_tun_v4 :: "('cf, 'fd, 'w) tun_crate \<Rightarrow> 'w netlink_crate \<Rightarrow> 'w \<Rightarrow> ('fd \<times> 'w) outcome" where
  "create_tun_v4 T N w =
     unwrap (tc_create T (tun_conf T) w) (\<lambda>tun_fd w.
     unwrap (nl_new_connection N w) (\<lambda>_ w.
     obind (init_tun_v4 N IFACE IPV4 IPV4_GATEWAY w) (\<lambda>w.
     unwrap (tc_async_new T tun_fd w) (\<lambda>fd w. Inr (fd, w)))))"

section \<open>The device\<close>

text \<open>\<^verbatim>\<open>SafeFd\<close> passes \<^verbatim>\<open>read\<close> and \<^verbatim>\<open>write\<close> to the system calls of \<^verbatim>\<open>rustix\<close>; an error number becomes an error.\<close>

record ('t, 'en) rustix_crate =
  rx_read :: "nat \<Rightarrow> 't \<Rightarrow> ('en + bytes) \<times> 't"
  rx_write :: "bytes \<Rightarrow> 't \<Rightarrow> ('en + nat) \<times> 't"
  rx_error :: "'en \<Rightarrow> string"                                    \<comment> \<open>\<^verbatim>\<open>Error::from\<close>\<close>

definition safe_fd_read :: "('t, 'en) rustix_crate \<Rightarrow> nat \<Rightarrow> 't \<Rightarrow> (string + bytes) \<times> 't" where
  "safe_fd_read R n t = (case rx_read R n t of (r, t') \<Rightarrow> (map_sum (rx_error R) (\<lambda>x. x) r, t'))"

definition safe_fd_write :: "('t, 'en) rustix_crate \<Rightarrow> bytes \<Rightarrow> 't \<Rightarrow> (string + nat) \<times> 't" where
  "safe_fd_write R buf t = (case rx_write R buf t of (r, t') \<Rightarrow> (map_sum (rx_error R) (\<lambda>x. x) r, t'))"

definition safe_fd :: "('t, 'en) rustix_crate \<Rightarrow> 't tun_device" where
  "safe_fd R = \<lparr>tun_read = safe_fd_read R, tun_write = safe_fd_write R\<rparr>"

lemma safe_fd_laws:
  assumes "\<And>n t data t'. rx_read R n t = (Inr data, t') \<Longrightarrow> length data \<le> n"
  shows "tun_laws (safe_fd R)"
proof -
  have "length data \<le> n" if "safe_fd_read R n t = (Inr data, t')" for n t data t'
    using that assms by (cases "rx_read R n t"; cases "fst (rx_read R n t)") (auto simp: safe_fd_read_def)
  then show ?thesis by (auto simp: tun_laws_def safe_fd_def)
qed

section \<open>What the kernel keeps\<close>

text \<open>
  What can be observed of the operating system: the links by name, newest first, those that are up, the addresses of the links with their
  prefix lengths, and the routes (destination, its length, gateway).
\<close>

record kernel =
  k_links :: "(string \<times> nat) list"
  k_up :: "nat list"
  k_addrs :: "(nat \<times> ip_addr \<times> nat) list"
  k_routes_v4 :: "(u32 \<times> nat \<times> u32) list"
  k_routes_v6 :: "(u128 \<times> nat \<times> u128) list"

definition in_subnet :: "'a::len word \<Rightarrow> nat \<Rightarrow> 'a word \<Rightarrow> bool" where
  "in_subnet a n x \<longleftrightarrow> drop_bit (LENGTH('a) - n) a = drop_bit (LENGTH('a) - n) x"

fun ip_bits :: "ip_addr \<Rightarrow> nat" where
  "ip_bits (IpV4 _) = 32"
| "ip_bits (IpV6 _) = 128"

text \<open>A gateway can be reached directly when it lies in the subnet of an address of a link that is up.\<close>

definition reachable_v4 :: "kernel \<Rightarrow> u32 \<Rightarrow> bool" where
  "reachable_v4 k gw \<longleftrightarrow>
     (\<exists>(i, a, n) \<in> set (k_addrs k). i \<in> set (k_up k) \<and> (case a of IpV4 x \<Rightarrow> in_subnet x n gw | IpV6 _ \<Rightarrow> False))"

definition reachable_v6 :: "kernel \<Rightarrow> u128 \<Rightarrow> bool" where
  "reachable_v6 k gw \<longleftrightarrow>
     (\<exists>(i, a, n) \<in> set (k_addrs k). i \<in> set (k_up k) \<and> (case a of IpV4 _ \<Rightarrow> False | IpV6 x \<Rightarrow> in_subnet x n gw))"

definition has_link :: "kernel \<Rightarrow> nat \<Rightarrow> bool" where
  "has_link k i \<longleftrightarrow> i \<in> snd ` set (k_links k)"

definition fresh_link :: "kernel \<Rightarrow> nat \<Rightarrow> bool" where
  "fresh_link k i \<longleftrightarrow> \<not> has_link k i \<and> i \<notin> set (k_up k) \<and> i \<notin> fst ` set (k_addrs k)"

definition has_route :: "('a \<times> nat \<times> 'a) list \<Rightarrow> 'a \<Rightarrow> nat \<Rightarrow> bool" where
  "has_route routes p n \<longleftrightarrow> (\<exists>(p', n', gw) \<in> set routes. p' = p \<and> n' = n)"

text \<open>
  The documented behaviour of \<^verbatim>\<open>tun\<close>, \<^verbatim>\<open>rtnetlink\<close> and the kernel for a privileged caller, \<open>nm\<close> the name in a
  configuration. \<^verbatim>\<open>create\<close> makes a new link of that name, down and without addresses, unless the name is taken; an existing
  link is found by its name; an address is added once per link; a route is accepted when its gateway
  can be reached directly and there is none for that destination yet.
\<close>

definition kernel_laws :: "('cf, 'fd, 'w) tun_crate \<Rightarrow> 'w netlink_crate \<Rightarrow> ('cf \<Rightarrow> string) \<Rightarrow> ('w \<Rightarrow> kernel) \<Rightarrow> bool" where
  "kernel_laws T N nm view \<longleftrightarrow>
     (\<forall>s c. nm (tc_name T s c) = s) \<and> (\<forall>c. nm (tc_layer_l3 T c) = nm c) \<and> (\<forall>m c. nm (tc_mtu T m c) = nm c) \<and>
     (\<forall>b c. nm (tc_packet_information T b c) = nm c) \<and>
     (\<forall>c w. nm c \<notin> fst ` set (k_links (view w)) \<longrightarrow> (\<exists>fd i w'. tc_create T c w = (Inr fd, w') \<and> fresh_link (view w) i \<and>
        view w' = (view w)\<lparr>k_links := (nm c, i) # k_links (view w)\<rparr>)) \<and>
     (\<forall>fd w. \<exists>fd' w'. tc_async_new T fd w = (Inr fd', w') \<and> view w' = view w) \<and>
     (\<forall>w. \<exists>w'. nl_new_connection N w = (Inr (), w') \<and> view w' = view w) \<and>
     (\<forall>s i w. map_of (k_links (view w)) s = Some i \<longrightarrow> (\<exists>w'. nl_link_get N s w = (Inr (Some i), w') \<and> view w' = view w)) \<and>
     (\<forall>i a n w. has_link (view w) i \<longrightarrow> (i, a, n) \<notin> set (k_addrs (view w)) \<longrightarrow> n \<le> ip_bits a \<longrightarrow>
        (\<exists>w'. nl_address_add N i a n w = (Inr (), w') \<and> view w' = (view w)\<lparr>k_addrs := (i, a, n) # k_addrs (view w)\<rparr>)) \<and>
     (\<forall>i w. has_link (view w) i \<longrightarrow>
        (\<exists>w'. nl_link_set_up N i w = (Inr (), w') \<and> view w' = (view w)\<lparr>k_up := i # k_up (view w)\<rparr>)) \<and>
     (\<forall>p n gw w. reachable_v4 (view w) gw \<longrightarrow> \<not> has_route (k_routes_v4 (view w)) p n \<longrightarrow>
        (\<exists>w'. nl_route_add_v4 N p n gw w = (Inr (), w') \<and> view w' = (view w)\<lparr>k_routes_v4 := (p, n, gw) # k_routes_v4 (view w)\<rparr>)) \<and>
     (\<forall>p n gw w. reachable_v6 (view w) gw \<longrightarrow> \<not> has_route (k_routes_v6 (view w)) p n \<longrightarrow>
        (\<exists>w'. nl_route_add_v6 N p n gw w = (Inr (), w') \<and> view w' = (view w)\<lparr>k_routes_v6 := (p, n, gw) # k_routes_v6 (view w)\<rparr>))"

lemma kernel_lawsD:
  assumes "kernel_laws T N nm view"
  shows "nm (tun_conf T) = IFACE"
    "nm c \<notin> fst ` set (k_links (view w)) \<Longrightarrow> \<exists>fd i w'. tc_create T c w = (Inr fd, w') \<and> fresh_link (view w) i \<and>
      view w' = (view w)\<lparr>k_links := (nm c, i) # k_links (view w)\<rparr>"
    "\<exists>fd' w'. tc_async_new T fd w = (Inr fd', w') \<and> view w' = view w"
    "\<exists>w'. nl_new_connection N w = (Inr (), w') \<and> view w' = view w"
    "map_of (k_links (view w)) s = Some i \<Longrightarrow> \<exists>w'. nl_link_get N s w = (Inr (Some i), w') \<and> view w' = view w"
    "\<lbrakk>has_link (view w) i; (i, a, n) \<notin> set (k_addrs (view w)); n \<le> ip_bits a\<rbrakk> \<Longrightarrow>
      \<exists>w'. nl_address_add N i a n w = (Inr (), w') \<and> view w' = (view w)\<lparr>k_addrs := (i, a, n) # k_addrs (view w)\<rparr>"
    "has_link (view w) i \<Longrightarrow> \<exists>w'. nl_link_set_up N i w = (Inr (), w') \<and> view w' = (view w)\<lparr>k_up := i # k_up (view w)\<rparr>"
    "\<lbrakk>reachable_v4 (view w) gw; \<not> has_route (k_routes_v4 (view w)) p n\<rbrakk> \<Longrightarrow>
      \<exists>w'. nl_route_add_v4 N p n gw w = (Inr (), w') \<and> view w' = (view w)\<lparr>k_routes_v4 := (p, n, gw) # k_routes_v4 (view w)\<rparr>"
    "\<lbrakk>reachable_v6 (view w) gw6; \<not> has_route (k_routes_v6 (view w)) p6 n\<rbrakk> \<Longrightarrow>
      \<exists>w'. nl_route_add_v6 N p6 n gw6 w = (Inr (), w') \<and> view w' = (view w)\<lparr>k_routes_v6 := (p6, n, gw6) # k_routes_v6 (view w)\<rparr>"
  using assms by (simp_all add: kernel_laws_def tun_conf_def)

text \<open>The state of the kernel after the set-up of a link \<open>i\<close>, with the routes of one or both versions.\<close>

definition set_up_v4 :: "nat \<Rightarrow> kernel \<Rightarrow> kernel" where
  "set_up_v4 i k = k\<lparr>k_links := (IFACE, i) # k_links k, k_up := i # k_up k,
     k_addrs := (i, IpV4 (cidr_address IPV4), cidr_prefix_len IPV4) # k_addrs k,
     k_routes_v4 := (0, 0, IPV4_GATEWAY) # k_routes_v4 k\<rparr>"

definition set_up :: "nat \<Rightarrow> kernel \<Rightarrow> kernel" where
  "set_up i k = k\<lparr>k_links := (IFACE, i) # k_links k, k_up := i # k_up k,
     k_addrs := (i, IpV6 (cidr_address example_ipv6), cidr_prefix_len example_ipv6) #
       (i, IpV4 (cidr_address IPV4), cidr_prefix_len IPV4) # k_addrs k,
     k_routes_v4 := (0, 0, IPV4_GATEWAY) # k_routes_v4 k, k_routes_v6 := (0, 0, example_ipv6_gateway) # k_routes_v6 k\<rparr>"

lemma example_subnets:
  "in_subnet (cidr_address IPV4) (cidr_prefix_len IPV4) IPV4_GATEWAY"
  "in_subnet (cidr_address example_ipv6) (cidr_prefix_len example_ipv6) example_ipv6_gateway"
  by (simp_all add: in_subnet_def example_addresses)

lemma example_prefixes: "cidr_prefix_len IPV4 \<le> 32" "cidr_prefix_len example_ipv6 \<le> 128"
  by (simp_all add: example_addresses)

lemma init_tun_sets_up:
  assumes L: "kernel_laws T N nm view" and k: "view w = k\<lparr>k_links := (IFACE, i) # k_links k\<rparr>"
    and f: "fresh_link k i" "\<not> has_route (k_routes_v4 k) 0 0" "\<not> has_route (k_routes_v6 k) 0 0"
  shows "\<exists>w'. init_tun N IFACE IPV4 IPV4_GATEWAY example_ipv6 example_ipv6_gateway w = Inr w' \<and> view w' = set_up i k"
proof -
  note l = kernel_lawsD[OF L]
  let ?a4 = "(i, IpV4 (cidr_address IPV4), cidr_prefix_len IPV4)"
  let ?a6 = "(i, IpV6 (cidr_address example_ipv6), cidr_prefix_len example_ipv6)"
  note known = has_link_def fresh_link_def reachable_v4_def reachable_v6_def
  obtain w1 where 1: "nl_link_get N IFACE w = (Inr (Some i), w1)" "view w1 = view w" using l(5)[of w IFACE i] k by auto
  have n: "?a4 \<notin> set (k_addrs k)" "?a6 \<notin> set (k_addrs k)" using f(1) by (auto simp: known image_iff)
  obtain w2 where 2: "nl_address_add N i (IpV4 (cidr_address IPV4)) (cidr_prefix_len IPV4) w1 = (Inr (), w2)"
    "view w2 = k\<lparr>k_links := (IFACE, i) # k_links k, k_addrs := ?a4 # k_addrs k\<rparr>"
    using l(6)[of w1 i "IpV4 (cidr_address IPV4)" "cidr_prefix_len IPV4"] n(1) k 1(2) example_prefixes by (auto simp: known)
  obtain w3 where 3: "nl_address_add N i (IpV6 (cidr_address example_ipv6)) (cidr_prefix_len example_ipv6) w2 = (Inr (), w3)"
    "view w3 = k\<lparr>k_links := (IFACE, i) # k_links k, k_addrs := ?a6 # ?a4 # k_addrs k\<rparr>"
    using l(6)[of w2 i "IpV6 (cidr_address example_ipv6)" "cidr_prefix_len example_ipv6"] n(2) 2(2) example_prefixes
    by (auto simp: known)
  obtain w4 where 4: "nl_link_set_up N i w3 = (Inr (), w4)"
    "view w4 = k\<lparr>k_links := (IFACE, i) # k_links k, k_up := i # k_up k, k_addrs := ?a6 # ?a4 # k_addrs k\<rparr>"
    using l(7)[of w3 i] 3(2) by (auto simp: known)
  obtain w5 where 5: "nl_route_add_v4 N 0 0 IPV4_GATEWAY w4 = (Inr (), w5)"
    "view w5 = (view w4)\<lparr>k_routes_v4 := (0, 0, IPV4_GATEWAY) # k_routes_v4 k\<rparr>"
    using l(8)[of w4 IPV4_GATEWAY 0 0] 4(2) f(2) example_subnets by (auto simp: known)
  obtain w6 where 6: "nl_route_add_v6 N 0 0 example_ipv6_gateway w5 = (Inr (), w6)"
    "view w6 = (view w5)\<lparr>k_routes_v6 := (0, 0, example_ipv6_gateway) # k_routes_v6 k\<rparr>"
    using l(9)[of w5 example_ipv6_gateway 0 0] 5(2) 4(2) f(3) example_subnets by (auto simp: known)
  have "view w6 = set_up i k" by (simp add: 6(2) 5(2) 4(2) set_up_def)
  with 1(1) 2(1) 3(1) 4(1) 5(1) 6(1) show ?thesis by (simp add: init_tun_def)
qed

lemma init_tun_v4_sets_up:
  assumes L: "kernel_laws T N nm view" and k: "view w = k\<lparr>k_links := (IFACE, i) # k_links k\<rparr>"
    and f: "fresh_link k i" "\<not> has_route (k_routes_v4 k) 0 0"
  shows "\<exists>w'. init_tun_v4 N IFACE IPV4 IPV4_GATEWAY w = Inr w' \<and> view w' = set_up_v4 i k"
proof -
  note l = kernel_lawsD[OF L]
  let ?a4 = "(i, IpV4 (cidr_address IPV4), cidr_prefix_len IPV4)"
  note known = has_link_def fresh_link_def reachable_v4_def
  obtain w1 where 1: "nl_link_get N IFACE w = (Inr (Some i), w1)" "view w1 = view w" using l(5)[of w IFACE i] k by auto
  have n: "?a4 \<notin> set (k_addrs k)" using f(1) by (auto simp: known image_iff)
  obtain w2 where 2: "nl_address_add N i (IpV4 (cidr_address IPV4)) (cidr_prefix_len IPV4) w1 = (Inr (), w2)"
    "view w2 = k\<lparr>k_links := (IFACE, i) # k_links k, k_addrs := ?a4 # k_addrs k\<rparr>"
    using l(6)[of w1 i "IpV4 (cidr_address IPV4)" "cidr_prefix_len IPV4"] n k 1(2) example_prefixes by (auto simp: known)
  obtain w3 where 3: "nl_link_set_up N i w2 = (Inr (), w3)"
    "view w3 = k\<lparr>k_links := (IFACE, i) # k_links k, k_up := i # k_up k, k_addrs := ?a4 # k_addrs k\<rparr>"
    using l(7)[of w2 i] 2(2) by (auto simp: known)
  obtain w4 where 4: "nl_route_add_v4 N 0 0 IPV4_GATEWAY w3 = (Inr (), w4)"
    "view w4 = (view w3)\<lparr>k_routes_v4 := (0, 0, IPV4_GATEWAY) # k_routes_v4 k\<rparr>"
    using l(8)[of w3 IPV4_GATEWAY 0 0] 3(2) f(2) example_subnets by (auto simp: known)
  have "view w4 = set_up_v4 i k" by (simp add: 4(2) 3(2) set_up_v4_def)
  with 1(1) 2(1) 3(1) 4(1) show ?thesis by (simp add: init_tun_v4_def)
qed

lemma create_tun_sets_up:
  assumes L: "kernel_laws T N nm view" and "IFACE \<notin> fst ` set (k_links (view w))" "\<not> has_route (k_routes_v4 (view w)) 0 0"
    "\<not> has_route (k_routes_v6 (view w)) 0 0"
  shows "\<exists>fd w' i. create_tun T N IPV4 IPV4_GATEWAY example_ipv6 example_ipv6_gateway w = Inr (fd, w') \<and>
    fresh_link (view w) i \<and> view w' = set_up i (view w)"
proof -
  note l = kernel_lawsD[OF L]
  obtain fd i w1 where 1: "tc_create T (tun_conf T) w = (Inr fd, w1)" "fresh_link (view w) i"
    "view w1 = (view w)\<lparr>k_links := (IFACE, i) # k_links (view w)\<rparr>"
    using l(2)[of "tun_conf T" w] assms(2) l(1) by auto
  obtain w2 where 2: "nl_new_connection N w1 = (Inr (), w2)" "view w2 = view w1" using l(4) by blast
  obtain w3 where 3: "init_tun N IFACE IPV4 IPV4_GATEWAY example_ipv6 example_ipv6_gateway w2 = Inr w3" "view w3 = set_up i (view w)"
    using init_tun_sets_up[OF L, where w = w2 and k = "view w" and i = i] 1(2,3) 2(2) assms(3,4) by auto
  obtain fd' w4 where 4: "tc_async_new T fd w3 = (Inr fd', w4)" "view w4 = view w3" using l(3) by blast
  with 1(1,2) 2(1) 3 show ?thesis by (intro exI[of _ fd'] exI[of _ w4] exI[of _ i]) (simp add: create_tun_def)
qed

lemma create_tun_v4_sets_up:
  assumes L: "kernel_laws T N nm view" and "IFACE \<notin> fst ` set (k_links (view w))" "\<not> has_route (k_routes_v4 (view w)) 0 0"
  shows "\<exists>fd w' i. create_tun_v4 T N w = Inr (fd, w') \<and> fresh_link (view w) i \<and> view w' = set_up_v4 i (view w)"
proof -
  note l = kernel_lawsD[OF L]
  obtain fd i w1 where 1: "tc_create T (tun_conf T) w = (Inr fd, w1)" "fresh_link (view w) i"
    "view w1 = (view w)\<lparr>k_links := (IFACE, i) # k_links (view w)\<rparr>"
    using l(2)[of "tun_conf T" w] assms(2) l(1) by auto
  obtain w2 where 2: "nl_new_connection N w1 = (Inr (), w2)" "view w2 = view w1" using l(4) by blast
  obtain w3 where 3: "init_tun_v4 N IFACE IPV4 IPV4_GATEWAY w2 = Inr w3" "view w3 = set_up_v4 i (view w)"
    using init_tun_v4_sets_up[OF L, where w = w2 and k = "view w" and i = i] 1(2,3) 2(2) assms(3) by auto
  obtain fd' w4 where 4: "tc_async_new T fd w3 = (Inr fd', w4)" "view w4 = view w3" using l(3) by blast
  with 1(1,2) 2(1) 3 show ?thesis by (intro exI[of _ fd'] exI[of _ w4] exI[of _ i]) (simp add: create_tun_v4_def)
qed

section \<open>A kernel in memory\<close>

definition new_index :: "kernel \<Rightarrow> nat" where
  "new_index k = Suc (sum_list (map snd (k_links k) @ k_up k @ map fst (k_addrs k)))"

lemma new_index_fresh: "fresh_link k (new_index k)"
proof -
  have "new_index k \<notin> set (map snd (k_links k) @ k_up k @ map fst (k_addrs k))"
    using member_le_sum_list[of "new_index k" "map snd (k_links k) @ k_up k @ map fst (k_addrs k)"] unfolding new_index_def by auto
  then show ?thesis by (auto simp: fresh_link_def has_link_def)
qed

definition checked :: "bool \<Rightarrow> kernel \<Rightarrow> kernel \<Rightarrow> (string + unit) \<times> kernel" where
  "checked ok k k' = (if ok then (Inr (), k') else (Inl ''refused'', k))"

definition mem_tun :: "(string, nat, kernel) tun_crate" where
  "mem_tun = \<lparr>tc_configure = [], tc_name = (\<lambda>s _. s), tc_layer_l3 = (\<lambda>c. c), tc_mtu = (\<lambda>_ c. c),
     tc_packet_information = (\<lambda>_ c. c),
     tc_create = (\<lambda>c k. if c \<in> fst ` set (k_links k) then (Inl ''busy'', k)
        else (Inr 3, k\<lparr>k_links := (c, new_index k) # k_links k\<rparr>)),
     tc_async_new = (\<lambda>fd k. (Inr fd, k))\<rparr>"

definition mem_netlink :: "kernel netlink_crate" where
  "mem_netlink = \<lparr>nl_new_connection = (\<lambda>k. (Inr (), k)), nl_link_get = (\<lambda>s k. (Inr (map_of (k_links k) s), k)),
     nl_address_add = (\<lambda>i a n k. checked (has_link k i \<and> (i, a, n) \<notin> set (k_addrs k)) k (k\<lparr>k_addrs := (i, a, n) # k_addrs k\<rparr>)),
     nl_link_set_up = (\<lambda>i k. checked (has_link k i) k (k\<lparr>k_up := i # k_up k\<rparr>)),
     nl_route_add_v4 = (\<lambda>p n gw k. checked (reachable_v4 k gw \<and> \<not> has_route (k_routes_v4 k) p n) k
        (k\<lparr>k_routes_v4 := (p, n, gw) # k_routes_v4 k\<rparr>)),
     nl_route_add_v6 = (\<lambda>p n gw k. checked (reachable_v6 k gw \<and> \<not> has_route (k_routes_v6 k) p n) k
        (k\<lparr>k_routes_v6 := (p, n, gw) # k_routes_v6 k\<rparr>))\<rparr>"

lemma mem_kernel_laws: "kernel_laws mem_tun mem_netlink (\<lambda>c. c) (\<lambda>k. k)"
  by (simp add: kernel_laws_def mem_tun_def mem_netlink_def checked_def) (use new_index_fresh in blast)

definition mem_kernel :: kernel where
  "mem_kernel = \<lparr>k_links = [(''lo'', 1)], k_up = [1], k_addrs = [(1, IpV4 0x7F000001, 8)], k_routes_v4 = [], k_routes_v6 = []\<rparr>"

section \<open>Properties\<close>



end
