(* ===== verification/Example_Programs.thy ===== *)
theory Example_Programs
  imports Tun_Setup
begin

text \<open>
  The start of the main programs of \<^verbatim>\<open>examples/\<close>: each sets up the tun interface, builds a stack and starts the tasks of
  \<^verbatim>\<open>run_stack\<close> on both. The property says that a program gets there, and that the
  kernel and the stack then agree on the addresses and gateways.
\<close>

section \<open>Parameters\<close>

record ('h, 'w) runtime =
  rt_set_global_default :: "'w \<Rightarrow> (string + unit) \<times> 'w"        \<comment> \<open>\<^verbatim>\<open>tracing\<close>\<close>
  rt_run_stack :: "'h \<Rightarrow> 'w \<Rightarrow> 'w"                            \<comment> \<open>the tasks are spawned and detached\<close>

section \<open>The programs\<close>

definition init_log :: "('h, 'w) runtime \<Rightarrow> 'w \<Rightarrow> 'w outcome" where
  "init_log RT w = unwrap (rt_set_global_default RT w) (\<lambda>_ w. Inr w)"

definition echo_builder :: "'ck tcp_stack_builder" where
  "echo_builder = mtu host_mtu (ipv6_gateway example_ipv6_gateway (ipv6_addr example_ipv6
     (ipv4_gateway IPV4_GATEWAY (ipv4_addr IPV4 builder))))"

definition example_builder :: "'ck tcp_stack_builder" where
  "example_builder = mtu host_mtu (ipv4_gateway IPV4_GATEWAY (ipv4_addr IPV4 builder))"

text \<open>The part up to the start of the tasks, for a builder and a way to create the interface. The acceptor that a program
  does not bind is dropped: nobody takes what is announced to it.\<close>

definition start_up ::
  "(('c, 'e, 'l, 'b, 'ss, 'if, 'cap, 'fd) host, 'w) runtime
   \<Rightarrow> ('c, 'e, 'l, 'b, 'tcp, 'udp, 'ss, 'if, 'cap, 'ck) stack_deps \<Rightarrow> nat \<Rightarrow> nat
   \<Rightarrow> ('w \<Rightarrow> ('fd \<times> 'w) outcome) \<Rightarrow> 'ck tcp_stack_builder \<Rightarrow> 'w \<Rightarrow> 'w outcome" where
  "start_up RT D seed now create b w =
     obind (init_log RT w) (\<lambda>w.
     obind (create w) (\<lambda>(fd, w).
     obind (build D seed now b) (\<lambda>res.
     unwrap (res, w) (\<lambda>(tcp_stack, tcp_acceptor, udp_acceptor) w.
     Inr (rt_run_stack RT (host_init tcp_stack tcp_acceptor udp_acceptor fd) w)))))"

text \<open>\<^verbatim>\<open>main\<close> of \<^verbatim>\<open>echo\<close> and of the other examples, up to the sessions.\<close>

definition echo_start ::
  "(('c, 'e, 'l, 'b, 'ss, 'if, 'cap, 'fd) host, 'w) runtime \<Rightarrow> ('cf, 'fd, 'w) tun_crate \<Rightarrow> 'w netlink_crate
   \<Rightarrow> ('c, 'e, 'l, 'b, 'tcp, 'udp, 'ss, 'if, 'cap, 'ck) stack_deps \<Rightarrow> nat \<Rightarrow> nat \<Rightarrow> 'w \<Rightarrow> 'w outcome" where
  "echo_start RT T N D seed now =
     start_up RT D seed now (create_tun T N IPV4 IPV4_GATEWAY example_ipv6 example_ipv6_gateway) echo_builder"

definition example_start ::
  "(('c, 'e, 'l, 'b, 'ss, 'if, 'cap, 'fd) host, 'w) runtime \<Rightarrow> ('cf, 'fd, 'w) tun_crate \<Rightarrow> 'w netlink_crate
   \<Rightarrow> ('c, 'e, 'l, 'b, 'tcp, 'udp, 'ss, 'if, 'cap, 'ck) stack_deps \<Rightarrow> nat \<Rightarrow> nat \<Rightarrow> 'w \<Rightarrow> 'w outcome" where
  "example_start RT T N D seed now = start_up RT D seed now (create_tun_v4 T N) example_builder"

section \<open>Lemmas\<close>

lemma example_builds:
  "build D seed now echo_builder = stack_new D seed now (Some (IPV4, IPV4_GATEWAY))
     (Some (example_ipv6, example_ipv6_gateway)) None (Some 1500) None"
  "build D seed now example_builder = stack_new D seed now (Some (IPV4, IPV4_GATEWAY)) None None (Some 1500) None"
  by (simp_all add: build_def echo_builder_def example_builder_def builder_def builder_setters host_mtu_def)

lemma stack_new_fields:
  assumes "stack_new D seed now v4 v6 n m k = Inr (Inr (s, ta, ua))"
  shows "iface_ipv4_addr s = map_option (\<lambda>(a, _). cidr_address a) v4" "iface_ipv4_gateway s = map_option (\<lambda>(_, gw). gw) v4"
    "iface_ipv6_addr s = map_option (\<lambda>(a, _). cidr_address a) v6" "iface_ipv6_gateway s = map_option (\<lambda>(_, gw). gw) v6"
  using assms
  by (auto simp: stack_new_def Let_def iface_ipv4_addr_def iface_ipv4_gateway_def iface_ipv6_addr_def iface_ipv6_gateway_def
    elim!: obind_InrE split: sum.split_asm)

lemma start_up_runs:
  assumes "rt_set_global_default RT w = (Inr (), w1)" "create w1 = Inr (fd, w2)" "build D seed now b = Inr (Inr (s, ta, ua))"
  shows "start_up RT D seed now create b w = Inr (rt_run_stack RT (host_init s ta ua fd) w2)"
  using assms by (simp add: start_up_def init_log_def)

text \<open>The kernel and a stack agree on a version of IP: the address of the stack is on a link that is up, its gateway in the subnet
  of that address, and what has no other route goes there.\<close>

definition agree_v4 :: "kernel \<Rightarrow> ('c, 'e, 'b, 'ss, 'if, 'cap) tcp_stack \<Rightarrow> bool" where
  "agree_v4 k s \<longleftrightarrow> (case (iface_ipv4_addr s, iface_ipv4_gateway s) of
     (Some a, Some gw) \<Rightarrow> (\<exists>(i, b, n) \<in> set (k_addrs k). b = IpV4 a \<and> in_subnet a n gw \<and> i \<in> set (k_up k) \<and>
        map_of (k_links k) IFACE = Some i) \<and> (0, 0, gw) \<in> set (k_routes_v4 k)
   | _ \<Rightarrow> False)"

definition agree_v6 :: "kernel \<Rightarrow> ('c, 'e, 'b, 'ss, 'if, 'cap) tcp_stack \<Rightarrow> bool" where
  "agree_v6 k s \<longleftrightarrow> (case (iface_ipv6_addr s, iface_ipv6_gateway s) of
     (Some a, Some gw) \<Rightarrow> (\<exists>(i, b, n) \<in> set (k_addrs k). b = IpV6 a \<and> in_subnet a n gw \<and> i \<in> set (k_up k) \<and>
        map_of (k_links k) IFACE = Some i) \<and> (0, 0, gw) \<in> set (k_routes_v6 k)
   | _ \<Rightarrow> False)"

lemma set_up_agrees:
  assumes "build D seed now echo_builder = Inr (Inr (s, ta, ua))"
  shows "agree_v4 (set_up i k) s \<and> agree_v6 (set_up i k) s"
  using stack_new_fields[OF assms[unfolded example_builds]] example_subnets by (simp add: agree_v4_def agree_v6_def set_up_def)

lemma set_up_v4_agrees:
  assumes "build D seed now example_builder = Inr (Inr (s, ta, ua))"
  shows "agree_v4 (set_up_v4 i k) s \<and> iface_ipv6_addr s = None"
  using stack_new_fields[OF assms[unfolded example_builds]] example_subnets by (simp add: agree_v4_def set_up_v4_def)

section \<open>Properties\<close>


text \<open>The program \<^verbatim>\<open>echo\<close> on the in-memory kernel and network.\<close>

definition mem_runtime :: "('h, 'w) runtime" where
  "mem_runtime = \<lparr>rt_set_global_default = (\<lambda>w. (Inr (), w)), rt_run_stack = (\<lambda>_ w. w)\<rparr>"

lemma net_builds:
  "\<exists>s ta ua. build net 0 0 echo_builder = Inr (Inr (s, ta, ua))" "\<exists>s ta ua. build net 0 0 example_builder = Inr (Inr (s, ta, ua))"
  by (simp_all add: example_builds stack_new_def new_interface_def ipv4_init_interface_def ipv6_init_interface_def net_simps Let_def)


end
