(* ===== verification/Ownership.thy ===== *)
theory Ownership
  imports System_Claims
begin

text \<open>
  Who owns the sockets of the stack. A socket that is announced belongs to the stream or UDP socket that the acceptor
  makes of it; only the drop of that owner asks the stack to close it. So whatever a user holds or can still
  accept has a socket of its own, and a socket that nobody takes any more is never closed.
\<close>

section \<open>Announced and not accepted\<close>

definition unaccepted :: "('c, 'e, 'l, 'b, 'ss, 'if, 'cap) sys \<Rightarrow> typed_socket_handle multiset" where
  "unaccepted y =
     (let s = sy_stack y
      in delivered (s\<lparr>st_tcp_stream_tx := drop (ac_taken (sy_tcp_acceptor y)) (st_tcp_stream_tx s),
                      st_udp_stream_tx := drop (ac_taken (sy_udp_acceptor y)) (st_udp_stream_tx s)\<rparr>))"

lemma mset_concat_split: "mset (concat (map f xs)) = mset (concat (map f (take n xs))) + mset (concat (map f (drop n xs)))"
  by (metis append_take_drop_id concat_append map_append mset_append)

lemma delivered_split:
  "delivered (sy_stack y) = announced (ac_taken (sy_tcp_acceptor y)) (ac_taken (sy_udp_acceptor y)) (sy_stack y) + unaccepted y"
  unfolding delivered_def announced_def unaccepted_def Let_def
  by (subst mset_concat_split[of _ "st_tcp_stream_tx (sy_stack y)" "ac_taken (sy_tcp_acceptor y)"],
      subst mset_concat_split[of _ "st_udp_stream_tx (sy_stack y)" "ac_taken (sy_udp_acceptor y)"]) simp

lemma owned_handles:
  assumes "sys_inv D q y"
  shows "count (owners y + unaccepted y) th \<le> (if th \<in> st_socket_handles (sy_stack y) then 1 else 0)"
proof -
  have "count (delivered (sy_stack y)) th \<le> count (sy_closed y) th + (if th \<in> st_socket_handles (sy_stack y) then 1 else 0)"
    using sys_invD(3)[OF assms, unfolded token_inv_def, THEN conjunct2, rule_format, of th] by simp
  moreover have "count (owners y + sy_closed y) th \<le>
      count (announced (ac_taken (sy_tcp_acceptor y)) (ac_taken (sy_udp_acceptor y)) (sy_stack y)) th"
    using sys_invD(8)[OF assms] by (intro mset_subset_eq_count) (simp add: streams_ok_def)
  ultimately show ?thesis unfolding delivered_split by simp
qed

section \<open>Announcements along runs\<close>

lemma op_start_outer:
  assumes "crossbeam_laws (d_cb D) q tx rx" "sh_bufs s b = None" "op_start D p buf b t s = Inr (w, s')"
  shows "outer s' = outer s"
  using assms(3)
  by (auto simp: op_start_eq[OF assms(1,2)] drop_tx_def outer_def share_buf_def dest!: send_event_outer
    split: prod.split_asm send_result.split_asm)

lemma user_outer:
  assumes C: "crossbeam_laws (d_cb D) q tx rx" and step: "user_step D y y'"
  shows "outer (sy_stack y') = outer (sy_stack y)"
  using step
proof cases
  case (start p b t buf w s')
  with op_start_outer[OF C start(3,5)] show ?thesis by simp
next
  case (start_shutdown st t w s')
  then show ?thesis
    by (auto simp: shutdown_start_def drop_tx_def outer_def dest!: send_event_outer
      split: prod.split_asm send_result.split_asm operation_event.split_asm)
next
  case (complete fs f fs' r res buf s')
  with op_finish_cast[OF complete(4)] show ?thesis by (simp add: outer_def)
qed (simp_all add: tcp_stream_drop_def udp_socket_drop_def send_event_outer[OF surjective_pairing, unfolded outer_def, simplified]
  drop_ref_def outer_def)

definition announces :: "('c, 'e, 'l, 'b, 'ss, 'if, 'cap) sys \<Rightarrow> ('c, 'e, 'l, 'b, 'ss, 'if, 'cap) sys \<Rightarrow> bool" where
  "announces y y' \<longleftrightarrow> prefix (st_tcp_stream_tx (sy_stack y)) (st_tcp_stream_tx (sy_stack y')) \<and>
     prefix (st_udp_stream_tx (sy_stack y)) (st_udp_stream_tx (sy_stack y')) \<and>
     (\<not> sy_accepts_tcp y \<longrightarrow> \<not> sy_accepts_tcp y' \<and> sy_tcp_acceptor y' = sy_tcp_acceptor y) \<and>
     (\<not> sy_accepts_udp y \<longrightarrow> \<not> sy_accepts_udp y' \<and> sy_udp_acceptor y' = sy_udp_acceptor y)"

lemma announces_outer:
  "outer (sy_stack y') = outer (sy_stack y) \<Longrightarrow> sy_accepts_tcp y' = sy_accepts_tcp y \<Longrightarrow> sy_accepts_udp y' = sy_accepts_udp y \<Longrightarrow>
   sy_tcp_acceptor y' = sy_tcp_acceptor y \<Longrightarrow> sy_udp_acceptor y' = sy_udp_acceptor y \<Longrightarrow> announces y y'"
  by (simp add: announces_def outer_def)

lemma announces_step:
  assumes C: "crossbeam_laws (d_cb D) q tx rx" and step: "sys_step D y y'"
  shows "announces y y'"
  using step
proof cases
  case user
  from user_outer[OF C user] user show ?thesis by (auto simp: announces_def outer_def elim: user_step.cases)
next
  case (turn bs evs bs' now packet r s')
  with drive_once_streams[OF turn(4)] show ?thesis by (simp add: announces_def)
next
  case (idle_turn now packet r s')
  with drive_once_streams[OF idle_turn(3)] show ?thesis by (simp add: announces_def)
next
  case (drop_stack ws s')
  with do_waker_acts_outer show ?thesis by (intro announces_outer) (simp_all add: stack_drop_def)
next
  case drop_generator
  then show ?thesis
    by (intro announces_outer) (simp_all add: generator_drop_def drop_events_outer split: prod.split, simp_all add: outer_def)
qed (auto simp: drop_events_outer intro!: announces_outer, simp_all add: outer_def)

lemma announces_run:
  assumes C: "crossbeam_laws (d_cb D) q tx rx" and run: "(sys_step D)\<^sup>*\<^sup>* y y'"
  shows "announces y y'"
  using run
proof (induction rule: rtranclp_induct)
  case (step y1 y2)
  from announces_step[OF C step.hyps(2)] step.IH show ?case by (auto simp: announces_def dest: prefix_order.trans)
qed (simp add: announces_def)

lemma unaccepted_tcp: "Typed_Tcp h \<in># unaccepted y \<longleftrightarrow>
    (\<exists>i. Inr i \<in> set (drop (ac_taken (sy_tcp_acceptor y)) (st_tcp_stream_tx (sy_stack y))) \<and> ti_handle i = h)"
  by (force simp: unaccepted_def delivered_def Let_def split: sum.split_asm)

lemma unaccepted_udp: "Typed_Udp h \<in># unaccepted y \<longleftrightarrow>
    (\<exists>i. Inr i \<in> set (drop (ac_taken (sy_udp_acceptor y)) (st_udp_stream_tx (sy_stack y))) \<and> ui_handle i = h)"
  by (force simp: unaccepted_def delivered_def Let_def split: sum.split_asm)

lemma set_drop_prefix: "prefix xs ys \<Longrightarrow> x \<in> set (drop n xs) \<Longrightarrow> x \<in> set (drop n ys)"
  by (auto simp: prefix_def)

lemma unaccepted_stays:
  assumes "announces y y'" "th \<in># unaccepted y"
    "case th of Typed_Tcp _ \<Rightarrow> \<not> sy_accepts_tcp y | Typed_Udp _ \<Rightarrow> \<not> sy_accepts_udp y"
  shows "th \<in># unaccepted y'"
  using assms by (cases th) (auto simp: announces_def unaccepted_tcp unaccepted_udp intro: set_drop_prefix)

section \<open>Properties\<close>

text \<open>C7 (invariant). Sockets and their owners: in every reachable state, each TCP stream and UDP socket that a user holds, and each one
  that was announced and can still be accepted, has a socket of its own kind in the stack, and no two of them share
  one. So no request on a stream in use is refused because its socket is gone, and closing one stream never closes
  another.\<close>

theorem owners_have_sockets:
  assumes "deps_laws D q tx rx" "iface_laws B (d_udp D) (d_set D) (d_iface D)" "sys_reach D y"
  shows "count (owners y + unaccepted y) th \<le> 1 \<and>
    (th \<in># owners y + unaccepted y \<longrightarrow> th \<in> st_socket_handles (sy_stack y) \<and>
       (case th of Typed_Tcp h \<Rightarrow> returns (get_tcp D h (sy_stack y)) | Typed_Udp h \<Rightarrow> returns (get_udp D h (sy_stack y))))"
proof -
  note inv = sys_reach_inv[OF assms]
  note c = owned_handles[OF inv, of th] and reg = sys_invD(1)[OF inv]
  have "th \<in> st_socket_handles (sy_stack y)" if "th \<in># owners y + unaccepted y"
    using c that by (metis count_eq_zero_iff le_zero_eq)
  with c inv_tcp_handle[OF reg] inv_udp_handle[OF reg] show ?thesis
    by (cases th) (auto simp: returns_def split: if_split_asm)
qed

theorem owners_have_sockets_witness:
  "Typed_Tcp 0 \<in># owners run_sys \<and> returns (get_tcp net 0 run_read)"
proof -
  have "Typed_Tcp 0 \<in># owners run_sys" by (simp add: owners_def run_sys_def run_stream_def)
  with owners_have_sockets[OF net_laws net_poll_laws run_reach, of "Typed_Tcp 0"] show ?thesis by (simp add: run_sys_def)
qed

text \<open>C31 (error). A socket that nobody can accept is never closed: when an acceptor has been dropped, a socket that was announced to it and
  not taken stays in the stack in every later state, as long as the stack exists, and no user ever holds it, so that nothing can ask the stack to
  close it. (The fields of a stack that was dropped keep their last values, which no step reads.)\<close>

theorem orphaned_sockets_stay:
  assumes "deps_laws D q tx rx" "iface_laws B (d_udp D) (d_set D) (d_iface D)" "sys_reach D y"
    and "th \<in># unaccepted y" "case th of Typed_Tcp _ \<Rightarrow> \<not> sy_accepts_tcp y | Typed_Udp _ \<Rightarrow> \<not> sy_accepts_udp y"
    and "(sys_step D)\<^sup>*\<^sup>* y y'"
  shows "th \<in> st_socket_handles (sy_stack y') \<and> th \<notin># owners y'"
proof -
  have "sys_reach D y'" using assms(6,3) by (induction rule: rtranclp_induct) (auto intro: sys_next)
  from owned_handles[OF sys_reach_inv[OF assms(1,2) this], of th]
    unaccepted_stays[OF announces_run[OF deps_lawsD(1)[OF assms(1)] assms(6)] assms(4,5)]
  show ?thesis by (auto simp: not_in_iff count_greater_zero_iff[symmetric] simp del: count_greater_zero_iff split: if_split_asm)
qed

theorem orphaned_sockets_stay_witness:
  "Typed_Tcp 0 \<in> st_socket_handles (run_accepted [] [[7, 8, 9]])"
proof -
  let ?y = "(run_at (run_accepted [] [[7, 8, 9]]) [] [] [] 0 {})\<lparr>sy_accepts_tcp := False\<rparr>"
  have y: "sys_reach net ?y" by (rule sys_next[OF run_announced user[OF drop_tcp_acceptor]])
  have u: "Typed_Tcp 0 \<in># unaccepted ?y" by (simp add: unaccepted_tcp run_accepted_def run_info_def)
  have s: "(sys_step net)\<^sup>*\<^sup>* ?y (?y\<lparr>sy_accepts_udp := False\<rparr>)" by (intro r_into_rtranclp user drop_udp_acceptor)
  from orphaned_sockets_stay[OF net_laws net_poll_laws y u _ s] show ?thesis by simp
qed

end
