(* ===== verification/Host_Packets.thy ===== *)
theory Host_Packets
  imports Host Ownership
begin

text \<open>
  The way of packets between the tun device and smoltcp through the tasks of \<^verbatim>\<open>run_stack\<close>, the three channels and the
  stack. Both ends are code of others, so what goes in and out is observed there: the device has been read
  from and written to, and smoltcp has taken packets from its device and put packets into it. Such a history is no part of
  the program; any implementation of the two can be given one.
\<close>

section \<open>The two ends\<close>

text \<open>
  \<open>taken\<close> and \<open>made\<close>: what an interface has received from its device and sent to it since it was made. Only
  \<^verbatim>\<open>poll\<close> uses the device.
\<close>

definition wire_tap ::
  "bytes_crate \<Rightarrow> ('if, 'cap, 'ss, 'ck) iface_crate \<Rightarrow> ('if \<Rightarrow> bytes list) \<Rightarrow> ('if \<Rightarrow> bytes list) \<Rightarrow> bool" where
  "wire_tap B I taken made \<longleftrightarrow>
     (\<forall>seed vi now. taken (if_new I seed vi now) = [] \<and> made (if_new I seed vi now) = []) \<and>
     (\<forall>b i. taken (if_set_any_ip I b i) = taken i \<and> made (if_set_any_ip I b i) = made i) \<and>
     (\<forall>a i i'. if_push_addr I a i = Inr i' \<longrightarrow> taken i' = taken i \<and> made i' = made i) \<and>
     (\<forall>gw i i'. if_add_default_ipv4_route I gw i = Inr i' \<longrightarrow> taken i' = taken i \<and> made i' = made i) \<and>
     (\<forall>gw i i'. if_add_default_ipv6_route I gw i = Inr i' \<longrightarrow> taken i' = taken i \<and> made i' = made i) \<and>
     (\<forall>now i vi ss i' vi' ss' acts. if_poll I now i vi ss = (i', vi', ss', acts) \<longrightarrow>
        (\<exists>es. run (device_step B) vi es vi' \<and> taken i' = taken i @ rx_of es \<and> made i' = made i @ tx_of es))"

lemma wire_tap_poll:
  assumes "wire_tap B I taken made" "if_poll I now i vi ss = (i', vi', ss', acts)"
  shows "\<exists>es. run (device_step B) vi es vi' \<and> taken i' = taken i @ rx_of es \<and> made i' = made i @ tx_of es"
  using assms(1)[unfolded wire_tap_def, THEN conjunct2, THEN conjunct2, THEN conjunct2, THEN conjunct2, THEN conjunct2,
    rule_format, OF assms(2)] .

text \<open>
  \<open>reads\<close> and \<open>writes\<close>: the packets that were read from the device and written to it. A read of no bytes
  is its end.
\<close>

definition tun_history :: "'t tun_device \<Rightarrow> ('t \<Rightarrow> bytes list) \<Rightarrow> ('t \<Rightarrow> bytes list) \<Rightarrow> bool" where
  "tun_history T reads writes \<longleftrightarrow>
     (\<forall>n t res t'. tun_read T n t = (res, t') \<longrightarrow>
        reads t' = reads t @ (case res of Inr data \<Rightarrow> if data = [] then [] else [data] | Inl _ \<Rightarrow> []) \<and> writes t' = writes t) \<and>
     (\<forall>p t res t'. tun_write T p t = (res, t') \<longrightarrow>
        writes t' = writes t @ (case res of Inr _ \<Rightarrow> [p] | Inl _ \<Rightarrow> []) \<and> reads t' = reads t)"

text \<open>
  Every interface that uses its device as smoltcp does can be observed: \<open>tapped\<close> adds the two logs, which nothing
  reads, from the change of the queues.
\<close>

definition tapped ::
  "('if, 'cap, 'ss, 'ck) iface_crate \<Rightarrow> ('if \<times> bytes list \<times> bytes list, 'cap, 'ss, 'ck) iface_crate" where
  "tapped I = \<lparr>
     cap_default = cap_default I, cap_set_mtu = cap_set_mtu I, cap_set_medium_ip = cap_set_medium_ip I,
     cap_set_checksum = cap_set_checksum I,
     if_new = (\<lambda>seed vi now. (if_new I seed vi now, [], [])),
     if_set_any_ip = (\<lambda>b (i, l). (if_set_any_ip I b i, l)),
     if_push_addr = (\<lambda>a (i, l). obind (if_push_addr I a i) (\<lambda>i'. Inr (i', l))),
     if_add_default_ipv4_route = (\<lambda>gw (i, l). map_sum id (\<lambda>i'. (i', l)) (if_add_default_ipv4_route I gw i)),
     if_add_default_ipv6_route = (\<lambda>gw (i, l). map_sum id (\<lambda>i'. (i', l)) (if_add_default_ipv6_route I gw i)),
     if_poll = (\<lambda>now (i, taken, made) vi ss. case if_poll I now i vi ss of (i', vi', ss', acts) \<Rightarrow>
       ((i', taken @ take (length (vi_rx_queue vi) - length (vi_rx_queue vi')) (vi_rx_queue vi),
          made @ drop (length (vi_tx_queue vi)) (vi_tx_queue vi')), vi', ss', acts)),
     if_poll_delay = (\<lambda>now (i, l) ss. if_poll_delay I now i ss)\<rparr>"

lemma tapped_tap:
  assumes "iface_laws B U S I"
  shows "wire_tap B (tapped I) (\<lambda>i. fst (snd i)) (\<lambda>i. snd (snd i))"
proof -
  have "\<exists>es. run (device_step B) vi es vi' \<and> rx_of es = take (length (vi_rx_queue vi) - length (vi_rx_queue vi')) (vi_rx_queue vi) \<and>
      tx_of es = drop (length (vi_tx_queue vi)) (vi_tx_queue vi')"
    if p: "if_poll I now i vi ss = (i', vi', ss', acts)" for now i vi ss i' vi' ss' acts
  proof -
    obtain es where es: "run (device_step B) vi es vi'" using assms p unfolding iface_laws_def by blast
    with vif.run_conserves[OF es] show ?thesis by (intro exI[of _ es]) simp
  qed
  then show ?thesis
    by (auto simp: wire_tap_def tapped_def map_sum_def split: sum.split_asm prod.split_asm elim!: obind_InrE) metis+
qed

section \<open>One turn\<close>

lemma drive_once_tap:
  assumes tap: "wire_tap B (d_iface D) taken made" and r: "drive_once D now packet evs s = Inr (Inr (packets, sleep), s')"
  shows "taken (st_interface s') @ vi_rx_queue (st_virtual_iface s') =
      taken (st_interface s) @ vi_rx_queue (st_virtual_iface s) @ (case packet of None \<Rightarrow> [] | Some p \<Rightarrow> [p])"
    "\<exists>new. made (st_interface s') = made (st_interface s) @ new \<and> packets = vi_tx_queue (st_virtual_iface s) @ new"
    "vi_tx_queue (st_virtual_iface s') = []"
proof -
  from drive_once_polls[OF r] obtain vi ss1 ss acts where
    p: "if_poll (d_iface D) now (st_interface s) (offered packet (st_virtual_iface s)) ss1 = (st_interface s', vi, ss, acts)" and
    vi: "st_virtual_iface s' = vi\<lparr>vi_tx_queue := []\<rparr>" "packets = vi_tx_queue vi"
    by (auto simp: polled_def)
  from wire_tap_poll[OF tap p] obtain es where es: "run (device_step B) (offered packet (st_virtual_iface s)) es vi"
    "taken (st_interface s') = taken (st_interface s) @ rx_of es" "made (st_interface s') = made (st_interface s) @ tx_of es"
    by blast
  from vif.run_conserves[OF es(1)] es(2,3) vi
  show "taken (st_interface s') @ vi_rx_queue (st_virtual_iface s') =
      taken (st_interface s) @ vi_rx_queue (st_virtual_iface s) @ (case packet of None \<Rightarrow> [] | Some p \<Rightarrow> [p])"
    "\<exists>new. made (st_interface s') = made (st_interface s) @ new \<and> packets = vi_tx_queue (st_virtual_iface s) @ new"
    "vi_tx_queue (st_virtual_iface s') = []"
    by simp_all
qed

lemma build_tap:
  assumes tap: "wire_tap B (d_iface D) taken made" and b: "build D seed now b = Inr (Inr (s, ta, ua))"
  shows "taken (st_interface s) = [] \<and> made (st_interface s) = [] \<and>
    vi_rx_queue (st_virtual_iface s) = [] \<and> vi_tx_queue (st_virtual_iface s) = []"
proof -
  obtain v4 v6 n m k where "stack_new D seed now v4 v6 n m k = Inr (Inr (s, ta, ua))" using b by (rule build_okE)
  then obtain cap where i: "new_interface (d_iface D) seed now (vi_new cap) v4 v6 = Inr (Inr (st_interface s))"
    and v: "st_virtual_iface s = vi_new cap"
    by (auto simp: stack_new_def Let_def elim!: obind_InrE split: sum.split_asm)
  from i tap have "taken (st_interface s) = [] \<and> made (st_interface s) = []"
    unfolding new_interface_def ipv4_init_interface_def ipv6_init_interface_def wire_tap_def
    by (auto elim!: obind_InrE split: option.split_asm prod.split_asm sum.split_asm) (metis+)?
  with v show ?thesis by (simp add: vi_new_def)
qed

section \<open>The whole way\<close>

text \<open>
  While the drive task runs, what was read from the device is what smoltcp has taken, what waits in the virtual interface and what
  waits in the channel; while the write task runs, what smoltcp has made is what was written and what waits
  in the other channel. A task that has ended leaves what it had not taken behind.
\<close>

definition host_flow ::
  "('if \<Rightarrow> bytes list) \<Rightarrow> ('if \<Rightarrow> bytes list) \<Rightarrow> ('t \<Rightarrow> bytes list) \<Rightarrow> ('t \<Rightarrow> bytes list)
   \<Rightarrow> ('c, 'e, 'l, 'b, 'ss, 'if, 'cap, 't) host \<Rightarrow> bool" where
  "host_flow taken made reads writes h \<longleftrightarrow>
     (let i = st_interface (sy_stack (ho_sys h)); vi = st_virtual_iface (sy_stack (ho_sys h))
      in vi_tx_queue vi = [] \<and>
         (if ho_driving h then reads (ho_tun h) = taken i @ vi_rx_queue vi @ ho_packets h
          else prefix (taken i @ vi_rx_queue vi) (reads (ho_tun h))) \<and>
         (if ho_writing h then made i = writes (ho_tun h) @ ho_replies h else prefix (writes (ho_tun h)) (made i)))"

text \<open>The drive task's packet is in its hands: removed from the channel and not yet passed on.\<close>

definition flow_with ::
  "bytes list \<Rightarrow> ('if \<Rightarrow> bytes list) \<Rightarrow> ('if \<Rightarrow> bytes list) \<Rightarrow> ('t \<Rightarrow> bytes list) \<Rightarrow> ('t \<Rightarrow> bytes list)
   \<Rightarrow> ('c, 'e, 'l, 'b, 'ss, 'if, 'cap, 't) host \<Rightarrow> bool" where
  "flow_with ps taken made reads writes h \<longleftrightarrow> host_flow taken made reads writes (h\<lparr>ho_packets := ps @ ho_packets h\<rparr>)"

lemma outer_frame:
  assumes "outer (sy_stack (ho_sys h')) = outer (sy_stack (ho_sys h))" "ho_tun h' = ho_tun h" "ho_packets h' = ho_packets h"
    "ho_replies h' = ho_replies h" "ho_driving h' = ho_driving h" "ho_writing h' = ho_writing h"
  shows "host_flow taken made reads writes h' = host_flow taken made reads writes h"
  using assms by (simp add: host_flow_def outer_def)

lemma stop_drive_flow:
  assumes "stop_drive D order h = Inr h'" "flow_with ps taken made reads writes h" "ho_driving h"
  shows "host_flow taken made reads writes h'"
proof -
  let ?s = "sy_stack (ho_sys h)"
  obtain s1 where s1: "stack_drop D (order (length (sh_wakers ?s))) ?s = Inr s1" and
    h': "h' = h\<lparr>ho_sys := (ho_sys h)\<lparr>sy_alive := False, sy_stack := fold drop_event (handed (sy_batches (ho_sys h))) s1,
      sy_batches := []\<rparr>, ho_packets := [], ho_driving := False\<rparr>"
    using assms(1) by (auto simp: stop_drive_def Let_def elim!: obind_InrE)
  have "outer (fold drop_event (handed (sy_batches (ho_sys h))) s1) = outer ?s"
    using do_waker_acts_outer[OF s1[unfolded stack_drop_def]] by (simp add: drop_events_outer)
  then show ?thesis using assms(2,3) by (auto simp: h' flow_with_def host_flow_def outer_def Let_def prefix_def)
qed

lemma drive_turn_flow:
  assumes tap: "wire_tap B (d_iface D) taken made" and r: "drive_turn D order now packet events h = Inr h'"
    and f: "flow_with (case packet of None \<Rightarrow> [] | Some p \<Rightarrow> [p]) taken made reads writes h" and d: "ho_driving h"
  shows "host_flow taken made reads writes h'"
proof -
  let ?s = "sy_stack (ho_sys h)"
  obtain res s where once: "drive_once D now packet events ?s = Inr (res, s)"
    using r by (auto simp: drive_turn_def elim!: obind_InrE)
  let ?h = "h\<lparr>ho_sys := (ho_sys h)\<lparr>sy_stack := s\<rparr>\<rparr>"
  show ?thesis
  proof (cases res)
    case (Inl e)
    have "flow_with (case packet of None \<Rightarrow> [] | Some p \<Rightarrow> [p]) taken made reads writes ?h"
      using f drive_once_failed_outer[OF once[unfolded Inl]] by (auto simp: flow_with_def host_flow_def outer_def Let_def)
    from stop_drive_flow[OF _ this] r once Inl d show ?thesis by (simp add: drive_turn_def)
  next
    case (Inr x)
    then obtain packets sleep where x: "res = Inr (packets, sleep)" by (cases x) auto
    note t = drive_once_tap[OF tap once[unfolded x]]
    from t(2) f have new: "made (st_interface s) = made (st_interface ?s) @ packets"
      by (auto simp: flow_with_def host_flow_def Let_def)
    let ?g = "?h\<lparr>ho_sleep := sleep\<rparr>"
    show ?thesis
    proof (cases "ho_writing h \<or> packets = []")
      case True
      with r once x have "h' = ?g\<lparr>ho_replies := ho_replies h @ packets\<rparr>" by (simp add: drive_turn_def Let_def)
      with True f d new t(1,3) show ?thesis by (auto simp: flow_with_def host_flow_def Let_def)
    next
      case False
      with r once x have s: "stop_drive D order ?g = Inr h'" by (simp add: drive_turn_def Let_def)
      have "flow_with [] taken made reads writes ?g"
        using False f d new t(1,3) by (auto simp: flow_with_def host_flow_def Let_def prefix_def)
      from stop_drive_flow[OF s this] d show ?thesis by simp
    qed
  qed
qed

lemma take_flow:
  assumes "host_flow taken made reads writes h"
  shows "flow_with (case first (ho_packets h) of None \<Rightarrow> [] | Some p \<Rightarrow> [p]) taken made reads writes (take_batch (take_packet h))"
    "flow_with (case first (ho_packets h) of None \<Rightarrow> [] | Some p \<Rightarrow> [p]) taken made reads writes (take_packet (take_batch h))"
  using assms
  by (cases "ho_packets h"; simp add: flow_with_def host_flow_def take_packet_def take_batch_def first_def Let_def)+

lemma drive_task_flow:
  assumes tap: "wire_tap B (d_iface D) taken made" and r: "drive_task D order now sel h = Inr h'"
    and f: "host_flow taken made reads writes h" and d: "ho_driving h"
  shows "host_flow taken made reads writes h'"
proof -
  have w: "flow_with [] taken made reads writes h" using f by (simp add: flow_with_def)
  have d': "ho_driving (take_batch (take_packet h))" "ho_driving (take_packet (take_batch h))"
    using d by (simp_all add: take_packet_def take_batch_def)
  show ?thesis
  proof (cases sel)
    case Sel_timeout
    with r drive_turn_flow[OF tap _ _ d, of order now None None h'] w show ?thesis by (simp add: drive_task_def)
  next
    case Sel_packet
    with r drive_turn_flow[OF tap _ take_flow(1)[OF f] d'(1)] show ?thesis by (simp add: drive_task_def)
  next
    case Sel_events
    with r drive_turn_flow[OF tap _ take_flow(2)[OF f] d'(2)] show ?thesis by (simp add: drive_task_def)
  qed (use r stop_drive_flow[OF _ w d] in \<open>simp_all add: drive_task_def\<close>)
qed

lemma generator_drop_outer:
  fixes s :: "('c, 'e, 'b, 'ss, 'if, 'cap) tcp_stack"
  shows "outer (generator_drop D s) = outer s"
  by (simp add: generator_drop_def drop_events_outer split: prod.split) (simp add: outer_def)

lemma channel_outer:
  fixes s :: "('c, 'e, 'b, 'ss, 'if, 'cap) tcp_stack"
  shows "outer (s\<lparr>sh_ch := ch\<rparr>) = outer s"
  by (simp add: outer_def)

lemma events_task_flow:
  assumes "events_task D h = Some h'"
  shows "host_flow taken made reads writes h' = host_flow taken made reads writes h"
proof (rule outer_frame)
  show "outer (sy_stack (ho_sys h')) = outer (sy_stack (ho_sys h))"
    using assms by (auto simp: events_task_def stop_events_def Let_def generator_drop_outer drop_events_outer channel_outer
      split: option.split_asm prod.split_asm poll.split_asm sum.split_asm if_split_asm)
qed (use assms in \<open>auto simp: events_task_def stop_events_def Let_def
  split: option.split_asm prod.split_asm poll.split_asm sum.split_asm if_split_asm\<close>)

lemma write_task_flow:
  assumes "tun_history T reads writes" "write_task T h = Some h'" "host_flow taken made reads writes h" "ho_writing h"
  shows "host_flow taken made reads writes h'"
proof (cases "ho_replies h")
  case Nil
  with assms(2-4) show ?thesis by (auto simp: write_task_def host_flow_def Let_def split: if_split_asm)
next
  case (Cons p ps)
  obtain res tun where w: "tun_write T p (ho_tun h) = (res, tun)" by fastforce
  with assms(1) have "writes tun = writes (ho_tun h) @ (case res of Inr _ \<Rightarrow> [p] | Inl _ \<Rightarrow> [])" "reads tun = reads (ho_tun h)"
    unfolding tun_history_def by blast+
  with w Cons assms(2-4) show ?thesis
    by (cases res) (auto simp: write_task_def host_flow_def Let_def)
qed

lemma read_task_flow:
  assumes "tun_history T reads writes" "read_task T h = Inr h'" "length (ho_buffer h) \<le> host_mtu" "host_flow taken made reads writes h"
  shows "host_flow taken made reads writes h'"
proof -
  from read_task_eq[OF assms(3), of T] obtain buffer where b: "read_task T h = read_outcome T buffer h" by blast
  obtain res tun where r: "tun_read T host_mtu (ho_tun h) = (res, tun)" by fastforce
  with assms(1) have "reads tun = reads (ho_tun h) @ (case res of Inr data \<Rightarrow> if data = [] then [] else [data] | Inl _ \<Rightarrow> [])"
    "writes tun = writes (ho_tun h)"
    unfolding tun_history_def by blast+
  with r b assms(2,4) show ?thesis
    by (cases res) (auto simp: read_outcome_def host_flow_def Let_def prefix_def split: if_split_asm)
qed

lemma host_step_flow:
  assumes C: "crossbeam_laws (d_cb D) q tx rx" and tap: "wire_tap B (d_iface D) taken made" and T: "tun_history T reads writes"
    and step: "host_step D T order h h'" and b: "length (ho_buffer h) \<le> host_mtu" and f: "host_flow taken made reads writes h"
  shows "host_flow taken made reads writes h'"
  using step
proof cases
  case host_read
  then show ?thesis by (intro read_task_flow[OF T _ b f])
next
  case host_write
  then show ?thesis by (intro write_task_flow[OF T _ f])
next
  case host_events
  with f events_task_flow show ?thesis by blast
next
  case (host_drive sel now)
  then show ?thesis by (intro drive_task_flow[OF tap _ f])
next
  case (host_user y)
  with f user_outer[OF C host_user(2)] outer_frame[of h' h taken made reads writes] show ?thesis by simp
qed

section \<open>Properties\<close>

text \<open>C15 (safety). The tasks and the stack neither lose, duplicate nor reorder packets between the tun device and smoltcp,
  in any order of tasks and users: while the drive task runs, the packets read from the device are exactly those smoltcp has
  taken, those that wait in the virtual interface and those in the channel, in this order; while the write
  task runs, the packets smoltcp has sent are exactly those written to the device followed by those that wait in the other
  channel. After a task has ended, what came out is still a prefix of what went in.\<close>

theorem host_packets_in_order:
  assumes "crossbeam_laws (d_cb D) q tx rx" "wire_tap B (d_iface D) taken made" "tun_history T reads writes"
    and "build D seed now b = Inr (Inr (s, ta, ua))" "reads tun = []" "writes tun = []"
    and "(host_step D T order)\<^sup>*\<^sup>* (host_init s ta ua tun) h"
    and "i = st_interface (sy_stack (ho_sys h))" "queued = vi_rx_queue (st_virtual_iface (sy_stack (ho_sys h)))"
  shows "(ho_driving h \<longrightarrow> reads (ho_tun h) = taken i @ queued @ ho_packets h) \<and> prefix (taken i @ queued) (reads (ho_tun h)) \<and>
    (ho_writing h \<longrightarrow> made i = writes (ho_tun h) @ ho_replies h) \<and> prefix (writes (ho_tun h)) (made i)"
proof -
  have "length (ho_buffer h) \<le> host_mtu \<and> host_flow taken made reads writes h"
    using assms(7)
  proof (induction rule: rtranclp_induct)
    case base
    with build_tap[OF assms(2,4)] assms(5,6) show ?case by (simp add: host_init_def sys_init_def host_flow_def)
  next
    case (step h h')
    with host_step_buffer host_step_flow[OF assms(1-3)] show ?case by blast
  qed
  then show ?thesis by (auto simp: assms(8,9) host_flow_def Let_def split: if_split_asm)
qed

text \<open>A run on the in-memory network with a tap, and a device that remembers what was read and written: one packet is read, taken by smoltcp,
  answered, and the answer is written.\<close>

definition tape_tun :: "(bytes list \<times> bytes list \<times> bytes list) tun_device" where
  "tape_tun = \<lparr>
     tun_read = (\<lambda>n (ins, got, put). case ins of
        [] \<Rightarrow> (Inl ''closed'', (ins, got, put))
      | p # ps \<Rightarrow> (Inr (take n p), (ps, got @ (if take n p = [] then [] else [take n p]), put))),
     tun_write = (\<lambda>p (ins, got, put). (Inr (length p), (ins, got, put @ [p])))\<rparr>"

lemma tape_tun_history: "tun_history tape_tun (\<lambda>t. fst (snd t)) (\<lambda>t. snd (snd t))"
  by (auto simp: tun_history_def tape_tun_def split: list.split_asm if_split_asm)

type_synonym tap_if = "ip_cidr list \<times> bytes list \<times> bytes list"

definition tapped_net :: "(net_chan, bool option, unit, net_buf, net_tcp, net_udp, net_set, tap_if, nat, unit) stack_deps" where
  "tapped_net = \<lparr>d_cb = list_crossbeam, d_ev = slot_event, d_io = net_io, d_wire = net_wire, d_tcp = net_tcp_crate,
     d_udp = net_udp_crate, d_set = net_set_crate, d_iface = tapped net_iface_crate\<rparr>"

lemma tapped_net_tap: "wire_tap net_bytes (d_iface tapped_net) (\<lambda>i. fst (snd i)) (\<lambda>i. snd (snd i))"
  using tapped_tap[OF net_iface_laws] by (simp add: tapped_net_def)

definition tap_stack ::
  "operation_event list \<Rightarrow> net_set \<Rightarrow> typed_socket_handle set \<Rightarrow> socket_addr set \<Rightarrow> bytes list
   \<Rightarrow> (net_chan, bool option, net_buf, net_set, tap_if, nat) tcp_stack" where
  "tap_stack evs ss hs as seen = \<lparr>sh_ch = \<lparr>nc_chan = (evs, True, True), nc_event = None\<rparr>, sh_wakers = [], sh_bufs = Map.empty,
     sh_trace = [], st_ipv4_addr = Some 7, st_ipv4_gateway = Some 1, st_ipv6_addr = None, st_ipv6_gateway = None,
     st_tcp_socket_buf_size = 131072,
     st_interface = ([IpCidr_Ipv4 \<lparr>cidr_address = 1, cidr_prefix_len = 24\<rparr>], seen, seen),
     st_virtual_iface = \<lparr>vi_cap = 1500, vi_tx_queue = [], vi_rx_queue = []\<rparr>,
     st_socket_set = ss, st_socket_handles = hs, st_accepted_udp_sockets = as,
     st_tcp_stream_tx = [], st_udp_stream_tx = []\<rparr>"

definition tap_packet :: bytes where
  "tap_packet = [4, 17, 0, 5, 80]"

definition tap_after :: "(net_chan, bool option, net_buf, net_set, tap_if, nat) tcp_stack" where
  "tap_after = tap_stack [Ready (Typed_Udp 0)]
     [Some (Socket_Udp \<lparr>nu_local = (Some (IpV4 5), 80), nu_rx = [], nu_tx = [], nu_recv_waker = None, nu_send_waker = None\<rparr>)]
     {Typed_Udp 0} {SocketAddrV4 5 80} [tap_packet]"

lemma tap_build:
  "build tapped_net 0 0 net_builder = Inr (Inr (tap_stack [] [] {} {} [], \<lparr>ac_taken = 0\<rparr>, \<lparr>ac_taken = 0\<rparr>))"
  by (simp add: build_def net_builder_def builder_def builder_setters stack_new_def new_interface_def
    ipv4_init_interface_def tapped_net_def tapped_def net_simps tun_capabilities_def vi_new_def notify_new_def tap_stack_def
    SOCKET_BUF_SIZE_def MTU_def Let_def)

lemma tap_turn: "drive_once tapped_net 0 (Some tap_packet) None (tap_stack [] [] {} {} []) = Inr (Inr ([tap_packet], None), tap_after)"
  by (simp add: drive_once_def drive_packet_def parse_packet_def try_init_udp_def create_udp_socket_def send_event_def
    notify_send_def poll_interface_def tap_stack_def tap_after_def tap_packet_def tapped_net_def tapped_def net_simps
    do_waker_acts_def push_receive_packet_def pop_all_send_packets_def Let_def)

definition tap_host ::
  "(net_chan, bool option, net_buf, net_set, tap_if, nat) tcp_stack \<Rightarrow> bytes list \<times> bytes list \<times> bytes list \<Rightarrow> bytes
   \<Rightarrow> bytes list \<Rightarrow> bytes list
   \<Rightarrow> (net_chan, bool option, unit, net_buf, net_set, tap_if, nat, bytes list \<times> bytes list \<times> bytes list) host" where
  "tap_host s tun buffer packets replies =
     (host_init s \<lparr>ac_taken = 0\<rparr> \<lparr>ac_taken = 0\<rparr> tun)\<lparr>ho_buffer := buffer, ho_packets := packets, ho_replies := replies\<rparr>"

lemma tap_run:
  "(host_step tapped_net tape_tun (\<lambda>n. [0..<n]))\<^sup>*\<^sup>*
     (host_init (tap_stack [] [] {} {} []) \<lparr>ac_taken = 0\<rparr> \<lparr>ac_taken = 0\<rparr> ([tap_packet], [], []))
     (tap_host tap_after ([], [tap_packet], [tap_packet]) (drop 5 (resize host_mtu 0 [])) [] [])"
proof -
  let ?step = "host_step tapped_net tape_tun (\<lambda>n. [0..<n])" and ?rest = "drop 5 (resize host_mtu 0 [])"
  let ?h0 = "tap_host (tap_stack [] [] {} {} []) ([tap_packet], [], []) [] [] []"
  let ?h1 = "tap_host (tap_stack [] [] {} {} []) ([], [tap_packet], []) ?rest [tap_packet] []"
  let ?h2 = "tap_host tap_after ([], [tap_packet], []) ?rest [] [tap_packet]"
  have "read_task tape_tun ?h0 = Inr ?h1"
    by (simp add: read_task_def tap_host_def host_init_def tape_tun_def tap_packet_def Let_def)
      (simp add: split_to_def resize_def host_mtu_def)
  then have "?step ?h0 ?h1" by (intro host_read) (simp_all add: tap_host_def host_init_def)
  moreover have "drive_task tapped_net (\<lambda>n. [0..<n]) 0 Sel_packet ?h1 = Inr ?h2"
    by (simp add: drive_task_def drive_turn_def take_packet_def take_batch_def tap_host_def host_init_def sys_init_def tap_turn Let_def)
  then have "?step ?h1 ?h2" by (intro host_drive[of _ Sel_packet]) (simp_all add: tap_host_def host_init_def)
  moreover have "write_task tape_tun ?h2 = Some (tap_host tap_after ([], [tap_packet], [tap_packet]) ?rest [] [])"
    by (simp add: write_task_def tap_host_def host_init_def tape_tun_def)
  then have "?step ?h2 (tap_host tap_after ([], [tap_packet], [tap_packet]) ?rest [] [])"
    by (intro host_write) (simp_all add: tap_host_def host_init_def)
  moreover have "?h0 = host_init (tap_stack [] [] {} {} []) \<lparr>ac_taken = 0\<rparr> \<lparr>ac_taken = 0\<rparr> ([tap_packet], [], [])"
    by (simp add: tap_host_def host_init_def)
  ultimately show ?thesis by (metis (no_types, lifting) converse_rtranclp_into_rtranclp rtranclp.rtrancl_refl)
qed

theorem host_packets_in_order_witness:
  "\<exists>h. ho_driving h \<and> ho_writing h \<and> fst (snd (ho_tun h)) = [tap_packet] \<and> snd (snd (ho_tun h)) = [tap_packet] \<and>
    fst (snd (st_interface (sy_stack (ho_sys h)))) = fst (snd (ho_tun h)) \<and>
    snd (snd (st_interface (sy_stack (ho_sys h)))) = snd (snd (ho_tun h)) \<and>
    (host_step tapped_net tape_tun (\<lambda>n. [0..<n]))\<^sup>*\<^sup>*
      (host_init (tap_stack [] [] {} {} []) \<lparr>ac_taken = 0\<rparr> \<lparr>ac_taken = 0\<rparr> ([tap_packet], [], [])) h"
proof -
  let ?h = "tap_host tap_after ([], [tap_packet], [tap_packet]) (drop 5 (resize host_mtu 0 [])) [] []"
  have C: "crossbeam_laws (d_cb tapped_net) fst (\<lambda>c. fst (snd c)) (\<lambda>c. snd (snd c))"
    using list_crossbeam_laws by (simp add: tapped_net_def)
  have "ho_driving ?h" "ho_writing ?h" "ho_packets ?h = []" "ho_replies ?h = []" "ho_tun ?h = ([], [tap_packet], [tap_packet])"
    "vi_rx_queue (st_virtual_iface (sy_stack (ho_sys ?h))) = []"
    by (simp_all add: tap_host_def host_init_def sys_init_def tap_after_def tap_stack_def)
  with host_packets_in_order[OF C tapped_net_tap tape_tun_history tap_build _ _ tap_run refl refl] tap_run show ?thesis
    by (intro exI[of _ ?h]) simp
qed

end
