(* ===== verification/Lending.thy ===== *)
theory Lending
  imports Progress
begin

text \<open>
  What happens to a buffer while it is lent to the stack. The cell of \<^verbatim>\<open>src/shared_buf.rs\<close> has interior
  mutability, and its \<^verbatim>\<open>unsafe\<close> methods ask the caller to make sure that nobody else uses the buffer at the same
  time. Here: a cell is written to only while a read or recv request that carries it is under way. So
  a write or send gets its own buffer back unchanged, and once an operation has been answered its
  buffer stays as it is until the operation is resumed.
\<close>

section \<open>Cells that no request can write to\<close>

text \<open>\<open>ev_ok\<close> and \<open>waker_ok\<close> with the predicate that excludes \<open>b\<close>: no read or recv request carries \<open>b\<close>.\<close>

abbreviation spares :: "buf_id \<Rightarrow> operation_event \<Rightarrow> bool" where
  "spares b \<equiv> ev_ok (\<lambda>_ _. True) (\<lambda>b'. b' \<noteq> b)"

definition untouched ::
  "('c, operation_event) crossbeam \<Rightarrow> ('c \<Rightarrow> operation_event list) \<Rightarrow> ('c \<Rightarrow> bool) \<Rightarrow> ('c \<Rightarrow> bool) \<Rightarrow> buf_id \<Rightarrow> 'b
   \<Rightarrow> ('c, 'e, 'b, 'z) shared_scheme \<Rightarrow> bool" where
  "untouched C q tx rx b v s \<longleftrightarrow> crossbeam_laws C q tx rx \<and>
     (\<forall>ev\<in>set (q (nc_chan (sh_ch s))). spares b ev) \<and>
     (\<forall>a. Some a \<in> set (sh_wakers s) \<longrightarrow> \<not> ao_used a \<longrightarrow> waker_ok (\<lambda>_ _. True) (\<lambda>b'. b' \<noteq> b) (ao_value a)) \<and>
     (\<forall>c. sh_bufs s b = Some c \<longrightarrow> sb_inner (arc_data c) = v)"

interpretation lent: stack_effects D "untouched (d_cb D) q tx rx b v" "\<lambda>_ _. True" "\<lambda>b'. b' \<noteq> b"
proof
  fix s ev r s'
  assume "untouched (d_cb D) q tx rx b v s" "spares b ev" "send_event D ev s = (r, s')"
  then show "untouched (d_cb D) q tx rx b v s' \<and> (r = Sent \<or> r = SendError ev)"
    using crossbeam_sendD[of "d_cb D" q tx rx] crossbeam_send_errD[of "d_cb D" q tx rx]
    by (auto simp: untouched_def send_event_def notify_send_def split: sum.split_asm)
next
  fix s w c
  assume "untouched (d_cb D) q tx rx b v s" "w < length (sh_wakers s)" "spent c"
  then show "untouched (d_cb D) q tx rx b v (s\<lparr>sh_wakers := (sh_wakers s)[w := c]\<rparr>)"
    by (auto simp: untouched_def dest!: set_update_subset_insert[THEN subsetD])
qed (auto simp: untouched_def wake_once_fn_def only_fills_def dest: nth_mem)

section \<open>Steps and runs\<close>

definition lent_sys ::
  "('c, 'e, 'l, 'b, 'tcp, 'udp, 'ss, 'if, 'cap, 'ck) stack_deps \<Rightarrow> ('c \<Rightarrow> operation_event list) \<Rightarrow> ('c \<Rightarrow> bool)
   \<Rightarrow> ('c \<Rightarrow> bool) \<Rightarrow> buf_id \<Rightarrow> 'b \<Rightarrow> ('c, 'e, 'l, 'b, 'ss, 'if, 'cap) sys \<Rightarrow> bool" where
  "lent_sys D q tx rx b v y \<longleftrightarrow> untouched (d_cb D) q tx rx b v (sy_stack y) \<and>
     (\<forall>ev\<in>set (handed (sy_batches y)). spares b ev)"

lemma user_step_batches: "user_step D y y' \<Longrightarrow> sy_batches y' = sy_batches y"
  by (cases rule: user_step.cases) auto

text \<open>A batch only holds what was in the channel.\<close>

lemma batches_step:
  assumes C: "crossbeam_laws (d_cb D) q tx rx" and step: "sys_step D y y'"
    and q: "\<forall>ev\<in>set (q (nc_chan (sh_ch (sy_stack y)))). P ev" and bs: "\<forall>ev\<in>set (handed (sy_batches y)). P ev"
  shows "\<forall>ev\<in>set (handed (sy_batches y')). P ev"
  using step
proof cases
  case (generate_ready evs pc ch)
  with q bs generate_ready_chan[OF C generate_ready(3)] show ?thesis by auto
qed (use bs in \<open>auto dest: user_step_batches\<close>)

lemma lent_step:
  assumes C: "crossbeam_laws (d_cb D) q tx rx" and step: "sys_step D y y'"
    and b: "sh_bufs (sy_stack y) b \<noteq> None" and l: "lent_sys D q tx rx b v y"
  shows "lent_sys D q tx rx b v y'"
proof -
  have s: "untouched (d_cb D) q tx rx b v (sy_stack y)" and evs: "\<forall>ev\<in>set (handed (sy_batches y)). spares b ev"
    using l by (simp_all add: lent_sys_def)
  have "untouched (d_cb D) q tx rx b v (sy_stack y')"
  proof (rule lent.sys_step_I[OF C _ _ _ evs _ _ step s])
    fix r pc ch
    assume "generate_poll (d_cb D) (d_ev D) (sy_generator y, sh_ch (sy_stack y)) = Some (r, pc, ch)"
      "r = Pending \<or> (\<exists>evs. r = Poll_ready (Inr evs))"
    with s show "untouched (d_cb D) q tx rx b v ((sy_stack y)\<lparr>sh_ch := ch\<rparr>)"
      by (auto simp: untouched_def dest: generate_pending_chan generate_ready_chan[OF C])
  next
    fix p b' t
    assume "sh_bufs (sy_stack y) b' = None"
    with b show "spares b (op_event p b' t)" by (cases p) auto
  qed (use b s crossbeam_drop[OF C, of "nc_chan (sh_ch (sy_stack y))"] in \<open>auto simp: untouched_def\<close>)
  moreover have "\<forall>ev\<in>set (handed (sy_batches y')). spares b ev"
    by (rule batches_step[OF C step _ evs]) (use s in \<open>simp add: untouched_def\<close>)
  ultimately show ?thesis by (simp add: lent_sys_def)
qed

text \<open>A future keeps its channel, and channels are never issued twice.\<close>

lemma user_futures_step:
  assumes "user_step D y y'"
  shows "sy_issued y \<subseteq> sy_issued y' \<and> (\<forall>f\<in>set (sy_futures y'). f \<in> set (sy_futures y) \<or> fu_tx f \<notin> sy_issued y)"
  using assms by cases auto

lemma futures_step:
  assumes "sys_step D y y'"
  shows "sy_issued y \<subseteq> sy_issued y' \<and> (\<forall>f\<in>set (sy_futures y'). f \<in> set (sy_futures y) \<or> fu_tx f \<notin> sy_issued y)"
  using assms
proof cases
  case user
  then show ?thesis by (rule user_futures_step)
qed auto

lemma future_live:
  assumes "sys_inv D q y" "f \<in> set (sy_futures y)"
  shows "sh_bufs (sy_stack y) (fu_buf f) \<noteq> None" "fu_tx f \<in> sy_issued y"
proof -
  have "0 < fut_refs (sy_futures y) (fu_buf f)"
    using assms(2) by (auto simp: fut_refs_def filter_empty_conv)
  then have "0 < strong_count (sh_bufs (sy_stack y)) (fu_buf f)"
    using sys_invD(2)[OF assms(1)] by (simp add: owned_def)
  then show "sh_bufs (sy_stack y) (fu_buf f) \<noteq> None" by (auto dest: strong_pos_live)
  show "fu_tx f \<in> sy_issued y" using sys_invD(7)[OF assms(1)] assms(2) by (simp add: futures_ok_def)
qed

text \<open>What every step keeps while a future is suspended holds as long as it is.\<close>

lemma future_run:
  assumes laws: "deps_laws D q tx rx" "iface_laws B (d_udp D) (d_set D) (d_iface D)"
    and run: "(sys_step D)\<^sup>*\<^sup>* y y'" and y: "sys_reach D y" "f \<in> set (sy_futures y)" "J y"
    and keep: "\<And>y y'. \<lbrakk>sys_inv D q y; f \<in> set (sy_futures y); sys_step D y y'; J y\<rbrakk> \<Longrightarrow> J y'"
  shows "sys_reach D y' \<and> fu_tx f \<in> sy_issued y' \<and> (f \<in> set (sy_futures y') \<longrightarrow> J y')"
  using run
proof (induction rule: rtranclp_induct)
  case base
  then show ?case using y future_live(2)[OF sys_reach_inv[OF laws y(1)] y(2)] by simp
next
  case (step y1 y2)
  have inv: "sys_inv D q y1" using step.IH sys_reach_inv[OF laws] by blast
  have "J y2" if "f \<in> set (sy_futures y2)"
    using futures_step[OF step.hyps(2)] that step.IH keep[OF inv _ step.hyps(2)] by blast
  then show ?case using step.IH futures_step[OF step.hyps(2)] sys_next[OF _ step.hyps(2)] by blast
qed

lemma lent_run:
  assumes laws: "deps_laws D q tx rx" "iface_laws B (d_udp D) (d_set D) (d_iface D)"
    and run: "(sys_step D)\<^sup>*\<^sup>* y y'" and y: "sys_reach D y" "f \<in> set (sy_futures y)" "lent_sys D q tx rx (fu_buf f) v y"
  shows "sys_reach D y' \<and> fu_tx f \<in> sy_issued y' \<and> (f \<in> set (sy_futures y') \<longrightarrow> lent_sys D q tx rx (fu_buf f) v y')"
  by (rule future_run[where J = "lent_sys D q tx rx (fu_buf f) v", OF laws run y]) (blast intro: lent_step[OF deps_lawsD(1)[OF laws(1)]] dest: future_live(1))

section \<open>When a cell is spared\<close>

lemma spared_event: "buf_count (ev_reqs ev) b = 0 \<Longrightarrow> spares b ev"
  by (cases ev) (auto split: if_split_asm)

lemma spared_waker: "buf_count (waker_reqs f) b = 0 \<Longrightarrow> waker_ok (\<lambda>_ _. True) (\<lambda>b'. b' \<noteq> b) f"
  by (cases f) (auto split: if_split_asm)

lemma buf_count_sum: "buf_count (sum_list Ms) b = 0 \<Longrightarrow> M \<in> set Ms \<Longrightarrow> buf_count M b = 0"
  by (induction Ms) auto

lemma spared_events: "buf_count (events_reqs evs) b = 0 \<Longrightarrow> ev \<in> set evs \<Longrightarrow> spares b ev"
  using buf_count_sum[of "map ev_reqs evs" b "ev_reqs ev"] by (simp add: events_reqs_def spared_event)

lemma spared_cells:
  assumes "buf_count (sum_list (map cell_reqs ws)) b = 0" "Some a \<in> set ws" "\<not> ao_used a"
  shows "waker_ok (\<lambda>_ _. True) (\<lambda>b'. b' \<noteq> b) (ao_value a)"
proof -
  have "cell_reqs (Some a) \<in> set (map cell_reqs ws)" using assms(2) by (auto simp del: cell_reqs_simps)
  from buf_count_sum[OF assms(1) this] assms(3) show ?thesis by (simp add: cell_reqs_simps spared_waker)
qed

text \<open>A cell that no request refers to is spared.\<close>

lemma spared_lent:
  assumes "crossbeam_laws (d_cb D) q tx rx" "buf_count (in_flight q y) b = 0"
    and "\<forall>c. sh_bufs (sy_stack y) b = Some c \<longrightarrow> sb_inner (arc_data c) = v"
  shows "lent_sys D q tx rx b v y"
proof -
  have 0: "buf_count (events_reqs (q (nc_chan (sh_ch (sy_stack y))))) b = 0"
    "buf_count (sum_list (map cell_reqs (sh_wakers (sy_stack y)))) b = 0" "buf_count (events_reqs (handed (sy_batches y))) b = 0"
    using assms(2) by (simp_all add: in_flight_def held_def)
  show ?thesis
    using assms(1,3) spared_events[OF 0(1)] spared_events[OF 0(3)] spared_cells[OF 0(2)]
    by (auto simp: lent_sys_def untouched_def)
qed

lemma fresh_spared:
  assumes "sys_inv D q y" "sh_bufs (sy_stack y) b = None"
  shows "buf_count (in_flight q y) b = 0"
  using sys_invD(2)[OF assms(1), unfolded owned_def, rule_format, of b] assms(2) by (simp add: in_flight_def strong_count_def)

section \<open>Starting a write or a send\<close>

text \<open>An operation that only looks at its buffer, and the step in which it is started and suspended.\<close>

fun outgoing :: "op \<Rightarrow> bool" where
  "outgoing (Op_write _) \<longleftrightarrow> True"
| "outgoing (Op_send _ _) \<longleftrightarrow> True"
| "outgoing (Op_read _) \<longleftrightarrow> False"
| "outgoing (Op_recv _) \<longleftrightarrow> False"

definition suspends ::
  "('c, 'e, 'l, 'b, 'tcp, 'udp, 'ss, 'if, 'cap, 'ck) stack_deps \<Rightarrow> op \<Rightarrow> 'b \<Rightarrow> future
   \<Rightarrow> ('c, 'e, 'l, 'b, 'ss, 'if, 'cap) sys \<Rightarrow> ('c, 'e, 'l, 'b, 'ss, 'if, 'cap) sys \<Rightarrow> bool" where
  "suspends D p buf f y y' \<longleftrightarrow>
     op_known p (sy_tcp y) (sy_udp y) \<and> sh_bufs (sy_stack y) (fu_buf f) = None \<and> fu_tx f \<notin> sy_issued y \<and> fu_op f = p \<and>
     (\<exists>s'. op_start D p buf (fu_buf f) (fu_tx f) (sy_stack y) = Inr (True, s') \<and>
        y' = y\<lparr>sy_stack := s', sy_futures := f # sy_futures y, sy_issued := insert (fu_tx f) (sy_issued y)\<rparr>)"

lemma suspends_step: "suspends D p buf f y y' \<Longrightarrow> sys_step D y y' \<and> f \<in> set (sy_futures y')"
  using user_step.start[of p y "fu_buf f" "fu_tx f" D buf True]
  by (cases f) (auto simp: suspends_def intro: user)

lemma suspends_lent:
  assumes C: "crossbeam_laws (d_cb D) q tx rx" and inv: "sys_inv D q y"
    and st: "suspends D p buf f y y'" and out: "outgoing p"
  shows "lent_sys D q tx rx (fu_buf f) buf y'"
proof -
  let ?b = "fu_buf f" and ?s = "share_buf (fu_buf f) buf (sy_stack y)"
  have b: "sh_bufs (sy_stack y) ?b = None" using st by (simp add: suspends_def)
  have l: "lent_sys D q tx rx ?b buf y" using b by (intro spared_lent[OF C fresh_spared[OF inv]]) simp_all
  then have s: "untouched (d_cb D) q tx rx ?b buf ?s"
    by (simp add: lent_sys_def untouched_def share_buf_def arc_new_def arc_clone_def sb_new_def)
  obtain s' where s': "op_start D p buf ?b (fu_tx f) (sy_stack y) = Inr (True, s')"
    "y' = y\<lparr>sy_stack := s', sy_futures := f # sy_futures y, sy_issued := insert (fu_tx f) (sy_issued y)\<rparr>"
    using st by (auto simp: suspends_def)
  have "spares ?b (op_event p ?b (fu_tx f))" using out by (cases p) simp_all
  from lent.send_I[OF s this] s'(1) have "untouched (d_cb D) q tx rx ?b buf s'"
    by (auto simp: op_start_eq[OF C b] split: prod.split_asm send_result.split_asm)
  with l s'(2) show ?thesis by (simp add: lent_sys_def)
qed

section \<open>Resuming\<close>

lemma finish_with_value:
  assumes "sh_bufs s b = Some c" "arc_strong c = 1" "cast = cast_dyn_io_buf"
  shows "resumed result (finish_with cast msg b r s) =
    Inr (result (case r of None \<Rightarrow> Inl (Error_new BrokenPipe msg) | Some x \<Rightarrow> x), sb_inner (arc_data c),
      s\<lparr>sh_bufs := (sh_bufs s)(b := None)\<rparr>)"
  using assms
  by (cases r) (simp_all add: resumed_def finish_with_def cast_dyn_io_buf_def arc_into_inner_def sb_into_inner_def)

lemma op_finish_value:
  assumes "sh_bufs s b = Some c" "arc_strong c = 1" "op_finish p b r s = Some x"
  shows "\<exists>res. gives r res \<and> x = Inr (res, sb_inner (arc_data c), s\<lparr>sh_bufs := (sh_bufs s)(b := None)\<rparr>)"
  using assms(3)
  by (cases "(p, b, r, s)" rule: op_finish.cases)
    (auto simp: finish_defs cast_mut finish_with_value[OF assms(1,2) refl])

text \<open>A resolved operation whose cell is spared returns the content of that cell.\<close>

lemma lent_resume:
  assumes laws: "deps_laws D q tx rx" "iface_laws B (d_udp D) (d_set D) (d_iface D)" and y: "sys_reach D y"
    and f: "f \<in> set (sy_futures y)" and l: "lent_sys D q tx rx (fu_buf f) v y"
    and r: "received (sh_trace (sy_stack y)) (fu_tx f) r"
  shows "\<exists>res s'. op_finish (fu_op f) (fu_buf f) r (sy_stack y) = Some (Inr (res, v, s')) \<and> gives r res"
proof -
  obtain res buf s' where o: "op_finish (fu_op f) (fu_buf f) r (sy_stack y) = Some (Inr (res, buf, s'))"
    using resume_returns[OF laws y f r] by blast
  then have "strong_count (sh_bufs (sy_stack y)) (fu_buf f) = 1" using op_finish_cast[OF o] by blast
  then obtain c where c: "sh_bufs (sy_stack y) (fu_buf f) = Some c" "arc_strong c = 1"
    by (auto simp: strong_count_def split: option.split_asm)
  with o op_finish_value[OF c o] l show ?thesis by (auto simp: lent_sys_def untouched_def)
qed

text \<open>A channel receives one thing only.\<close>

lemma resolved_split:
  "a \<in> set tr \<Longrightarrow> a' \<in> set tr \<Longrightarrow> resolves t a \<Longrightarrow> resolves t a' \<Longrightarrow> resolved tr t \<le> 1 \<Longrightarrow> a = a'"
proof (induction tr)
  case (Cons x tr)
  have "0 < resolved tr t" if "a \<in> set tr" "resolves t a" for a
    using that by (auto simp: resolved_def filter_empty_conv)
  with Cons show ?case by (auto split: if_split_asm)
qed simp

lemma received_unique:
  assumes "sys_inv D q y" "received (sh_trace (sy_stack y)) t r" "received (sh_trace (sy_stack y)) t r'"
  shows "r = r'"
proof -
  have "resolved (sh_trace (sy_stack y)) t \<le> 1"
    using sys_invD(6)[OF assms(1)] unfolding channels_ok_def by (metis add_leD2 le_refl zero_le_one)
  with assms(2,3) show ?thesis
    using resolved_split[of "case r of None \<Rightarrow> Hung_up t | Some a \<Rightarrow> Replied t a" "sh_trace (sy_stack y)"
      "case r' of None \<Rightarrow> Hung_up t | Some a \<Rightarrow> Replied t a" t]
    by (auto simp: received_def split: option.split_asm)
qed

lemma resolved_spared:
  assumes inv: "sys_inv D q y" and f: "f \<in> set (sy_futures y)" and r: "received (sh_trace (sy_stack y)) (fu_tx f) r"
  shows "buf_count (in_flight q y) (fu_buf f) = 0"
proof -
  have "0 < resolved (sh_trace (sy_stack y)) (fu_tx f)"
    using r by (intro resolved_pos) (auto simp: received_def split: option.split_asm)
  from resolved_last_ref[OF inv f this] sys_invD(2)[OF inv, unfolded owned_def, rule_format, of "fu_buf f"]
  have "buf_count (in_flight q y) (fu_buf f) + fut_refs (sy_futures y) (fu_buf f) = 1" by (simp add: in_flight_def)
  moreover have "0 < fut_refs (sy_futures y) (fu_buf f)" using f by (auto simp: fut_refs_def filter_empty_conv)
  ultimately show ?thesis by linarith
qed

section \<open>What a channel received stays received\<close>

definition logged ::
  "('c, operation_event) crossbeam \<Rightarrow> ('c \<Rightarrow> operation_event list) \<Rightarrow> ('c \<Rightarrow> bool) \<Rightarrow> ('c \<Rightarrow> bool) \<Rightarrow> action
   \<Rightarrow> ('c, 'e, 'b, 'z) shared_scheme \<Rightarrow> bool" where
  "logged C q tx rx a s \<longleftrightarrow> crossbeam_laws C q tx rx \<and> a \<in> set (sh_trace s)"

interpretation log: stack_effects D "logged (d_cb D) q tx rx a" "\<lambda>_ _. True" "\<lambda>_. True"
proof
  fix s ev r s'
  assume "logged (d_cb D) q tx rx a s" "send_event D ev s = (r, s')"
  then show "logged (d_cb D) q tx rx a s' \<and> (r = Sent \<or> r = SendError ev)"
    using crossbeam_send_errD[of "d_cb D" q tx rx]
    by (auto simp: logged_def send_event_def notify_send_def split: sum.split_asm)
qed (auto simp: logged_def)

lemma logged_run:
  assumes C: "crossbeam_laws (d_cb D) q tx rx" and run: "(sys_step D)\<^sup>*\<^sup>* y y'" and a: "a \<in> set (sh_trace (sy_stack y))"
  shows "a \<in> set (sh_trace (sy_stack y'))"
  using run
proof (induction rule: rtranclp_induct)
  case (step y1 y2)
  then have s: "logged (d_cb D) q tx rx a (sy_stack y1)" using C by (simp add: logged_def)
  have "logged (d_cb D) q tx rx a (sy_stack y2)"
    by (rule log.sys_step_I[OF C _ _ _ _ _ _ step.hyps(2) s]) (use s in \<open>auto simp: logged_def\<close>)
  then show ?case by (simp add: logged_def)
qed (rule a)

lemma received_run:
  assumes "crossbeam_laws (d_cb D) q tx rx" "(sys_step D)\<^sup>*\<^sup>* y y'" "received (sh_trace (sy_stack y)) t r"
  shows "received (sh_trace (sy_stack y')) t r"
  using logged_run[OF assms(1,2)] assms(3) by (auto simp: received_def split: option.split)

end
