(* ===== verification/Contracts.thy ===== *)
theory Contracts
  imports Lending
begin

text \<open>
  The contract of an operation of \<^verbatim>\<open>TcpStream\<close> or \<^verbatim>\<open>UdpSocket\<close> in the composed system. However long the
  operation is suspended and whatever the rest of the program does meanwhile, what it returns was made by one call
  of smoltcp on its own buffer: the answer and the buffer fit together in the sense of \<open>fulfils\<close>. The same
  holds of each call of the loops \<^verbatim>\<open>write_all\<close> and \<^verbatim>\<open>read_exact\<close>, which here run as loops of a user of the system.
\<close>

section \<open>One operation under way\<close>

text \<open>The requests and closures of one operation, and those that have nothing to do with it.\<close>

definition apart :: "buf_id \<Rightarrow> tx_id \<Rightarrow> request multiset \<Rightarrow> bool" where
  "apart b t M \<longleftrightarrow> (\<forall>r. r \<in># M \<longrightarrow> fst r \<noteq> t \<and> snd r \<noteq> Some b)"

lemma apart_simps [simp]:
  "apart b t {#}" "apart b t (add_mset r M) \<longleftrightarrow> fst r \<noteq> t \<and> snd r \<noteq> Some b \<and> apart b t M"
  "apart b t (M + N) \<longleftrightarrow> apart b t M \<and> apart b t N"
  by (fastforce simp: apart_def simp del: split_paired_All)+

definition own_ev :: "op \<Rightarrow> buf_id \<Rightarrow> tx_id \<Rightarrow> operation_event \<Rightarrow> bool" where
  "own_ev p b t ev \<longleftrightarrow> ev = op_event p b t \<or> apart b t (ev_reqs ev)"

definition own_wk :: "op \<Rightarrow> buf_id \<Rightarrow> tx_id \<Rightarrow> waker_fn \<Rightarrow> bool" where
  "own_wk p b t f \<longleftrightarrow> f = waker_of (op_event p b t) \<or> apart b t (waker_reqs f)"

text \<open>
  The content of the operation's buffer against the log: nothing has happened that changes the content, or the operation was
  answered accordingly. A second answer, which the system excludes, lifts the obligation.
\<close>

definition settled ::
  "('c, 'e, 'l, 'b, 'tcp, 'udp, 'ss, 'if, 'cap, 'ck) stack_deps \<Rightarrow> operation_event \<Rightarrow> tx_id \<Rightarrow> 'b \<Rightarrow> action list \<Rightarrow> 'b \<Rightarrow> bool" where
  "settled D ev t v tr v' \<longleftrightarrow>
     v' = v \<and> (\<forall>r. Replied t r \<in> set tr \<longrightarrow> fulfils D ev v r v) \<or>
     (\<exists>r. Replied t r \<in> set tr \<and> fulfils D ev v r v') \<or> 2 \<le> resolved tr t"

lemma settled_snoc: "settled D ev t v tr v' \<Longrightarrow> \<forall>r. a \<noteq> Replied t r \<Longrightarrow> settled D ev t v (tr @ [a]) v'"
  by (auto simp: settled_def)

lemma settled_reply:
  assumes "settled D ev t v tr w" "fulfils D ev w r w'"
  shows "settled D ev t v (tr @ [Replied t r]) w'"
proof -
  have "1 \<le> resolved tr t" if "Replied t r' \<in> set tr" for r'
    using that resolves.simps(1)[of t t r'] unfolding resolved_def Suc_le_eq length_greater_0_conv filter_empty_conv One_nat_def by blast
  with assms show ?thesis by (auto simp: settled_def)
qed

definition contract_inv ::
  "('c, 'e, 'l, 'b, 'tcp, 'udp, 'ss, 'if, 'cap, 'ck) stack_deps \<Rightarrow> ('c \<Rightarrow> operation_event list) \<Rightarrow> ('c \<Rightarrow> bool) \<Rightarrow> ('c \<Rightarrow> bool)
   \<Rightarrow> op \<Rightarrow> buf_id \<Rightarrow> tx_id \<Rightarrow> 'b \<Rightarrow> ('c, 'e, 'b, 'ss, 'if, 'cap) tcp_stack \<Rightarrow> bool" where
  "contract_inv D q tx rx p b t v s \<longleftrightarrow> crossbeam_laws (d_cb D) q tx rx \<and>
     (\<forall>ev\<in>set (q (nc_chan (sh_ch s))). own_ev p b t ev) \<and>
     (\<forall>a. Some a \<in> set (sh_wakers s) \<longrightarrow> \<not> ao_used a \<longrightarrow> own_wk p b t (ao_value a)) \<and>
     (\<forall>c. sh_bufs s b = Some c \<longrightarrow> settled D (op_event p b t) t v (sh_trace s) (sb_inner (arc_data c)))"

lemma own_request:
  assumes "own_ev p b t ev" "ev_reqs ev = {#(t', Some b')#}"
  shows "ev = op_event p b t \<and> t' = t \<and> b' = b \<or> t' \<noteq> t \<and> b' \<noteq> b"
  using assms by (auto simp: own_ev_def)

text \<open>The step that answers a request, whether the buffer was filled before or not.\<close>

lemma contract_answer:
  assumes s: "contract_inv D q tx rx p b t v s" and ev: "own_ev p b t ev" "ev_reqs ev = {#(t', Some b')#}"
    and s1: "sh_ch s1 = sh_ch s" "sh_wakers s1 = sh_wakers s" "sh_trace s1 = sh_trace s"
    and b: "\<forall>c. b \<noteq> b' \<longrightarrow> sh_bufs s1 b = Some c \<longrightarrow> (\<exists>c0. sh_bufs s b = Some c0 \<and> sb_inner (arc_data c) = sb_inner (arc_data c0))"
    and b': "\<forall>c. sh_bufs s1 b' = Some c \<longrightarrow> (\<exists>c0. sh_bufs s b' = Some c0 \<and> fulfils D ev (sb_inner (arc_data c0)) r (sb_inner (arc_data c)))"
  shows "contract_inv D q tx rx p b t v (answer b' t' r s1)"
proof -
  let ?s' = "answer b' t' r s1"
  have "settled D (op_event p b t) t v (sh_trace ?s') (sb_inner (arc_data c))" if c: "sh_bufs ?s' b = Some c" for c
  proof -
    from c obtain c1 where c1: "sh_bufs s1 b = Some c1" "sb_inner (arc_data c) = sb_inner (arc_data c1)"
      by (auto simp: answer_def send_reply_def drop_buf_def arc_drop_def split: option.split_asm if_split_asm)
    have tr: "sh_trace ?s' = (sh_trace s @ [Dropped_buf b']) @ [Replied t' r]"
      using s1(3) by (simp add: answer_def send_reply_def drop_buf_def)
    have old: "settled D (op_event p b t) t v (sh_trace s @ [Dropped_buf b']) (sb_inner (arc_data c0))" if "sh_bufs s b = Some c0" for c0
      using s that by (intro settled_snoc) (auto simp: contract_inv_def)
    from own_request[OF ev] show ?thesis
    proof (elim disjE conjE)
      assume eq: "ev = op_event p b t" "t' = t" "b' = b"
      then obtain c0 where "sh_bufs s b = Some c0" "fulfils D ev (sb_inner (arc_data c0)) r (sb_inner (arc_data c1))"
        using b' c1(1) by blast
      with settled_reply[OF old, of c0 r] eq c1(2) show ?thesis unfolding tr by simp
    next
      assume ne: "t' \<noteq> t" "b' \<noteq> b"
      then obtain c0 where "sh_bufs s b = Some c0" "sb_inner (arc_data c1) = sb_inner (arc_data c0)"
        using b c1(1) by blast
      with settled_snoc[OF old, of c0 "Replied t' r"] ne(1) c1(2) show ?thesis unfolding tr by simp
    qed
  qed
  with s s1 show ?thesis by (simp add: contract_inv_def answer_def send_reply_def drop_buf_def)
qed

lemma own_wakers:
  "own_wk p b0 t0 (Wake_read h b t) \<longleftrightarrow> own_ev p b0 t0 (Read h b t)" "own_wk p b0 t0 (Wake_write h b t) \<longleftrightarrow> own_ev p b0 t0 (Write h b t)"
  "own_wk p b0 t0 (Wake_recv h b t) \<longleftrightarrow> own_ev p b0 t0 (Recv h b t)" "own_wk p b0 t0 (Wake_send h a b t) \<longleftrightarrow> own_ev p b0 t0 (Send h a b t)"
  "own_ev p b0 t0 (Shutdown th t) \<longleftrightarrow> t \<noteq> t0" "own_wk p b0 t0 (Wake_shutdown t) \<longleftrightarrow> t \<noteq> t0"
  "own_wk p b0 t0 (Wake_ready h)" "own_wk p b0 t0 (Wake_close h)" "own_ev p b0 t0 (Ready th)" "own_ev p b0 t0 (Close th)"
  by (cases p; simp add: own_ev_def own_wk_def)+

interpretation contract: handler_effects D "contract_inv D q tx rx p b t v" "own_ev p b t" "own_wk p b t" "\<lambda>b'. b' \<noteq> b"
proof
  fix s s' :: "('a, 'b, 'd, 'g, 'h, 'i) tcp_stack"
  assume s: "contract_inv D q tx rx p b t v s"
    and "sh_ch s' = sh_ch s" "sh_wakers s' = sh_wakers s" "sh_trace s' = sh_trace s" "only_fills (\<lambda>_. False) (sh_bufs s) (sh_bufs s')"
  then show "contract_inv D q tx rx p b t v s'" by (fastforce simp: contract_inv_def only_fills_def)
next
  fix s b' x
  assume "contract_inv D q tx rx p b t v s" "b' \<noteq> b"
  then show "contract_inv D q tx rx p b t v (s\<lparr>sh_bufs := arc_clone b' (arc_new b' x (sh_bufs s))\<rparr>)"
    by (simp add: contract_inv_def arc_clone_def arc_new_def)
next
  fix s b'
  assume "contract_inv D q tx rx p b t v s"
  then show "contract_inv D q tx rx p b t v (s\<lparr>sh_trace := sh_trace s @ [Dropped_buf b']\<rparr>)"
    by (auto simp: contract_inv_def intro: settled_snoc)
next
  fix s t'
  assume "contract_inv D q tx rx p b t v s"
  then show "contract_inv D q tx rx p b t v (drop_tx t' s)" by (auto simp: contract_inv_def drop_tx_def intro: settled_snoc)
next
  fix s ev t' b' v' r
  assume "contract_inv D q tx rx p b t v s" "own_ev p b t ev" "ev_reqs ev = {#(t', Some b')#}"
    "\<forall>c. sh_bufs s b' = Some c \<longrightarrow> sb_inner (arc_data c) = v'" "fulfils D ev v' r v'"
  then show "contract_inv D q tx rx p b t v (answer b' t' r s)" by (intro contract_answer[of D q tx rx p b t v s ev]) auto
next
  fix s ev t' b' r and sb sb' :: "'d shared_buf"
  assume s: "contract_inv D q tx rx p b t v s" "own_ev p b t ev" "ev_reqs ev = {#(t', Some b')#}"
    "buf_value b' s = Inr sb" "fulfils D ev (sb_inner sb) r (sb_inner sb')"
  then show "contract_inv D q tx rx p b t v (answer b' t' r (set_buf b' sb' s))"
    by (intro contract_answer[OF s(1-3)])
      (auto simp: set_buf_def arc_update_def buf_value_def split: option.split_asm if_split_asm)
next
  fix s t' u
  assume "contract_inv D q tx rx p b t v s" "own_wk p b t (Wake_shutdown t')"
  then show "contract_inv D q tx rx p b t v (send_reply t' (Reply_unit u) s)"
    by (auto simp: contract_inv_def send_reply_def own_wakers intro: settled_snoc)
next
  fix s ev r s'
  assume "contract_inv D q tx rx p b t v s" "own_ev p b t ev" "send_event D ev s = (r, s')"
  then show "contract_inv D q tx rx p b t v s' \<and> (r = Sent \<or> r = SendError ev)"
    using crossbeam_sendD[of "d_cb D" q tx rx] crossbeam_send_errD[of "d_cb D" q tx rx]
    by (auto simp: contract_inv_def send_event_def notify_send_def split: sum.split_asm)
next
  fix s w c
  assume "contract_inv D q tx rx p b t v s" "w < length (sh_wakers s)" "spent c"
  then show "contract_inv D q tx rx p b t v (s\<lparr>sh_wakers := (sh_wakers s)[w := c]\<rparr>)"
    by (auto simp: contract_inv_def dest!: set_update_subset_insert[THEN subsetD])
qed (auto simp: contract_inv_def wake_once_fn_def own_wakers dest: nth_mem)

section \<open>Steps and runs\<close>

definition contract_sys ::
  "('c, 'e, 'l, 'b, 'tcp, 'udp, 'ss, 'if, 'cap, 'ck) stack_deps \<Rightarrow> ('c \<Rightarrow> operation_event list) \<Rightarrow> ('c \<Rightarrow> bool)
   \<Rightarrow> ('c \<Rightarrow> bool) \<Rightarrow> op \<Rightarrow> buf_id \<Rightarrow> tx_id \<Rightarrow> 'b \<Rightarrow> ('c, 'e, 'l, 'b, 'ss, 'if, 'cap) sys \<Rightarrow> bool" where
  "contract_sys D q tx rx p b t v y \<longleftrightarrow> contract_inv D q tx rx p b t v (sy_stack y) \<and>
     (\<forall>ev\<in>set (handed (sy_batches y)). own_ev p b t ev)"

lemma contract_step:
  assumes C: "crossbeam_laws (d_cb D) q tx rx" and step: "sys_step D y y'"
    and b: "sh_bufs (sy_stack y) b \<noteq> None" and t: "t \<in> sy_issued y" and c: "contract_sys D q tx rx p b t v y"
  shows "contract_sys D q tx rx p b t v y'"
proof -
  have s: "contract_inv D q tx rx p b t v (sy_stack y)" and evs: "\<forall>ev\<in>set (handed (sy_batches y)). own_ev p b t ev"
    using c by (simp_all add: contract_sys_def)
  have "contract_inv D q tx rx p b t v (sy_stack y')"
  proof (rule contract.sys_step_I[OF C _ _ _ evs _ _ step s])
    fix r pc ch
    assume "generate_poll (d_cb D) (d_ev D) (sy_generator y, sh_ch (sy_stack y)) = Some (r, pc, ch)"
      "r = Pending \<or> (\<exists>evs. r = Poll_ready (Inr evs))"
    with s show "contract_inv D q tx rx p b t v ((sy_stack y)\<lparr>sh_ch := ch\<rparr>)"
      by (auto simp: contract_inv_def dest: generate_pending_chan generate_ready_chan[OF C])
  next
    fix p' b' t'
    assume "sh_bufs (sy_stack y) b' = None" "t' \<notin> sy_issued y"
    with b t show "own_ev p b t (op_event p' b' t')" by (auto simp: own_ev_def)
  next
    fix th t'
    assume "t' \<notin> sy_issued y"
    with t show "own_ev p b t (Shutdown th t')" by (auto simp: own_wakers)
  qed (use b s crossbeam_drop[OF C, of "nc_chan (sh_ch (sy_stack y))"] in \<open>auto simp: contract_inv_def\<close>)
  moreover have "\<forall>ev\<in>set (handed (sy_batches y')). own_ev p b t ev"
    by (rule batches_step[OF C step _ evs]) (use s in \<open>simp add: contract_inv_def\<close>)
  ultimately show ?thesis by (simp add: contract_sys_def)
qed

lemma contract_run:
  assumes laws: "deps_laws D q tx rx" "iface_laws B (d_udp D) (d_set D) (d_iface D)"
    and run: "(sys_step D)\<^sup>*\<^sup>* y y'" and y: "sys_reach D y" "f \<in> set (sy_futures y)"
      "contract_sys D q tx rx p (fu_buf f) (fu_tx f) v y"
  shows "sys_reach D y' \<and> (f \<in> set (sy_futures y') \<longrightarrow> contract_sys D q tx rx p (fu_buf f) (fu_tx f) v y')"
  using future_run[where J = "contract_sys D q tx rx p (fu_buf f) (fu_tx f) v", OF laws run y]
    contract_step[OF deps_lawsD(1)[OF laws(1)] _ future_live]
  by blast

section \<open>The start of an operation\<close>

lemma apart_counts: "tx_count M t = 0 \<Longrightarrow> buf_count M b = 0 \<Longrightarrow> apart b t M"
  by (auto simp: apart_def tx_count_def buf_count_def filter_mset_eq_conv)

lemma fresh_apart:
  assumes inv: "sys_inv D q y" and b: "sh_bufs (sy_stack y) b = None" and t: "t \<notin> sy_issued y"
  shows "apart b t (in_flight q y)" "resolved (sh_trace (sy_stack y)) t = 0"
proof -
  have 0: "tx_count (in_flight q y) t + resolved (sh_trace (sy_stack y)) t = 0"
    using inv t by (simp add: sys_inv_def channels_ok_def)
  then show "resolved (sh_trace (sy_stack y)) t = 0" by simp
  show "apart b t (in_flight q y)" using 0 by (intro apart_counts fresh_spared[OF inv b]) simp
qed

lemma apart_sum: "apart b t (sum_list Ms) \<Longrightarrow> M \<in> set Ms \<Longrightarrow> apart b t M"
  by (induction Ms) auto

lemma fresh_contract:
  assumes C: "crossbeam_laws (d_cb D) q tx rx" and inv: "sys_inv D q y"
    and b: "sh_bufs (sy_stack y) b = None" and t: "t \<notin> sy_issued y"
  shows "contract_sys D q tx rx p b t v y"
proof -
  note f = fresh_apart[OF inv b t]
  have 1: "apart b t (sum_list (map ev_reqs (q (nc_chan (sh_ch (sy_stack y))))))"
    "apart b t (sum_list (map cell_reqs (sh_wakers (sy_stack y))))" "apart b t (sum_list (map ev_reqs (handed (sy_batches y))))"
    using f(1) by (simp_all add: in_flight_def held_def events_reqs_def)
  have "apart b t (waker_reqs (ao_value a))" if "Some a \<in> set (sh_wakers (sy_stack y))" "\<not> ao_used a" for a
    using apart_sum[OF 1(2), of "cell_reqs (Some a)"] that by (simp del: cell_reqs_simps) (force simp: cell_reqs_simps)
  with apart_sum[OF 1(1)] apart_sum[OF 1(3)] C b show ?thesis
    by (auto simp: contract_sys_def contract_inv_def own_ev_def own_wk_def)
qed

lemma suspends_contract:
  assumes C: "crossbeam_laws (d_cb D) q tx rx" and inv: "sys_inv D q y" and st: "suspends D p buf f y y'"
  shows "contract_sys D q tx rx p (fu_buf f) (fu_tx f) buf y'"
proof -
  let ?b = "fu_buf f" and ?t = "fu_tx f" and ?s = "share_buf (fu_buf f) buf (sy_stack y)"
  have b: "sh_bufs (sy_stack y) ?b = None" and t: "?t \<notin> sy_issued y" using st by (simp_all add: suspends_def)
  have "\<forall>r. Replied ?t r \<notin> set (sh_trace (sy_stack y))"
    using fresh_apart(2)[OF inv b t] by (auto simp: resolved_def filter_empty_conv)
  with fresh_contract[OF C inv b t, of p buf] have s: "contract_inv D q tx rx p ?b ?t buf ?s"
    by (auto simp: contract_sys_def contract_inv_def share_buf_def arc_new_def arc_clone_def sb_new_def settled_def)
  obtain s' where s': "op_start D p buf ?b ?t (sy_stack y) = Inr (True, s')"
    "y' = y\<lparr>sy_stack := s', sy_futures := f # sy_futures y, sy_issued := insert ?t (sy_issued y)\<rparr>"
    using st by (auto simp: suspends_def)
  have "own_ev p ?b ?t (op_event p ?b ?t)" by (simp add: own_ev_def)
  from contract.send_I[OF s this] s'(1) have "contract_inv D q tx rx p ?b ?t buf s'"
    by (auto simp: op_start_eq[OF C b] split: prod.split_asm send_result.split_asm)
  with fresh_contract[OF C inv b t, of p buf] s'(2) show ?thesis by (simp add: contract_sys_def)
qed

section \<open>The end of an operation\<close>

text \<open>What the operation receives and the buffer it takes back fit together.\<close>

definition keeps_contract ::
  "('c, 'e, 'l, 'b, 'tcp, 'udp, 'ss, 'if, 'cap, 'ck) stack_deps \<Rightarrow> op \<Rightarrow> 'b \<Rightarrow> reply option \<Rightarrow> 'b \<Rightarrow> bool" where
  "keeps_contract D p v r v' \<longleftrightarrow> (case r of None \<Rightarrow> v' = v | Some a \<Rightarrow> fulfils D (op_event p 0 0) v a v')"

lemma fulfils_names: "fulfils D (op_event p b t) v r v' \<longleftrightarrow> fulfils D (op_event p 0 0) v r v'"
  by (cases p; cases r) simp_all

lemma contract_resume:
  assumes laws: "deps_laws D q tx rx" "iface_laws B (d_udp D) (d_set D) (d_iface D)" and y: "sys_reach D y"
    and f: "f \<in> set (sy_futures y)" and c: "contract_sys D q tx rx (fu_op f) (fu_buf f) (fu_tx f) v y"
    and r: "received (sh_trace (sy_stack y)) (fu_tx f) r"
  shows "\<exists>res v' s'. op_finish (fu_op f) (fu_buf f) r (sy_stack y) = Some (Inr (res, v', s')) \<and> gives r res \<and>
    keeps_contract D (fu_op f) v r v'"
proof -
  let ?tr = "sh_trace (sy_stack y)"
  have inv: "sys_inv D q y" by (rule sys_reach_inv[OF laws y])
  obtain res v' s' where o: "op_finish (fu_op f) (fu_buf f) r (sy_stack y) = Some (Inr (res, v', s'))"
    using resume_returns[OF laws y f r] by blast
  then have "strong_count (sh_bufs (sy_stack y)) (fu_buf f) = 1" using op_finish_cast[OF o] by blast
  then obtain cell where cell: "sh_bufs (sy_stack y) (fu_buf f) = Some cell" "arc_strong cell = 1"
    by (auto simp: strong_count_def split: option.split_asm)
  then have "settled D (op_event (fu_op f) (fu_buf f) (fu_tx f)) (fu_tx f) v ?tr v'"
    using c op_finish_value[OF cell o] by (auto simp: contract_sys_def contract_inv_def)
  moreover have "\<not> 2 \<le> resolved ?tr (fu_tx f)"
    using sys_invD(6)[OF inv, unfolded channels_ok_def, rule_format, of "fu_tx f"] by (simp split: if_split_asm)
  moreover have only: "r = Some a" if "Replied (fu_tx f) a \<in> set ?tr" for a
    using received_unique[OF inv r, of "Some a"] that by (simp add: received_def)
  ultimately consider "v' = v" "\<forall>a. Replied (fu_tx f) a \<in> set ?tr \<longrightarrow> fulfils D (op_event (fu_op f) 0 0) v a v"
    | a where "r = Some a" "fulfils D (op_event (fu_op f) 0 0) v a v'"
    unfolding settled_def fulfils_names[of D "fu_op f" "fu_buf f" "fu_tx f"] by blast
  then have "keeps_contract D (fu_op f) v r v'"
    using r by cases (auto simp: keeps_contract_def received_def simp del: fulfils.simps split: option.split)
  with o op_finish_gives[OF o] show ?thesis by blast
qed

text \<open>From the start of an operation to its end.\<close>

lemma contract_kept:
  assumes laws: "deps_laws D q tx rx" "iface_laws B (d_udp D) (d_set D) (d_iface D)" and y: "sys_reach D y"
    and st: "suspends D p buf f y y1" and run: "(sys_step D)\<^sup>*\<^sup>* y1 y2"
    and f: "f \<in> set (sy_futures y2)" and r: "received (sh_trace (sy_stack y2)) (fu_tx f) r"
  shows "sys_reach D y2 \<and> (\<exists>res buf' s'. op_finish p (fu_buf f) r (sy_stack y2) = Some (Inr (res, buf', s')) \<and> gives r res \<and>
    keeps_contract D p buf r buf')"
proof -
  have s: "sys_step D y y1" "f \<in> set (sy_futures y1)" "fu_op f = p"
    using suspends_step[OF st] st by (simp_all add: suspends_def)
  from contract_run[OF laws run sys_next[OF y s(1)] s(2) suspends_contract[OF deps_lawsD(1)[OF laws(1)] sys_reach_inv[OF laws y] st]]
  show ?thesis using contract_resume[OF laws _ f _ r] f s(3) by blast
qed

end
