(* ===== verification/Whole_Buffers.thy ===== *)
theory Whole_Buffers
  imports Contracts
begin

text \<open>
  \<^verbatim>\<open>write_all\<close> and \<^verbatim>\<open>read_exact\<close> of \<^verbatim>\<open>src/tcp_stack/tcp.rs\<close> inside the composed system. In \<open>Streams\<close> the loops are functions
  of an awaited call that is a parameter. Here an awaited call is a run of the system: the start of the operation,
  any steps of anybody while it is suspended, and its end. The loops are big-step runs made of such calls, and they
  are the functions of \<open>Streams\<close> applied to what the calls returned.
\<close>

section \<open>Awaited calls\<close>

inductive awaited ::
  "('c, 'e, 'l, 'b, 'tcp, 'udp, 'ss, 'if, 'cap, 'ck) stack_deps \<Rightarrow> op
   \<Rightarrow> ('b \<Rightarrow> buf_id \<Rightarrow> tx_id \<Rightarrow> ('c, 'e, 'b, 'ss, 'if, 'cap) tcp_stack
       \<Rightarrow> ((nat io_result, 'b) async \<times> ('c, 'e, 'b, 'ss, 'if, 'cap) tcp_stack) outcome)
   \<Rightarrow> (buf_id \<Rightarrow> nat io_result received \<Rightarrow> ('c, 'e, 'b, 'ss, 'if, 'cap) tcp_stack
       \<Rightarrow> (nat io_result \<times> 'b \<times> ('c, 'e, 'b, 'ss, 'if, 'cap) tcp_stack) outcome)
   \<Rightarrow> 'b \<Rightarrow> ('c, 'e, 'l, 'b, 'ss, 'if, 'cap) sys \<Rightarrow> nat io_result \<Rightarrow> 'b \<Rightarrow> ('c, 'e, 'l, 'b, 'ss, 'if, 'cap) sys \<Rightarrow> bool"
  for D p start finish where
  at_once: "\<lbrakk>op_known p (sy_tcp y) (sy_udp y); sh_bufs (sy_stack y) b = None; t \<notin> sy_issued y;
     start buf b t (sy_stack y) = Inr (Done res buf', s')\<rbrakk>
   \<Longrightarrow> awaited D p start finish buf y res buf' (y\<lparr>sy_stack := s', sy_issued := insert t (sy_issued y)\<rparr>)"
| later: "\<lbrakk>op_known p (sy_tcp y) (sy_udp y); sh_bufs (sy_stack y) b = None; t \<notin> sy_issued y;
     start buf b t (sy_stack y) = Inr (Waiting b t, s1); f = \<lparr>fu_op = p, fu_buf = b, fu_tx = t\<rparr>;
     (sys_step D)\<^sup>*\<^sup>* (y\<lparr>sy_stack := s1, sy_futures := f # sy_futures y, sy_issued := insert t (sy_issued y)\<rparr>) y2;
     sy_futures y2 = fs @ f # fs'; received (sh_trace (sy_stack y2)) t (map_option Reply_usize r);
     finish b r (sy_stack y2) = Inr (res, buf', s')\<rbrakk>
   \<Longrightarrow> awaited D p start finish buf y res buf' (y2\<lparr>sy_stack := s', sy_futures := fs @ fs'\<rparr>)"

text \<open>The operations that return a count: their two halves are those of the composed system.\<close>

locale usize_call =
  fixes D :: "('c, 'e, 'l, 'b, 'tcp, 'udp, 'ss, 'if, 'cap, 'ck) stack_deps" and p :: op
    and start :: "'b \<Rightarrow> buf_id \<Rightarrow> tx_id \<Rightarrow> ('c, 'e, 'b, 'ss, 'if, 'cap) tcp_stack
      \<Rightarrow> ((nat io_result, 'b) async \<times> ('c, 'e, 'b, 'ss, 'if, 'cap) tcp_stack) outcome"
    and finish :: "buf_id \<Rightarrow> nat io_result received \<Rightarrow> ('c, 'e, 'b, 'ss, 'if, 'cap) tcp_stack
      \<Rightarrow> (nat io_result \<times> 'b \<times> ('c, 'e, 'b, 'ss, 'if, 'cap) tcp_stack) outcome"
  assumes start_op: "op_start D p buf b t s = waiting (start buf b t s)"
    and finish_op: "op_finish p b (map_option Reply_usize r) s = Some (resumed Got_usize (finish b r s))"
    and refused: "\<lbrakk>crossbeam_laws (d_cb D) q tx rx; sh_bufs s b = None; start buf b t s = Inr (Done res buf', s')\<rbrakk>
      \<Longrightarrow> isl res \<and> buf' = buf"
    and result: "finish b r s = Inr (res, buf', s') \<Longrightarrow> (case r of None \<Rightarrow> isl res | Some x \<Rightarrow> res = x)"
begin

lemma awaited_contract:
  assumes laws: "deps_laws D q tx rx" "iface_laws B (d_udp D) (d_set D) (d_iface D)" and y: "sys_reach D y"
    and call: "awaited D p start finish buf y res buf' y'"
  shows "sys_reach D y' \<and> (isl res \<and> buf' = buf \<or> fulfils D (op_event p 0 0) buf (Reply_usize res) buf')"
  using call
proof cases
  case (at_once b t s')
  have "op_start D p buf b t (sy_stack y) = Inr (False, s')" using at_once(5) by (simp add: start_op waiting_def)
  from sys_next[OF y user[OF start[OF at_once(2-4) this]]] have "sys_reach D y'" by (simp add: at_once(1))
  with refused[OF deps_lawsD(1)[OF laws(1)] at_once(3,5)] show ?thesis by blast
next
  case (later b t s1 f y2 fs fs' r s')
  let ?y1 = "y\<lparr>sy_stack := s1, sy_futures := f # sy_futures y, sy_issued := insert t (sy_issued y)\<rparr>"
  have st: "suspends D p buf f y ?y1" using later(2-6) by (simp add: suspends_def start_op waiting_def)
  have f: "f \<in> set (sy_futures y2)" "fu_buf f = b" "fu_tx f = t" "fu_op f = p" using later(6,8) by simp_all
  have o: "op_finish p b (map_option Reply_usize r) (sy_stack y2) = Some (Inr (Got_usize res, buf', s'))"
    using later(10) by (simp add: finish_op resumed_def)
  from contract_kept[OF laws y st later(7) f(1), unfolded f, OF later(9)] o
  have k: "sys_reach D y2" "keeps_contract D p buf (map_option Reply_usize r) buf'" by auto
  have "received (sh_trace (sy_stack y2)) (fu_tx f) (map_option Reply_usize r)" using later(9) f(3) by simp
  then have "user_step D y2 y'"
    using user_step.complete[OF later(8), where r = "map_option Reply_usize r" and D = D and res = "Got_usize res" and buf = buf' and s' = s'] o f later(1)
    by (cases r) (auto simp: received_def)
  with k(1) have "sys_reach D y'" by (blast intro: sys_next user)
  with k(2) result[OF later(10)] show ?thesis by (cases r) (auto simp: keeps_contract_def)
qed

end

lemma finish_with_result: "finish_with cast msg b r s = Inr (res, buf', s') \<Longrightarrow> (case r of None \<Rightarrow> isl res | Some x \<Rightarrow> res = x)"
  by (cases r) (auto simp: finish_with_def elim!: obind_InrE split: prod.split_asm)

interpretation writing: usize_call D "Op_write st" "write_start D st" write_finish
proof
  fix q tx rx s b buf t res buf' s'
  assume "crossbeam_laws (d_cb D) q tx rx" "sh_bufs s b = None" "write_start D st buf b t s = Inr (Done res buf', s')"
  then show "isl res \<and> buf' = buf"
    by (auto simp: write_start_def take_back_shared dest!: send_event_err split: prod.split_asm send_result.split_asm)
next
  fix b r s
  show "op_finish (Op_write st) b (map_option Reply_usize r) s = Some (resumed Got_usize (write_finish b r s))" by (cases r) simp_all
qed (simp_all add: write_finish_def finish_with_result)

interpretation reading: usize_call D "Op_read st" "read_start D st" read_finish
proof
  fix q tx rx s b buf t res buf' s'
  assume "crossbeam_laws (d_cb D) q tx rx" "sh_bufs s b = None" "read_start D st buf b t s = Inr (Done res buf', s')"
  then show "isl res \<and> buf' = buf"
    by (auto simp: read_start_def cast_mut take_back_shared dest!: send_event_err split: prod.split_asm send_result.split_asm)
next
  fix b r s
  show "op_finish (Op_read st) b (map_option Reply_usize r) s = Some (resumed Got_usize (read_finish b r s))" by (cases r) simp_all
qed (simp_all add: read_finish_def finish_with_result)

section \<open>The loops\<close>

text \<open>
  The loop that \<^verbatim>\<open>write_all\<close> and \<^verbatim>\<open>read_exact\<close> share: \<open>k\<close> bytes are done, \<open>len\<close> are wanted. \<open>cs\<close> lists what the awaited calls
  returned, \<open>e0\<close> is the error for a call that did nothing.
\<close>

inductive whole ::
  "('c, 'e, 'l, 'b, 'tcp, 'udp, 'ss, 'if, 'cap, 'ck) stack_deps \<Rightarrow> op
   \<Rightarrow> ('b \<Rightarrow> buf_id \<Rightarrow> tx_id \<Rightarrow> ('c, 'e, 'b, 'ss, 'if, 'cap) tcp_stack
       \<Rightarrow> ((nat io_result, 'b) async \<times> ('c, 'e, 'b, 'ss, 'if, 'cap) tcp_stack) outcome)
   \<Rightarrow> (buf_id \<Rightarrow> nat io_result received \<Rightarrow> ('c, 'e, 'b, 'ss, 'if, 'cap) tcp_stack
       \<Rightarrow> (nat io_result \<times> 'b \<times> ('c, 'e, 'b, 'ss, 'if, 'cap) tcp_stack) outcome)
   \<Rightarrow> ('w, 'b) slice_crate \<Rightarrow> io_error \<Rightarrow> nat \<Rightarrow> nat \<Rightarrow> 'w \<Rightarrow> ('c, 'e, 'l, 'b, 'ss, 'if, 'cap) sys
   \<Rightarrow> (nat io_result \<times> 'b) list \<Rightarrow> unit io_result \<Rightarrow> 'w \<Rightarrow> ('c, 'e, 'l, 'b, 'ss, 'if, 'cap) sys \<Rightarrow> bool"
  for D p start finish S e0 where
  all_done: "len \<le> k \<Longrightarrow> whole D p start finish S e0 k len buf y [] (Inr ()) buf y"
| failed: "\<lbrakk>k < len; awaited D p start finish (sl_slice S buf k) y (Inl e) sl y'\<rbrakk>
   \<Longrightarrow> whole D p start finish S e0 k len buf y [(Inl e, sl)] (Inl e) (sl_into_inner S sl) y'"
| stalled: "\<lbrakk>k < len; awaited D p start finish (sl_slice S buf k) y (Inr 0) sl y'\<rbrakk>
   \<Longrightarrow> whole D p start finish S e0 k len buf y [(Inr 0, sl)] (Inl e0) (sl_into_inner S sl) y'"
| onward: "\<lbrakk>k < len; awaited D p start finish (sl_slice S buf k) y (Inr n) sl y1; n \<noteq> 0;
     whole D p start finish S e0 (k + n) len (sl_into_inner S sl) y1 cs r buf' y'\<rbrakk>
   \<Longrightarrow> whole D p start finish S e0 k len buf y ((Inr n, sl) # cs) r buf' y'"

lemma whole_at_once:
  assumes "awaited D p start finish (sl_slice S buf 0) y (Inr n) sl y'" "0 < n" "buf' = sl_into_inner S sl"
  shows "whole D p start finish S e0 0 n buf y [(Inr n, sl)] (Inr ()) buf' y'"
  unfolding assms(3) by (rule onward[OF assms(2,1)]) (use assms(2) in \<open>simp_all add: all_done\<close>)

abbreviation write_all_run ::
  "('c, 'e, 'l, 'b, 'tcp, 'udp, 'ss, 'if, 'cap, 'ck) stack_deps \<Rightarrow> ('w, 'b) slice_crate \<Rightarrow> tcp_stream \<Rightarrow> nat \<Rightarrow> nat \<Rightarrow> 'w
   \<Rightarrow> ('c, 'e, 'l, 'b, 'ss, 'if, 'cap) sys \<Rightarrow> (nat io_result \<times> 'b) list \<Rightarrow> unit io_result \<Rightarrow> 'w
   \<Rightarrow> ('c, 'e, 'l, 'b, 'ss, 'if, 'cap) sys \<Rightarrow> bool" where
  "write_all_run D S st \<equiv> whole D (Op_write st) (write_start D st) write_finish S
     (Error_new WriteZero ''failed to write whole buffer'')"

abbreviation read_exact_run ::
  "('c, 'e, 'l, 'b, 'tcp, 'udp, 'ss, 'if, 'cap, 'ck) stack_deps \<Rightarrow> ('w, 'b) slice_crate \<Rightarrow> tcp_stream \<Rightarrow> nat \<Rightarrow> nat \<Rightarrow> 'w
   \<Rightarrow> ('c, 'e, 'l, 'b, 'ss, 'if, 'cap) sys \<Rightarrow> (nat io_result \<times> 'b) list \<Rightarrow> unit io_result \<Rightarrow> 'w
   \<Rightarrow> ('c, 'e, 'l, 'b, 'ss, 'if, 'cap) sys \<Rightarrow> bool" where
  "read_exact_run D S st \<equiv> whole D (Op_read st) (read_start D st) read_finish S
     (Error_new UnexpectedEof ''failed to fill whole buffer'')"

text \<open>An awaited call that returns the next entry of a list.\<close>

fun next_result :: "'sl \<Rightarrow> (nat io_result \<times> 'sl) list \<Rightarrow> (nat io_result \<times> 'sl) \<times> (nat io_result \<times> 'sl) list" where
  "next_result sl (c # cs) = (c, cs)"
| "next_result sl [] = ((Inl (Error_from Other), sl), [])"

lemma write_all_run_loop:
  "write_all_run D S st k len buf y cs r buf' y' \<Longrightarrow> write_all_loop S next_result k len buf cs = ((r, buf'), [])"
  by (induction rule: whole.induct) (simp_all add: write_all_loop.simps)

lemma read_exact_run_loop:
  "read_exact_run D S st k len buf y cs r buf' y' \<Longrightarrow> read_exact_loop S next_result k len buf cs = ((r, buf'), [])"
  by (induction rule: whole.induct) (simp_all add: read_exact_loop.simps)

section \<open>What the loops achieve\<close>

text \<open>
  Documented behaviour of smoltcp's sockets and of compio's slices: \<^verbatim>\<open>send_slice\<close> accepts at most what it is given; \<^verbatim>\<open>recv_slice\<close>
  writes the bytes it counts at the start of the memory it is given and leaves the rest as it is; a slice from
  \<open>k\<close> on has the bytes and the memory from \<open>k\<close> on, and writing to it writes to the buffer it was made of.
\<close>

definition transfer_laws :: "'tcp tcp_crate \<Rightarrow> bool" where
  "transfer_laws T \<longleftrightarrow>
     (\<forall>d sock n sock'. t_send_slice T d sock = (Inr n, sock') \<longrightarrow> n \<le> length d) \<and>
     (\<forall>m sock res m' sock'. t_recv_slice T m sock = (res, m', sock') \<longrightarrow> length m' = length m \<and>
        (\<forall>n. res = Inr n \<longrightarrow> n \<le> length m \<and> drop n m' = drop n m))"

definition slice_laws :: "'b io_buf_crate \<Rightarrow> ('w, 'b) slice_crate \<Rightarrow> ('w \<Rightarrow> bytes) \<Rightarrow> ('w \<Rightarrow> bytes) \<Rightarrow> bool" where
  "slice_laws IO S data mem \<longleftrightarrow>
     (\<forall>buf. sl_buf_len S buf = length (data buf) \<and> sl_buf_capacity S buf = length (mem buf)) \<and>
     (\<forall>buf k. sl_into_inner S (sl_slice S buf k) = buf) \<and>
     (\<forall>buf k. k < length (data buf) \<longrightarrow> io_as_slice IO (sl_slice S buf k) = drop k (data buf)) \<and>
     (\<forall>buf k. k < length (mem buf) \<longrightarrow> io_as_mut_slice IO (sl_slice S buf k) = drop k (mem buf) \<and>
        (\<forall>m. length m = length (mem buf) - k \<longrightarrow>
           mem (sl_into_inner S (io_put IO m (sl_slice S buf k))) = take k (mem buf) @ m)) \<and>
     (\<forall>n sl. mem (sl_into_inner S (io_set_buf_init IO n sl)) = mem (sl_into_inner S sl))"

text \<open>Call by call, smoltcp was handed all the bytes it had not accepted yet.\<close>

fun handed_over ::
  "('c, 'e, 'l, 'b, 'tcp, 'udp, 'ss, 'if, 'cap, 'ck) stack_deps \<Rightarrow> bytes \<Rightarrow> (nat io_result \<times> 'b) list \<Rightarrow> bool" where
  "handed_over D d [] \<longleftrightarrow> True"
| "handed_over D d ((Inl e, sl) # cs) \<longleftrightarrow> handed_over D d cs"
| "handed_over D d ((Inr n, sl) # cs) \<longleftrightarrow>
     (\<exists>sock sock'. t_can_send (d_tcp D) sock \<and> t_send_slice (d_tcp D) d sock = (Inr n, sock')) \<and> handed_over D (drop n d) cs"

definition total :: "(nat io_result \<times> 'b) list \<Rightarrow> nat" where
  "total cs = sum_list (map (\<lambda>c. case fst c of Inl _ \<Rightarrow> 0 | Inr n \<Rightarrow> n) cs)"

lemma total_simps [simp]:
  "total [] = 0" "total ((Inl e, sl) # cs) = total cs" "total ((Inr n, sl) # cs) = n + total cs"
  by (simp_all add: total_def)

lemma awaited_write:
  assumes laws: "deps_laws D q tx rx" "iface_laws B (d_udp D) (d_set D) (d_iface D)" "transfer_laws (d_tcp D)"
    and S: "slice_laws (d_io D) S data mem" and y: "sys_reach D y" and k: "k < length (data buf)"
    and call: "awaited D (Op_write st) (write_start D st) write_finish (sl_slice S buf k) y res sl y'"
  shows "sys_reach D y'" "sl_into_inner S sl = buf"
    "res = Inr n \<Longrightarrow> n \<le> length (data buf) - k \<and>
       (\<exists>sock sock'. t_can_send (d_tcp D) sock \<and> t_send_slice (d_tcp D) (drop k (data buf)) sock = (Inr n, sock'))"
proof -
  have c: "sys_reach D y'" "sl = sl_slice S buf k" "res = Inr n \<Longrightarrow> \<exists>sock sock'. t_can_send (d_tcp D) sock \<and>
      t_send_slice (d_tcp D) (io_as_slice (d_io D) (sl_slice S buf k)) sock = (Inr n, sock')"
    using writing.awaited_contract[OF laws(1,2) y call] by auto
  then show "sys_reach D y'" "sl_into_inner S sl = buf" using S by (simp_all add: slice_laws_def)
  have d: "io_as_slice (d_io D) (sl_slice S buf k) = drop k (data buf)" using S k by (simp add: slice_laws_def)
  show "n \<le> length (data buf) - k \<and>
      (\<exists>sock sock'. t_can_send (d_tcp D) sock \<and> t_send_slice (d_tcp D) (drop k (data buf)) sock = (Inr n, sock'))"
    if "res = Inr n" using c(3)[OF that] laws(3) unfolding d transfer_laws_def by (metis length_drop)
qed

lemma write_all_run_sends:
  assumes laws: "deps_laws D q tx rx" "iface_laws B (d_udp D) (d_set D) (d_iface D)" "transfer_laws (d_tcp D)"
    and S: "slice_laws (d_io D) S data mem"
    and run: "write_all_run D S st k len buf y cs r buf' y'" and "sys_reach D y" "len = length (data buf)" "k \<le> len"
  shows "sys_reach D y' \<and> buf' = buf \<and> k + total cs \<le> len \<and> (r = Inr () \<longleftrightarrow> k + total cs = len) \<and>
    handed_over D (drop k (data buf)) cs"
  using run assms(6-8)
proof (induction rule: whole.induct)
  case (failed k len buf y e sl y')
  note a = awaited_write[OF laws S failed.prems(1) _ failed.hyps(2)]
  from a(1,2) failed show ?case by simp
next
  case (stalled k len buf y sl y')
  note a = awaited_write[OF laws S stalled.prems(1) _ stalled.hyps(2)]
  from a(1,2) a(3)[of 0] stalled show ?case by simp
next
  case (onward k len buf y n sl y1 cs r buf' y')
  note a = awaited_write[OF laws S onward.prems(1) _ onward.hyps(2)]
  have "n \<le> length (data buf) - k" using a(3)[of n] onward by simp
  with a(1,2) a(3)[of n] onward show ?case by (simp add: add.commute add.left_commute)
qed auto

text \<open>The bytes that the calls of a read loop took from smoltcp, each into the memory that was not filled yet.\<close>

definition took :: "('c, 'e, 'l, 'b, 'tcp, 'udp, 'ss, 'if, 'cap, 'ck) stack_deps \<Rightarrow> bytes \<Rightarrow> bytes \<Rightarrow> bool" where
  "took D m bs \<longleftrightarrow> bs = [] \<or> (\<exists>sock m' sock'. t_recv_queue (d_tcp D) sock \<noteq> 0 \<and>
     t_recv_slice (d_tcp D) m sock = (Inr (length bs), m', sock') \<and> take (length bs) m' = bs)"

fun filled_by ::
  "('c, 'e, 'l, 'b, 'tcp, 'udp, 'ss, 'if, 'cap, 'ck) stack_deps \<Rightarrow> bytes \<Rightarrow> (nat io_result \<times> 'b) list \<Rightarrow> bytes list \<Rightarrow> bool" where
  "filled_by D m [] chunks \<longleftrightarrow> chunks = []"
| "filled_by D m ((Inl e, sl) # cs) chunks \<longleftrightarrow> filled_by D m cs chunks"
| "filled_by D m ((Inr n, sl) # cs) chunks \<longleftrightarrow>
     (\<exists>bs rest. chunks = bs # rest \<and> length bs = n \<and> took D m bs \<and> filled_by D (drop n m) cs rest)"

lemma fulfils_readE:
  assumes "fulfils D (Read h b t) v (Reply_usize r) v'"
  obtains (kept) "v' = v" "isl r \<or> r = Inr 0"
  | (spoilt) sock err m sock' where "t_recv_slice (d_tcp D) (io_as_mut_slice (d_io D) v) sock = (Inl err, m, sock')"
      "v' = io_put (d_io D) m v" "isl r \<or> r = Inr 0"
  | (got) sock n m sock' where "t_recv_queue (d_tcp D) sock \<noteq> 0" "r = Inr n"
      "t_recv_slice (d_tcp D) (io_as_mut_slice (d_io D) v) sock = (Inr n, m, sock')"
      "v' = io_set_buf_init (d_io D) n (io_put (d_io D) m v)"
  using assms unfolding fulfils.simps
proof (elim disjE conjE exE)
  assume "v' = v" "case r of Inl _ \<Rightarrow> True | Inr n \<Rightarrow> n = 0 \<and> (\<exists>sock. t_recv_queue (d_tcp D) sock = 0 \<and> \<not> t_may_recv (d_tcp D) sock)"
  then show thesis by (intro kept) (auto split: sum.split_asm)
next
  fix sock res m sock'
  assume 1: "t_recv_queue (d_tcp D) sock \<noteq> 0" "t_recv_slice (d_tcp D) (io_as_mut_slice (d_io D) v) sock = (res, m, sock')"
    and 2: "case res of Inl RecvError_Finished \<Rightarrow> v' = io_put (d_io D) m v \<and> r = Inr 0
      | Inl (RecvError_other err) \<Rightarrow> v' = io_put (d_io D) m v \<and> r = Inl (Error_new Other err)
      | Inr n \<Rightarrow> v' = io_set_buf_init (d_io D) n (io_put (d_io D) m v) \<and> r = Inr n"
  show thesis
  proof (cases res)
    case (Inl err)
    with 2 have "v' = io_put (d_io D) m v" "isl r \<or> r = Inr 0" by (auto split: tcp_recv_error.split_asm)
    with 1(2) Inl show thesis by (intro spoilt) auto
  next
    case (Inr n)
    with 1 2 show thesis by (intro got) auto
  qed
qed

lemma awaited_read:
  assumes laws: "deps_laws D q tx rx" "iface_laws B (d_udp D) (d_set D) (d_iface D)" "transfer_laws (d_tcp D)"
    and S: "slice_laws (d_io D) S data mem" and y: "sys_reach D y" and k: "k < length (mem buf)"
    and call: "awaited D (Op_read st) (read_start D st) read_finish (sl_slice S buf k) y res sl y'"
  shows "sys_reach D y'" "length (mem (sl_into_inner S sl)) = length (mem buf)"
    "take k (mem (sl_into_inner S sl)) = take k (mem buf)"
    "res = Inr n \<Longrightarrow> n \<le> length (mem buf) - k \<and> (\<exists>bs. length bs = n \<and> took D (drop k (mem buf)) bs \<and>
       take (k + n) (mem (sl_into_inner S sl)) = take k (mem buf) @ bs \<and>
       (n \<noteq> 0 \<longrightarrow> drop (k + n) (mem (sl_into_inner S sl)) = drop (k + n) (mem buf)))"
proof -
  let ?sl = "sl_slice S buf k" and ?IO = "d_io D" and ?m = "mem (sl_into_inner S sl)"
  have inner: "sl_into_inner S ?sl = buf" and m: "io_as_mut_slice ?IO ?sl = drop k (mem buf)"
    using S k by (simp_all add: slice_laws_def)
  have put: "mem (sl_into_inner S (io_put ?IO m' ?sl)) = take k (mem buf) @ m'" if "length m' = length (mem buf) - k" for m'
    using S k that by (simp_all add: slice_laws_def)
  have init: "mem (sl_into_inner S (io_set_buf_init ?IO n x)) = mem (sl_into_inner S x)" for n x using S by (simp add: slice_laws_def)
  have c: "sys_reach D y'" "isl res \<and> sl = ?sl \<or> fulfils D (op_event (Op_read st) 0 0) ?sl (Reply_usize res) sl"
    using reading.awaited_contract[OF laws(1,2) y call] by auto
  show "sys_reach D y'" by (rule c(1))
  consider (kept) "sl = ?sl" "isl res \<or> res = Inr 0"
    | (spoilt) sock err m' sock' where "t_recv_slice (d_tcp D) (drop k (mem buf)) sock = (Inl err, m', sock')"
        "sl = io_put ?IO m' ?sl" "isl res \<or> res = Inr 0"
    | (got) sock n' m' sock' where "t_recv_queue (d_tcp D) sock \<noteq> 0" "res = Inr n'"
        "t_recv_slice (d_tcp D) (drop k (mem buf)) sock = (Inr n', m', sock')" "sl = io_set_buf_init ?IO n' (io_put ?IO m' ?sl)"
    using c(2) unfolding op_event.simps m[symmetric] by (elim disjE conjE fulfils_readE) blast+
  then obtain m' where m': "length m' = length (mem buf) - k" "?m = take k (mem buf) @ m'"
    "res = Inr n \<Longrightarrow> n \<le> length m' \<and> took D (drop k (mem buf)) (take n m') \<and> (n \<noteq> 0 \<longrightarrow> drop n m' = drop (k + n) (mem buf))"
  proof cases
    case kept
    with inner show thesis by (intro that[of "drop k (mem buf)"]) (auto simp: took_def)
  next
    case spoilt
    have l: "length m' = length (mem buf) - k" using laws(3) spoilt(1) unfolding transfer_laws_def by (metis length_drop)
    with spoilt put show thesis by (intro that[of m']) (auto simp: took_def)
  next
    case got
    have "length m' = length (drop k (mem buf)) \<and> n' \<le> length (drop k (mem buf)) \<and> drop n' m' = drop n' (drop k (mem buf))"
      using laws(3) got(3) unfolding transfer_laws_def by blast
    then have l: "length m' = length (mem buf) - k" "n' \<le> length m'" "drop n' m' = drop (k + n') (mem buf)"
      by (simp_all add: add.commute)
    have "took D (drop k (mem buf)) (take n' m')" using got l(2) by (auto simp: took_def)
    with got l put[OF l(1)] show thesis by (intro that[OF l(1)]) (auto simp: init)
  qed
  with k show "length ?m = length (mem buf)" "take k ?m = take k (mem buf)" by simp_all
  show "n \<le> length (mem buf) - k \<and> (\<exists>bs. length bs = n \<and> took D (drop k (mem buf)) bs \<and>
      take (k + n) ?m = take k (mem buf) @ bs \<and> (n \<noteq> 0 \<longrightarrow> drop (k + n) ?m = drop (k + n) (mem buf)))" if "res = Inr n"
    using m'(3)[OF that] m'(1,2) k by (intro conjI exI[of _ "take n m'"]) auto
qed

lemma read_exact_run_fills:
  assumes laws: "deps_laws D q tx rx" "iface_laws B (d_udp D) (d_set D) (d_iface D)" "transfer_laws (d_tcp D)"
    and S: "slice_laws (d_io D) S data mem"
    and run: "read_exact_run D S st k len buf y cs r buf' y'" and "sys_reach D y" "len = length (mem buf)" "k \<le> len"
  shows "sys_reach D y' \<and> length (mem buf') = len \<and> (\<exists>chunks. filled_by D (drop k (mem buf)) cs chunks \<and>
    k + length (concat chunks) \<le> len \<and> take (k + length (concat chunks)) (mem buf') = take k (mem buf) @ concat chunks \<and>
    (r = Inr () \<longleftrightarrow> k + length (concat chunks) = len))"
  using run assms(6-8)
proof (induction rule: whole.induct)
  case (all_done len k buf y)
  then show ?case by (intro conjI exI[of _ "[]"]) auto
next
  case (failed k len buf y e sl y')
  note a = awaited_read[OF laws S failed.prems(1) _ failed.hyps(2)]
  from a(1-3) failed show ?case by (intro conjI exI[of _ "[]"]) auto
next
  case (stalled k len buf y sl y')
  note a = awaited_read[OF laws S stalled.prems(1) _ stalled.hyps(2)]
  from a(1-3) stalled show ?case by (intro conjI exI[of _ "[[]]"]) (auto simp: took_def)
next
  case (onward k len buf y n sl y1 cs r buf' y')
  let ?m = "mem (sl_into_inner S sl)"
  note a = awaited_read[OF laws S onward.prems(1) _ onward.hyps(2)]
  have l: "length ?m = len" "sys_reach D y1" using a(1,2) onward by simp_all
  obtain bs where bs: "n \<le> len - k" "length bs = n" "took D (drop k (mem buf)) bs" "take (k + n) ?m = take k (mem buf) @ bs"
    "drop (k + n) ?m = drop (k + n) (mem buf)"
    using a(4)[of n] onward by auto
  have kn: "k + n \<le> len" using bs(1) onward.hyps(1) by simp
  obtain chunks where ch: "sys_reach D y'" "length (mem buf') = len" "filled_by D (drop (k + n) ?m) cs chunks"
    "k + n + length (concat chunks) \<le> len" "take (k + n + length (concat chunks)) (mem buf') = take (k + n) ?m @ concat chunks"
    "r = Inr () \<longleftrightarrow> k + n + length (concat chunks) = len"
    using onward.IH[OF l(2) l(1)[symmetric] kn] by blast
  have "filled_by D (drop k (mem buf)) ((Inr n, sl) # cs) (bs # chunks)"
    using bs ch(3) by (simp add: add.commute)
  with ch bs show ?case by (intro conjI exI[of _ "bs # chunks"]) (auto simp: add.assoc)
qed

end
