(* ===== verification/Lending_Claims.thy ===== *)
theory Lending_Claims
  imports Lending System_Claims
begin

text \<open>
  The properties of lent buffers over whole runs, from the call that lends a buffer to the one that takes it
  back, with whatever the rest of the program does in between.
\<close>

section \<open>A run with a write\<close>

definition run_text :: net_buf where
  "run_text = \<lparr>nb_front = [], nb_mem = [1, 2, 3], nb_init = 3\<rparr>"

definition run_writer :: future where
  "run_writer = \<lparr>fu_op = Op_write run_stream, fu_buf = 0, fu_tx = 0\<rparr>"

definition run_writing :: "operation_event list \<Rightarrow> (net_chan, bool option, net_buf, net_set, ip_cidr list, nat) tcp_stack" where
  "run_writing evs = (run_accepted evs [[7, 8, 9]])\<lparr>sh_bufs := [0 \<mapsto> \<lparr>arc_strong = 2, arc_data = \<lparr>sb_inner = run_text\<rparr>\<rparr>]\<rparr>"

definition run_written :: "(net_chan, bool option, net_buf, net_set, ip_cidr list, nat) tcp_stack" where
  "run_written = (run_accepted [] [[7, 8, 9]])\<lparr>
     st_socket_set := [Some (Socket_Tcp (net_sock\<lparr>nt_rx := [7, 8, 9], nt_send_waker := Some 0, nt_tx := [1, 2, 3]\<rparr>))],
     sh_bufs := [0 \<mapsto> \<lparr>arc_strong = 1, arc_data = \<lparr>sb_inner = run_text\<rparr>\<rparr>],
     sh_trace := [Dropped_buf 0, Replied 0 (Reply_usize (Inr 3))]\<rparr>"

abbreviation write_at ::
  "(net_chan, bool option, net_buf, net_set, ip_cidr list, nat) tcp_stack \<Rightarrow> events list \<Rightarrow> net_sys" where
  "write_at s bs \<equiv> run_at s bs [run_writer] [run_stream] 1 {0}"

lemma run_suspends:
  "suspends net (Op_write run_stream) run_text run_writer (run_at (run_accepted [] [[7, 8, 9]]) [] [] [run_stream] 1 {})
     (write_at (run_writing [Write 0 0 0]) [])"
  by (simp add: suspends_def run_writer_def waiting_def write_start_def share_buf_def sb_new_def send_event_def notify_send_def
    net_simps arc_new_def arc_clone_def run_writing_def run_accepted_def run_stack_def net_stack_def run_stream_def numeral_2_eq_2)

lemma run_write_turn:
  "drive_once net 0 None (Some \<lparr>events_list = [Write 0 0 0]\<rparr>) (run_writing []) = Inr (Inr ([], None), run_written)"
  by (simp add: turn_defs net_stack_def net_simps run_stack_def run_accepted_def run_writing_def run_written_def run_text_def
    run_info_def net_sock_def numeral_3_eq_3 as_slice_def Let_def)

lemma run_writes: "(sys_step net)\<^sup>*\<^sup>* (write_at (run_writing [Write 0 0 0]) []) (write_at run_written [])"
proof -
  have ch: "sh_ch (run_writing evs) = run_chan evs" "(run_writing evs)\<lparr>sh_ch := run_chan evs'\<rparr> = run_writing evs'" for evs evs'
    by (simp_all add: run_writing_def run_accepted_def run_stack_def net_stack_def)
  have "sys_step net (write_at (run_writing [Write 0 0 0]) []) (write_at (run_writing []) [\<lparr>events_list = [Write 0 0 0]\<rparr>])"
    using generate_ready[of "write_at (run_writing [Write 0 0 0]) []" net "\<lparr>events_list = [Write 0 0 0]\<rparr>" W_returned "run_chan []"]
      run_collect[of "Write 0 0 0"] by (simp add: ch net_def)
  moreover have "sys_step net (write_at (run_writing []) [\<lparr>events_list = [Write 0 0 0]\<rparr>]) (write_at run_written [])"
    using turn[of "write_at (run_writing []) [\<lparr>events_list = [Write 0 0 0]\<rparr>]" "[]" _ "[]" net 0 None] run_write_turn by simp
  ultimately show ?thesis by (rule rtranclp.rtrancl_into_rtrancl[OF r_into_rtranclp])
qed

section \<open>Properties\<close>



text \<open>C11 (safety). It does not matter when an executor resumes a task: once an operation has been answered or hung up,
  what it will receive and the content of its buffer stay the same, whatever the rest of the program
  does, until it is resumed.\<close>

theorem answered_buffer_stable:
  assumes "deps_laws D q tx rx" "iface_laws B (d_udp D) (d_set D) (d_iface D)" "sys_reach D y"
    and "f \<in> set (sy_futures y)" "received (sh_trace (sy_stack y)) (fu_tx f) r"
    and "(sys_step D)\<^sup>*\<^sup>* y y'" "f \<in> set (sy_futures y')"
  shows "\<exists>res buf s s'. op_finish (fu_op f) (fu_buf f) r (sy_stack y) = Some (Inr (res, buf, s)) \<and>
    op_finish (fu_op f) (fu_buf f) r (sy_stack y') = Some (Inr (res, buf, s')) \<and> gives r res \<and>
    (\<forall>r'. received (sh_trace (sy_stack y')) (fu_tx f) r' \<longleftrightarrow> r' = r)"
proof -
  note C = deps_lawsD(1)[OF assms(1)] and inv = sys_reach_inv[OF assms(1-3)]
  obtain c where c: "sh_bufs (sy_stack y) (fu_buf f) = Some c" using future_live(1)[OF inv assms(4)] by blast
  let ?v = "sb_inner (arc_data c)"
  have l: "lent_sys D q tx rx (fu_buf f) ?v y"
    using c by (intro spared_lent[OF C resolved_spared[OF inv assms(4,5)]]) simp
  from lent_run[OF assms(1,2,6,3,4) this] assms(7) have y': "sys_reach D y'" "lent_sys D q tx rx (fu_buf f) ?v y'" by blast+
  have r': "received (sh_trace (sy_stack y')) (fu_tx f) r" by (rule received_run[OF C assms(6,5)])
  obtain res s res' s' where o: "op_finish (fu_op f) (fu_buf f) r (sy_stack y) = Some (Inr (res, ?v, s))" "gives r res"
      "op_finish (fu_op f) (fu_buf f) r (sy_stack y') = Some (Inr (res', ?v, s'))"
    using lent_resume[OF assms(1-4) l assms(5)] lent_resume[OF assms(1,2) y'(1) assms(7) y'(2) r'] by blast
  with op_finish_result[OF o(1,3)] r' received_unique[OF sys_reach_inv[OF assms(1,2) y'(1)] r'] show ?thesis by blast
qed

theorem answered_buffer_stable_witness:
  "\<exists>s'. op_finish (Op_read run_stream) 0 (Some (Reply_usize (Inr 3))) run_read =
     Some (Inr (Got_usize (Inr 3), \<lparr>nb_front = [], nb_mem = [7, 8, 9, 0], nb_init = 3\<rparr>, s'))"
proof -
  have r: "received (sh_trace (sy_stack run_sys)) (fu_tx run_future) (Some (Reply_usize (Inr 3)))"
    by (simp add: received_def run_sys_def run_read_def run_future_def)
  have f: "run_future \<in> set (sy_futures run_sys)" by (simp add: run_sys_def)
  from answered_buffer_stable[OF net_laws net_poll_laws run_reach f r rtranclp.rtrancl_refl f]
  obtain buf s where o: "op_finish (Op_read run_stream) 0 (Some (Reply_usize (Inr 3))) run_read = Some (Inr (Got_usize (Inr 3), buf, s))"
    by (auto simp: run_sys_def run_future_def)
  with op_finish_value[OF _ _ o] show ?thesis by (simp add: run_read_def)
qed

end
