(* ===== verification/Contract_Claims.thy ===== *)
theory Contract_Claims
  imports Whole_Buffers Lending_Claims
begin

text \<open>
  The properties of operations and of whole-buffer loops in the composed system, from the first call to the last
  answer, and runs of the in-memory network on which they are evaluated.
\<close>

section \<open>Arrays and their slices\<close>

text \<open>A buffer that is an array of initialised bytes.\<close>

definition array_slices :: "(bytes, net_buf) slice_crate" where
  "array_slices = \<lparr>sl_slice = (\<lambda>a k. \<lparr>nb_front = take k a, nb_mem = drop k a, nb_init = length a - k\<rparr>),
     sl_into_inner = (\<lambda>b. nb_front b @ nb_mem b), sl_buf_len = length, sl_buf_capacity = length\<rparr>"

lemma array_slice_laws: "slice_laws (d_io net) array_slices (\<lambda>a. a) (\<lambda>a. a)"
  by (simp add: slice_laws_def array_slices_def net_def net_io_def)

lemma net_transfer_laws: "transfer_laws (d_tcp net)"
  by (auto simp: transfer_laws_def net_simps min_def)

section \<open>A run with a read that fills its buffer\<close>

definition run_array :: net_buf where
  "run_array = \<lparr>nb_front = [], nb_mem = [0, 0, 0], nb_init = 3\<rparr>"

definition run_filling :: "operation_event list \<Rightarrow> (net_chan, bool option, net_buf, net_set, ip_cidr list, nat) tcp_stack" where
  "run_filling evs = (run_accepted evs [[7, 8, 9]])\<lparr>sh_bufs := [0 \<mapsto> \<lparr>arc_strong = 2, arc_data = \<lparr>sb_inner = run_array\<rparr>\<rparr>]\<rparr>"

definition run_filled :: "(net_chan, bool option, net_buf, net_set, ip_cidr list, nat) tcp_stack" where
  "run_filled = (run_accepted [] [])\<lparr>
     sh_bufs := [0 \<mapsto> \<lparr>arc_strong = 1, arc_data = \<lparr>sb_inner = \<lparr>nb_front = [], nb_mem = [7, 8, 9], nb_init = 3\<rparr>\<rparr>\<rparr>],
     sh_trace := [Dropped_buf 0, Replied 0 (Reply_usize (Inr 3))]\<rparr>"

abbreviation fill_at ::
  "(net_chan, bool option, net_buf, net_set, ip_cidr list, nat) tcp_stack \<Rightarrow> events list \<Rightarrow> net_sys" where
  "fill_at s bs \<equiv> run_at s bs [run_future] [run_stream] 1 {0}"

lemma run_fill_turn:
  "drive_once net 0 None (Some \<lparr>events_list = [Read 0 0 0]\<rparr>) (run_filling []) = Inr (Inr ([], None), run_filled)"
  by (simp add: turn_defs net_stack_def net_simps run_stack_def run_accepted_def run_filling_def run_filled_def run_array_def
    run_info_def net_sock_def numeral_3_eq_3 Let_def)

lemma run_fills: "(sys_step net)\<^sup>*\<^sup>* (fill_at (run_filling [Read 0 0 0]) []) (fill_at run_filled [])"
proof -
  have ch: "sh_ch (run_filling evs) = run_chan evs" "(run_filling evs)\<lparr>sh_ch := run_chan evs'\<rparr> = run_filling evs'" for evs evs'
    by (simp_all add: run_filling_def run_accepted_def run_stack_def net_stack_def)
  have "sys_step net (fill_at (run_filling [Read 0 0 0]) []) (fill_at (run_filling []) [\<lparr>events_list = [Read 0 0 0]\<rparr>])"
    using generate_ready[of "fill_at (run_filling [Read 0 0 0]) []" net "\<lparr>events_list = [Read 0 0 0]\<rparr>" W_returned "run_chan []"]
      run_collect[of "Read 0 0 0"] by (simp add: ch net_def)
  moreover have "sys_step net (fill_at (run_filling []) [\<lparr>events_list = [Read 0 0 0]\<rparr>]) (fill_at run_filled [])"
    using turn[of "fill_at (run_filling []) [\<lparr>events_list = [Read 0 0 0]\<rparr>]" "[]" _ "[]" net 0 None] run_fill_turn by simp
  ultimately show ?thesis by (rule rtranclp.rtrancl_into_rtrancl[OF r_into_rtranclp])
qed

abbreviation run_opened :: net_sys where
  "run_opened \<equiv> run_at (run_accepted [] [[7, 8, 9]]) [] [] [run_stream] 1 {}"

lemmas run_starts = share_buf_def sb_new_def send_event_def notify_send_def net_simps arc_new_def arc_clone_def run_accepted_def
  run_stack_def net_stack_def run_stream_def

lemma run_awaited_write:
  "\<exists>y'. awaited net (Op_write run_stream) (write_start net run_stream) write_finish run_text run_opened (Inr 3) run_text y'"
proof -
  have "write_start net run_stream run_text 0 0 (run_accepted [] [[7, 8, 9]]) = Inr (Waiting 0 0, run_writing [Write 0 0 0])"
    by (simp add: write_start_def run_starts run_writing_def numeral_2_eq_2)
  moreover have "write_finish 0 (Some (Inr 3)) run_written = Inr (Inr 3, run_text, run_written\<lparr>sh_bufs := (\<lambda>_. None)\<rparr>)"
    by (simp add: write_finish_def finish_with_def cast_dyn_io_buf_def arc_into_inner_def sb_into_inner_def run_written_def fun_eq_iff)
  moreover have "received (sh_trace run_written) 0 (map_option Reply_usize (Some (Inr 3)))"
    by (simp add: received_def run_written_def)
  ultimately show ?thesis
    using later[of "Op_write run_stream" run_opened 0 0 "write_start net run_stream" run_text "run_writing [Write 0 0 0]" run_writer net
      "write_at run_written []" "[]" "[]" "Some (Inr 3)" write_finish "Inr 3" run_text] run_writes
    by (auto simp: run_writer_def run_accepted_def run_stack_def net_stack_def)
qed

lemma run_awaited_read:
  "\<exists>y'. awaited net (Op_read run_stream) (read_start net run_stream) read_finish run_array run_opened (Inr 3)
     \<lparr>nb_front = [], nb_mem = [7, 8, 9], nb_init = 3\<rparr> y'"
proof -
  have "read_start net run_stream run_array 0 0 (run_accepted [] [[7, 8, 9]]) = Inr (Waiting 0 0, run_filling [Read 0 0 0])"
    by (simp add: read_start_def run_starts run_filling_def numeral_2_eq_2)
  moreover have "read_finish 0 (Some (Inr 3)) run_filled =
      Inr (Inr 3, \<lparr>nb_front = [], nb_mem = [7, 8, 9], nb_init = 3\<rparr>, run_filled\<lparr>sh_bufs := (\<lambda>_. None)\<rparr>)"
    by (simp add: read_finish_def finish_with_def cast_mut cast_dyn_io_buf_def arc_into_inner_def sb_into_inner_def run_filled_def
      fun_eq_iff)
  moreover have "received (sh_trace run_filled) 0 (map_option Reply_usize (Some (Inr 3)))"
    by (simp add: received_def run_filled_def)
  ultimately show ?thesis
    using later[of "Op_read run_stream" run_opened 0 0 "read_start net run_stream" run_array "run_filling [Read 0 0 0]" run_future net
      "fill_at run_filled []" "[]" "[]" "Some (Inr 3)" read_finish "Inr 3"] run_fills
    by (auto simp: run_future_def run_accepted_def run_stack_def net_stack_def)
qed

section \<open>Properties\<close>

text \<open>C3 (safety). Every operation keeps its contract: whatever the program does between the moment a read, write, recv or
  send is suspended and the moment it is resumed (other operations, cancellations, turns, drops of the stack
  or the generator, in any order), it returns, and its answer and its buffer fit together. After a hang-up the buffer is the one
  it was given. A write or send returns the buffer unchanged; a success means that smoltcp was given exactly its
  initialised bytes, for a send with the given address and in one piece, and the count is smoltcp's answer or that length. A successful
  read or recv returns the buffer with the memory and the count that one \<^verbatim>\<open>recv_slice\<close> on that buffer made; a read
  returns zero without a call only for a socket that will receive no more.\<close>

theorem operation_contract:
  assumes "deps_laws D q tx rx" "iface_laws B (d_udp D) (d_set D) (d_iface D)" "sys_reach D y"
    and "suspends D p buf f y y1" "(sys_step D)\<^sup>*\<^sup>* y1 y2"
    and "f \<in> set (sy_futures y2)" "received (sh_trace (sy_stack y2)) (fu_tx f) r"
  shows "\<exists>res buf' s'. op_finish p (fu_buf f) r (sy_stack y2) = Some (Inr (res, buf', s')) \<and> gives r res \<and>
    keeps_contract D p buf r buf'"
  using contract_kept[OF assms] by blast

theorem operation_contract_witness:
  "\<exists>s'. op_finish (Op_write run_stream) 0 (Some (Reply_usize (Inr 3))) run_written = Some (Inr (Got_usize (Inr 3), run_text, s'))"
  using operation_contract[OF net_laws net_poll_laws run_open run_suspends run_writes, of "Some (Reply_usize (Inr 3))"]
  by (auto simp: received_def run_written_def run_writer_def keeps_contract_def)

text \<open>C23 (functional). \<^verbatim>\<open>write_all\<close> in the running program: each \<^verbatim>\<open>write\<close> it awaits is a run of the composed system, in which
  anybody else may act. The loop is the function \<^verbatim>\<open>write_all\<close> on what these calls returned; it gives the buffer back unchanged;
  each call hands smoltcp exactly the bytes that were not accepted before, so that no byte is skipped or sent
  twice; and it succeeds exactly when all bytes were accepted.\<close>

theorem write_all_in_system:
  assumes "deps_laws D q tx rx" "iface_laws B (d_udp D) (d_set D) (d_iface D)" "transfer_laws (d_tcp D)"
    and "slice_laws (d_io D) S data mem" "sys_reach D y" "write_all_run D S st 0 (sl_buf_len S buf) buf y cs r buf' y'"
  shows "write_all S next_result buf cs = ((r, buf'), []) \<and> sys_reach D y' \<and> buf' = buf \<and> handed_over D (data buf) cs \<and>
    total cs \<le> length (data buf) \<and> (r = Inr () \<longleftrightarrow> total cs = length (data buf))"
proof -
  have "sl_buf_len S buf = length (data buf)" using assms(4) by (simp add: slice_laws_def)
  with write_all_run_sends[OF assms(1-4,6,5)] write_all_run_loop[OF assms(6)] show ?thesis by (simp add: write_all_def)
qed

theorem write_all_in_system_witness:
  "handed_over net [1, 2, 3] [(Inr 3, run_text)] \<and>
   write_all array_slices next_result [1, 2, 3] [(Inr 3, run_text)] = ((Inr (), [1, 2, 3]), [])"
proof -
  obtain y' where "awaited net (Op_write run_stream) (write_start net run_stream) write_finish run_text run_opened (Inr 3) run_text y'"
    using run_awaited_write by blast
  moreover have sl: "sl_slice array_slices [1, 2, 3] 0 = run_text" "sl_into_inner array_slices run_text = [1, 2, 3]"
    "sl_buf_len array_slices [1, 2, 3] = 3"
    by (simp_all add: array_slices_def run_text_def)
  ultimately have "write_all_run net array_slices run_stream 0 (sl_buf_len array_slices [1, 2, 3]) [1, 2, 3] run_opened
      [(Inr 3, run_text)] (Inr ()) [1, 2, 3] y'"
    by (simp add: whole_at_once)
  from write_all_in_system[OF net_laws net_poll_laws net_transfer_laws array_slice_laws run_open this] show ?thesis by blast
qed

text \<open>C24 (functional). \<^verbatim>\<open>read_exact\<close> in the running program: each \<^verbatim>\<open>read\<close> it awaits is a run of the composed system. The
  loop is the function \<^verbatim>\<open>read_exact\<close> on what these calls returned; each call offers smoltcp exactly the memory that was not
  filled before; the memory of the buffer begins with the bytes that the calls took from smoltcp, in order and without gap or
  repetition, and it succeeds exactly when these bytes fill the whole buffer.\<close>

theorem read_exact_in_system:
  assumes "deps_laws D q tx rx" "iface_laws B (d_udp D) (d_set D) (d_iface D)" "transfer_laws (d_tcp D)"
    and "slice_laws (d_io D) S data mem" "sys_reach D y" "read_exact_run D S st 0 (sl_buf_capacity S buf) buf y cs r buf' y'"
  shows "read_exact S next_result buf cs = ((r, buf'), []) \<and> sys_reach D y' \<and> length (mem buf') = length (mem buf) \<and>
    (\<exists>chunks. filled_by D (mem buf) cs chunks \<and> prefix (concat chunks) (mem buf') \<and>
       (r = Inr () \<longleftrightarrow> mem buf' = concat chunks))"
proof -
  have "sl_buf_capacity S buf = length (mem buf)" using assms(4) by (simp add: slice_laws_def)
  with read_exact_run_fills[OF assms(1-4,6,5)] obtain chunks where c: "sys_reach D y'" "length (mem buf') = length (mem buf)"
    "filled_by D (mem buf) cs chunks" "take (length (concat chunks)) (mem buf') = concat chunks"
    "r = Inr () \<longleftrightarrow> length (concat chunks) = length (mem buf)" by auto
  have "prefix (concat chunks) (mem buf')" by (metis c(4) take_is_prefix)
  moreover have "length (concat chunks) = length (mem buf') \<longleftrightarrow> mem buf' = concat chunks" using c(4) by (metis take_all order_refl)
  ultimately show ?thesis using c read_exact_run_loop[OF assms(6)] by (auto simp: read_exact_def)
qed

theorem read_exact_in_system_witness:
  "read_exact array_slices next_result [0, 0, 0] [(Inr 3, \<lparr>nb_front = [], nb_mem = [7, 8, 9], nb_init = 3\<rparr>)] =
     ((Inr (), [7, 8, 9]), []) \<and>
   (\<exists>chunks. filled_by net [0, 0, 0] [(Inr 3, \<lparr>nb_front = [], nb_mem = [7, 8, 9], nb_init = 3\<rparr>)] chunks \<and> concat chunks = [7, 8, 9])"
proof -
  let ?b = "\<lparr>nb_front = [], nb_mem = [7, 8, 9], nb_init = 3\<rparr>"
  obtain y' where "awaited net (Op_read run_stream) (read_start net run_stream) read_finish run_array run_opened (Inr 3) ?b y'"
    using run_awaited_read by blast
  moreover have sl: "sl_slice array_slices [0, 0, 0] 0 = run_array" "sl_into_inner array_slices ?b = [7, 8, 9]"
    "sl_buf_capacity array_slices [0, 0, 0] = 3"
    by (simp_all add: array_slices_def run_array_def)
  ultimately have "read_exact_run net array_slices run_stream 0 (sl_buf_capacity array_slices [0, 0, 0]) [0, 0, 0] run_opened
      [(Inr 3, ?b)] (Inr ()) [7, 8, 9] y'"
    by (simp add: whole_at_once)
  from read_exact_in_system[OF net_laws net_poll_laws net_transfer_laws array_slice_laws run_open this] show ?thesis by metis
qed

end
