(* ===== verification/Transfer_Claims.thy ===== *)
theory Transfer_Claims
  imports System_Claims
begin

text \<open>
  What becomes of the data and of the requests: writing, waiting, and the way of a new UDP flow from its
  first packet to the socket in the hands of the user.
\<close>

section \<open>Writing\<close>

text \<open>A write hands smoltcp exactly the initialised bytes of the user's buffer. When the socket
  can send, handling the request passes them to \<^verbatim>\<open>send_slice\<close> once, stores the socket that results,
  drops the stack's reference and then answers with the number of bytes accepted; resuming the
  write returns that number and the very buffer, unchanged, and the shared cell is gone.\<close>

theorem write_delivers:
  assumes "set_laws (d_set D)" "Typed_Tcp h \<in> st_socket_handles s" "get_tcp D h s = Inr sock" "t_can_send (d_tcp D) sock"
    and "sh_bufs s b = Some \<lparr>arc_strong = 2, arc_data = \<lparr>sb_inner = buf\<rparr>\<rparr>"
    and "t_send_slice (d_tcp D) (io_as_slice (d_io D) buf) sock = (Inr n, sock')"
  shows "\<exists>s1 s2. handle_tcp_wake_event D (Write h b t) s = Inr s1 \<and> get_tcp D h s1 = Inr sock' \<and>
    sh_trace s1 = sh_trace s @ [Dropped_buf b, Replied t (Reply_usize (Inr n))] \<and>
    write_finish b (Some (Inr n)) s1 = Inr (Inr n, buf, s2) \<and> sh_bufs s2 b = None"
proof -
  let ?s1 = "answer b t (Reply_usize (Inr n)) (put_socket D h (Socket_Tcp sock') s)"
  have "handle_tcp_wake_event D (Write h b t) s = Inr ?s1"
    using assms(2-6) by (simp add: buf_value_def as_slice_def)
  moreover have "get_tcp D h ?s1 = Inr sock'"
    using set_put[OF assms(1), of h "st_socket_set s" h "Socket_Tcp sock'"] assms(3)
    by (auto simp: get_tcp_def answer_def send_reply_def drop_buf_def put_socket_def split: option.split_asm)
  ultimately show ?thesis
    using assms(5)
    by (simp add: answer_def send_reply_def drop_buf_def put_socket_def arc_drop_def write_finish_def finish_with_def
      cast_dyn_io_buf_def arc_into_inner_def sb_into_inner_def)
qed

theorem write_delivers_witness:
  "\<exists>s1 s2. handle_tcp_wake_event net (Write 0 0 3) net_live = Inr s1 \<and>
    write_finish 0 (Some (Inr 0)) s1 = Inr (Inr 0, run_buf, s2)"
proof -
  have g: "get_tcp net 0 net_live = Inr net_sock" by (simp add: get_tcp_def net_live_def net_stack_def net_simps)
  have "t_send_slice (d_tcp net) (io_as_slice (d_io net) run_buf) net_sock = (Inr 0, net_sock)"
    by (simp add: net_simps net_sock_def run_buf_def)
  from write_delivers[OF deps_lawsD(2)[OF net_laws] _ g _ _ this, of 0 3] show ?thesis
    by (auto simp: net_live_def net_simps net_sock_def run_buf_def)
qed

section \<open>Waiting\<close>

text \<open>When a transfer has to wait: the socket is there but not ready. \<open>acts\<close> is what
  registering the closure does to the one registered before.\<close>

fun would_wait ::
  "('c, 'e, 'l, 'b, 'tcp, 'udp, 'ss, 'if, 'cap, 'ck) stack_deps \<Rightarrow> waker_act list \<Rightarrow> operation_event
   \<Rightarrow> ('c, 'e, 'b, 'ss, 'if, 'cap) tcp_stack \<Rightarrow> bool" where
  "would_wait D acts (Read h b t) s \<longleftrightarrow> Typed_Tcp h \<in> st_socket_handles s \<and>
     (case get_tcp D h s of Inl _ \<Rightarrow> False | Inr sock \<Rightarrow> t_recv_queue (d_tcp D) sock = 0 \<and> t_may_recv (d_tcp D) sock \<and>
        snd (t_register_recv_waker (d_tcp D) (length (sh_wakers s)) sock) = acts)"
| "would_wait D acts (Write h b t) s \<longleftrightarrow> Typed_Tcp h \<in> st_socket_handles s \<and>
     (case get_tcp D h s of Inl _ \<Rightarrow> False | Inr sock \<Rightarrow> \<not> t_can_send (d_tcp D) sock \<and> t_may_send (d_tcp D) sock \<and>
        snd (t_register_send_waker (d_tcp D) (length (sh_wakers s)) sock) = acts)"
| "would_wait D acts (Recv h b t) s \<longleftrightarrow> Typed_Udp h \<in> st_socket_handles s \<and>
     (case get_udp D h s of Inl _ \<Rightarrow> False | Inr sock \<Rightarrow> \<not> u_can_recv (d_udp D) sock \<and>
        snd (u_register_recv_waker (d_udp D) (length (sh_wakers s)) sock) = acts)"
| "would_wait D acts (Send h a b t) s \<longleftrightarrow> Typed_Udp h \<in> st_socket_handles s \<and>
     (case get_udp D h s of Inl _ \<Rightarrow> False | Inr sock \<Rightarrow> \<not> u_can_send (d_udp D) sock \<and>
        snd (u_register_send_waker (d_udp D) (length (sh_wakers s)) sock) = acts)"
| "would_wait D acts _ s \<longleftrightarrow> False"

text \<open>No other waiter is displaced.\<close>

abbreviation must_wait ::
  "('c, 'e, 'l, 'b, 'tcp, 'udp, 'ss, 'if, 'cap, 'ck) stack_deps \<Rightarrow> operation_event
   \<Rightarrow> ('c, 'e, 'b, 'ss, 'if, 'cap) tcp_stack \<Rightarrow> bool" where
  "must_wait D \<equiv> would_wait D []"

definition handle_transfer ::
  "('c, 'e, 'l, 'b, 'tcp, 'udp, 'ss, 'if, 'cap, 'ck) stack_deps \<Rightarrow> operation_event
   \<Rightarrow> ('c, 'e, 'b, 'ss, 'if, 'cap) tcp_stack \<Rightarrow> ('c, 'e, 'b, 'ss, 'if, 'cap) tcp_stack outcome" where
  "handle_transfer D ev s = (if is_tcp_transfer ev then handle_tcp_wake_event D ev s else handle_udp_wake_event D ev s)"

lemma do_no_acts [simp]: "do_waker_acts D [] s = Inr s"
  by (simp add: do_waker_acts_def)

lemma transfer_parks:
  assumes "would_wait D acts ev s"
  shows "\<exists>ss'. handle_transfer D ev s =
    do_waker_acts D acts (s\<lparr>sh_wakers := sh_wakers s @ [Some (wake_once_fn (waker_of ev))], st_socket_set := ss'\<rparr>)"
  using assms
  by (cases ev) (auto simp: handle_transfer_def park_tcp_def park_udp_def new_waker_def put_socket_def Let_def
    split: sum.split_asm prod.split)

lemma transfer_waits:
  assumes "must_wait D ev s"
  shows "\<exists>ss'. handle_transfer D ev s =
    Inr (s\<lparr>sh_wakers := sh_wakers s @ [Some (wake_once_fn (waker_of ev))], st_socket_set := ss'\<rparr>)"
  using transfer_parks[OF assms] by simp

lemma woken_resends:
  assumes C: "crossbeam_laws (d_cb D) q tx rx" and ev: "is_tcp_transfer ev \<or> is_udp_transfer ev"
    and w: "sh_wakers s = ws @ [Some (wake_once_fn (waker_of ev))]" and rx: "rx (nc_chan (sh_ch s))"
  shows "\<exists>s2. do_waker_act D (Woken (length ws)) s = Inr s2 \<and> q (nc_chan (sh_ch s2)) = q (nc_chan (sh_ch s)) @ [ev] \<and>
    sh_bufs s2 = sh_bufs s \<and> sh_trace s2 = sh_trace s \<and>
    sh_wakers s2 = ws @ [Some \<lparr>ao_used = True, ao_value = waker_of ev\<rparr>]"
proof -
  obtain c where "cb_send (d_cb D) ev (nc_chan (sh_ch s)) = Inr c" "q c = q (nc_chan (sh_ch s)) @ [ev]"
    using crossbeam_send_ok[OF C rx] by blast
  with ev w show ?thesis
    by (cases ev) (auto simp: wake_once_fn_def send_event_def notify_send_def)
qed

text \<open>C25 (roundtrip). A transfer that has to wait comes back as it was: handling it registers one closure and
  changes no buffer, no result channel and no queue; when smoltcp wakes that closure, the same
  request, with the same handle, buffer, result channel and, for a send, address, is queued
  again at the end of the channel; waking it a second time does nothing.\<close>

theorem parked_request_returns:
  assumes "crossbeam_laws (d_cb D) q tx rx" "must_wait D ev s" "rx (nc_chan (sh_ch s))"
  shows "\<exists>s1 s2. handle_transfer D ev s = Inr s1 \<and> sh_ch s1 = sh_ch s \<and> sh_bufs s1 = sh_bufs s \<and> sh_trace s1 = sh_trace s \<and>
    do_waker_act D (Woken (length (sh_wakers s))) s1 = Inr s2 \<and> q (nc_chan (sh_ch s2)) = q (nc_chan (sh_ch s)) @ [ev] \<and>
    sh_bufs s2 = sh_bufs s \<and> sh_trace s2 = sh_trace s \<and> do_waker_act D (Woken (length (sh_wakers s))) s2 = Inr s2"
proof -
  obtain s1 ss' where s1: "handle_transfer D ev s = Inr s1"
    "s1 = s\<lparr>sh_wakers := sh_wakers s @ [Some (wake_once_fn (waker_of ev))], st_socket_set := ss'\<rparr>"
    using transfer_waits[OF assms(2)] by blast
  have "is_tcp_transfer ev \<or> is_udp_transfer ev" using assms(2) by (cases ev) auto
  from woken_resends[OF assms(1) this, of s1 "sh_wakers s"] s1(2) assms(3) obtain s2 where
    s2: "do_waker_act D (Woken (length (sh_wakers s))) s1 = Inr s2" "q (nc_chan (sh_ch s2)) = q (nc_chan (sh_ch s)) @ [ev]"
      "sh_bufs s2 = sh_bufs s" "sh_trace s2 = sh_trace s"
      "sh_wakers s2 = sh_wakers s @ [Some \<lparr>ao_used = True, ao_value = waker_of ev\<rparr>]" by auto
  have "s2\<lparr>sh_wakers := sh_wakers s2\<rparr> = s2" by simp
  then have "do_waker_act D (Woken (length (sh_wakers s))) s2 = Inr s2" using s2(5) by (simp add: nth_append)
  with s1 s2 show ?thesis by simp
qed

theorem parked_request_returns_witness:
  "\<exists>s1 s2. handle_transfer net (Read 0 0 0) (run_accepted [] []) = Inr s1 \<and> do_waker_act net (Woken 1) s1 = Inr s2 \<and>
    fst (nc_chan (sh_ch s2)) = [Read 0 0 0]"
proof -
  have "must_wait net (Read 0 0 0) (run_accepted [] [])"
    by (simp add: run_accepted_def run_stack_def net_stack_def get_tcp_def net_simps net_sock_def)
  from parked_request_returns[OF deps_lawsD(1)[OF net_laws] this] show ?thesis
    by (auto simp: run_accepted_def run_stack_def net_stack_def)
qed

text \<open>C30 (error). A second read of a stream that has to wait displaces the first: a socket of smoltcp holds one receive waker, and when it
  drops the closure of the first read for that of the second, the first request is gone. It is not queued again
  but hung up, after its buffer reference was dropped, and the first read fails with a broken pipe whose text says that the stack
  or the generator may have been dropped, while both are there. Its buffer comes back.\<close>

theorem second_read_displaces_first:
  assumes "would_wait D [Released w] (Read h b t) s" "w < length (sh_wakers s)"
    and "sh_wakers s ! w = Some (wake_once_fn (Wake_read h b0 t0))"
    and "sh_bufs s b0 = Some \<lparr>arc_strong = 2, arc_data = \<lparr>sb_inner = buf\<rparr>\<rparr>"
  shows "\<exists>s1 s2. handle_tcp_wake_event D (Read h b t) s = Inr s1 \<and> sh_ch s1 = sh_ch s \<and>
    sh_wakers s1 = (sh_wakers s)[w := None] @ [Some (wake_once_fn (Wake_read h b t))] \<and>
    sh_trace s1 = sh_trace s @ [Dropped_buf b0, Hung_up t0] \<and>
    read_finish b0 None s1 = Inr (Inl (Error_new BrokenPipe
      ''TcpStack or EventGenerator may be dropped, receive read operation response failed''), buf, s2)"
proof -
  obtain ss' where "handle_transfer D (Read h b t) s =
      do_waker_acts D [Released w] (s\<lparr>sh_wakers := sh_wakers s @ [Some (wake_once_fn (Wake_read h b t))], st_socket_set := ss'\<rparr>)"
    using transfer_parks[OF assms(1)] by auto
  with assms(2-4) show ?thesis
    by (auto simp: handle_transfer_def do_waker_acts_def nth_append list_update_append atomic_drop_def wake_once_fn_def drop_tx_def
      drop_buf_def arc_drop_def read_finish_def finish_with_def cast_mut cast_dyn_io_buf_def arc_into_inner_def sb_into_inner_def
      simp del: handle_tcp_wake_event.simps)
qed

definition run_two :: "(net_chan, bool option, net_buf, net_set, ip_cidr list, nat) tcp_stack" where
  "run_two = (run_accepted [] [])\<lparr>
     sh_wakers := sh_wakers (run_accepted [] []) @ [Some (wake_once_fn (Wake_read 0 0 0))],
     st_socket_set := [Some (Socket_Tcp (net_sock\<lparr>nt_rx := [], nt_send_waker := Some 0, nt_recv_waker := Some 1\<rparr>))],
     sh_bufs := [0 \<mapsto> \<lparr>arc_strong = 2, arc_data = \<lparr>sb_inner = run_buf\<rparr>\<rparr>, 1 \<mapsto> \<lparr>arc_strong = 2, arc_data = \<lparr>sb_inner = run_buf\<rparr>\<rparr>]\<rparr>"

theorem second_read_displaces_first_witness:
  "\<exists>s1 s2. handle_tcp_wake_event net (Read 0 1 1) run_two = Inr s1 \<and> Hung_up 0 \<in> set (sh_trace s1) \<and>
    read_finish 0 None s1 = Inr (Inl (Error_new BrokenPipe
      ''TcpStack or EventGenerator may be dropped, receive read operation response failed''), run_buf, s2)"
proof -
  have "would_wait net [Released 1] (Read 0 1 1) run_two"
    by (simp add: run_two_def run_accepted_def run_stack_def net_stack_def get_tcp_def net_simps net_sock_def)
  from second_read_displaces_first[OF this, of 0 0 run_buf] show ?thesis
    by (auto simp: run_two_def run_accepted_def run_stack_def net_stack_def)
qed

section \<open>A new UDP flow\<close>

lemma registry_udp_endpoint:
  assumes "registry D s h = Some (Flow_udp (Some a))"
  obtains u ip port where "get_udp D h s = Inr u" "u_endpoint (d_udp D) u = (Some ip, port)" "SocketAddr_new ip port = a"
proof -
  obtain u where u: "get_udp D h s = Inr u" "udp_addr (d_udp D) u = Some a"
    using assms by (auto simp: registry_udp)
  then show thesis using that by (auto simp: udp_addr_def split: prod.split_asm option.split_asm)
qed

text \<open>C26 (roundtrip). The address of a new UDP flow survives its way through the stack: the first packet to a
  destination that can be bound opens a socket and queues a \<open>Ready\<close> request for it; handling that request
  makes the acceptor yield a socket with that handle whose peer is exactly the destination of the
  packet.\<close>

theorem udp_flow_roundtrip:
  assumes laws: "deps_laws D q tx rx" and inv: "stack_inv D s" and dst: "addr_normal dst"
    and new: "dst \<notin> st_accepted_udp_sockets s" and bind: "u_bind (d_udp D) dst (create_udp_socket (d_udp D) SOCKET_BUF_SIZE) = Inr sock"
    and rx: "rx (nc_chan (sh_ch s))" and ac: "ac_taken ac = length (st_udp_stream_tx s)"
  shows "\<exists>h s1 s2 us ac'. try_init_udp D dst s = (Inr True, s1) \<and>
    q (nc_chan (sh_ch s1)) = q (nc_chan (sh_ch s)) @ [Ready (Typed_Udp h)] \<and>
    handle_ready_wake_event D (Typed_Udp h) s1 = Inr s2 \<and>
    udp_poll_next ac True s2 = (Poll_ready (Some (Inr us)), ac') \<and> us_handle us = h \<and> udp_peer_addr us = dst \<and>
    fst (udp_poll_next ac' True s2) = Pending"
proof -
  obtain res s1 where r: "try_init_udp D dst s = (res, s1)" by fastforce
  have "\<not> (\<exists>h. registry D s h = Some (Flow_udp (Some dst)))" using new inv by (simp add: stack_inv_def udp_addrs_def)
  with try_init_udp_spec[OF laws inv dst r] bind rx obtain h where
    h: "res = Inr True" "registry D s1 = (registry D s)(h \<mapsto> Flow_udp (Some dst))"
      "q (nc_chan (sh_ch s1)) = q (nc_chan (sh_ch s)) @ [Ready (Typed_Udp h)]" by auto
  have "registry D s1 h = Some (Flow_udp (Some dst))" using h(2) by simp
  then obtain u ip port where u: "get_udp D h s1 = Inr u" "u_endpoint (d_udp D) u = (Some ip, port)" "SocketAddr_new ip port = dst"
    by (rule registry_udp_endpoint)
  have "st_udp_stream_tx s1 = st_udp_stream_tx s" using try_init_udp_outer[OF r] by (simp add: outer_def)
  with r h u ac show ?thesis
    by (auto simp: handle_ready_wake_event_def udp_poll_next_def udp_peer_addr_def)
qed

theorem udp_flow_roundtrip_witness:
  "\<exists>h s1 s2 us ac'. try_init_udp net (SocketAddrV4 9 53) net_stack = (Inr True, s1) \<and>
    handle_ready_wake_event net (Typed_Udp h) s1 = Inr s2 \<and>
    udp_poll_next \<lparr>ac_taken = 0\<rparr> True s2 = (Poll_ready (Some (Inr us)), ac') \<and> udp_peer_addr us = SocketAddrV4 9 53"
proof -
  have inv: "stack_inv net net_stack"
    using sys_invD(1)[OF sys_reach_inv[OF net_laws net_poll_laws sys_start[OF net_build]]] by (simp add: sys_init_def)
  obtain sock where b: "u_bind (d_udp net) (SocketAddrV4 9 53) (create_udp_socket (d_udp net) SOCKET_BUF_SIZE) = Inr sock"
    by (simp add: net_simps create_udp_socket_def)
  have "addr_normal (SocketAddrV4 9 53)" "SocketAddrV4 9 53 \<notin> st_accepted_udp_sockets net_stack"
    "snd (snd (nc_chan (sh_ch net_stack)))" "ac_taken \<lparr>ac_taken = 0\<rparr> = length (st_udp_stream_tx net_stack)"
    by (simp_all add: addr_normal_def net_stack_def)
  from udp_flow_roundtrip[OF net_laws inv this(1,2) b this(3,4)] show ?thesis by blast
qed

end
