(* ===== verification/Batches.thy ===== *)
theory Batches
  imports System_Claims
begin

text \<open>
  The event generator inside the composed system. A request is put into the channel by a user, by the stack itself or by a
  closure that smoltcp wakes; in every reachable state the generator notices what is in the channel, so that
  polling it hands all of it out.
\<close>

section \<open>The generator is notified\<close>

text \<open>The invariant of \<^verbatim>\<open>wait\<close> with the generator at \<open>pc\<close> and no send half done.\<close>

definition notices ::
  "('c, 'e, 'l, 'b, 'y) shared_deps_scheme \<Rightarrow> ('c \<Rightarrow> operation_event list) \<Rightarrow> ('c \<Rightarrow> bool) \<Rightarrow> ('c \<Rightarrow> bool) \<Rightarrow> ('e \<Rightarrow> 'l set)
   \<Rightarrow> ('e \<Rightarrow> 'l \<Rightarrow> bool) \<Rightarrow> 'l wait_pc \<Rightarrow> ('c, 'e, 'b, 'z) shared_scheme \<Rightarrow> bool" where
  "notices D q tx rx active notified pc s \<longleftrightarrow> crossbeam_laws (d_cb D) q tx rx \<and> event_laws (d_ev D) active notified \<and>
     wait_inv q active notified \<lparr>ws_pc = pc, ws_ch = sh_ch s, ws_inflight = 0\<rparr>"

lemma notices_send:
  assumes n: "notices D q tx rx active notified pc s" and s: "send_event D ev s = (r, s')"
  shows "notices D q tx rx active notified pc s' \<and> (r = Sent \<or> r = SendError ev)"
proof (cases "cb_send (d_cb D) ev (nc_chan (sh_ch s))")
  case (Inl ev')
  with n s crossbeam_send_errD[of "d_cb D" q tx rx] show ?thesis
    by (auto simp: notices_def send_event_def notify_send_def)
next
  case (Inr c')
  let ?w = "\<lparr>ws_pc = pc, ws_ch = sh_ch s, ws_inflight = 0\<rparr>"
  have C: "crossbeam_laws (d_cb D) q tx rx" and E: "event_laws (d_ev D) active notified" and w: "wait_inv q active notified ?w"
    using n by (simp_all add: notices_def)
  have p: "wait_sys_step (d_cb D) (d_ev D) ?w (?w\<lparr>ws_ch := (ws_ch ?w)\<lparr>nc_chan := c'\<rparr>, ws_inflight := Suc (ws_inflight ?w)\<rparr>)"
    by (rule push) (use Inr in simp)
  from wait_step_inv[OF C E notify[of _ 0] wait_step_inv[OF C E p w]] n Inr s show ?thesis
    by (auto simp: notices_def send_event_def notify_send_def)
qed

interpretation noticed: stack_effects D "notices D q tx rx active notified pc" "\<lambda>_ _. True" "\<lambda>_. True"
proof
  fix s ev r s'
  assume "notices D q tx rx active notified pc s" "send_event D ev s = (r, s')"
  then show "notices D q tx rx active notified pc s' \<and> (r = Sent \<or> r = SendError ev)" by (rule notices_send)
qed (simp_all add: notices_def)

text \<open>The generator's own steps.\<close>

lemma notices_poll:
  assumes n: "notices D q tx rx active notified pc s" and g: "generate_poll (d_cb D) (d_ev D) (pc, sh_ch s) = Some (r, pc', ch')"
  shows "notices D q tx rx active notified pc' (s\<lparr>sh_ch := ch'\<rparr>)"
proof -
  let ?w = "\<lparr>ws_pc = pc, ws_ch = sh_ch s, ws_inflight = 0\<rparr>"
  have C: "crossbeam_laws (d_cb D) q tx rx" and E: "event_laws (d_ev D) active notified" and w: "wait_inv q active notified ?w"
    using n by (simp_all add: notices_def)
  obtain pc1 ch1 where 1: "wait_step (d_cb D) (d_ev D) (pc, sh_ch s) = (pc1, ch1)" by fastforce
  with wait_turn_inv[OF C E w] have inv: "wait_inv q active notified \<lparr>ws_pc = pc1, ws_ch = ch1, ws_inflight = 0\<rparr>"
    by (simp add: wait_turn_def)
  show ?thesis
  proof (cases "pc1 = W_returned")
    case True
    with g 1 have "pc' = W_returned" "nc_event ch' = nc_event ch1"
      using collect_nonblock_all[OF C, of ch1] by (auto simp: generate_poll_def split: option.split_asm prod.split_asm sum.split_asm)
    with True inv C E show ?thesis by (simp add: notices_def wait_inv_def)
  next
    case False
    with g 1 have "pc' = pc1" "ch' = ch1" by (auto simp: generate_poll_def split: wait_pc.split_asm)
    with inv C E show ?thesis by (simp add: notices_def)
  qed
qed

lemma notices_top: "notices D q tx rx active notified W_returned s \<Longrightarrow> notices D q tx rx active notified W_top s"
  by (simp add: notices_def wait_inv_def)

lemma generate_pcs:
  assumes "generate_poll C E (pc, ch) = Some (r, pc', ch')"
  shows "r = Pending \<Longrightarrow> pc' \<noteq> W_returned" "r = Poll_ready x \<Longrightarrow> pc' = W_returned"
  using assms by (auto simp: generate_poll_def split: wait_pc.split_asm option.split_asm prod.split_asm sum.split_asm)

section \<open>Every reachable state\<close>

definition attentive ::
  "('c, 'e, 'l, 'b, 'tcp, 'udp, 'ss, 'if, 'cap, 'ck) stack_deps \<Rightarrow> ('c \<Rightarrow> operation_event list) \<Rightarrow> ('c \<Rightarrow> bool) \<Rightarrow> ('c \<Rightarrow> bool)
   \<Rightarrow> ('e \<Rightarrow> 'l set) \<Rightarrow> ('e \<Rightarrow> 'l \<Rightarrow> bool) \<Rightarrow> ('c, 'e, 'l, 'b, 'ss, 'if, 'cap) sys \<Rightarrow> bool" where
  "attentive D q tx rx active notified y \<longleftrightarrow> (sy_listening y \<longrightarrow>
     notices D q tx rx active notified (sy_generator y) (sy_stack y) \<and> sy_generator y \<noteq> W_returned)"

lemma user_step_generator: "user_step D y y' \<Longrightarrow> sy_generator y' = sy_generator y \<and> sy_listening y' = sy_listening y"
  by (cases rule: user_step.cases) auto

lemma attentive_step:
  assumes C: "crossbeam_laws (d_cb D) q tx rx" and step: "sys_step D y y'" and a: "attentive D q tx rx active notified y"
  shows "attentive D q tx rx active notified y'"
  using step
proof cases
  case user
  with a user_step_generator[OF user] noticed.user_step_I[OF C TrueI any_ok(1) any_ok(1) user] show ?thesis
    by (simp add: attentive_def)
next
  case (generate_pending pc ch)
  with a notices_poll[OF _ generate_pending(3)] generate_pcs(1)[OF generate_pending(3)] show ?thesis by (simp add: attentive_def)
next
  case (generate_ready evs pc ch)
  with a notices_poll[OF _ generate_ready(3)] generate_pcs(2)[OF generate_ready(3)] show ?thesis
    by (auto simp: attentive_def intro: notices_top)
next
  case (turn bs evs bs' now packet r s')
  with a noticed.drive_once_I[OF _ _ turn(4)] show ?thesis by (simp add: attentive_def)
next
  case (idle_turn now packet r s')
  with a noticed.drive_once_I[OF _ _ idle_turn(3)] show ?thesis by (simp add: attentive_def)
next
  case (discard bs evs bs')
  with a noticed.drop_events_I show ?thesis by (auto simp: attentive_def)
next
  case (drop_stack ws s')
  with a noticed.stack_drop_I[OF drop_stack(4)] show ?thesis by (simp add: attentive_def)
qed (simp add: attentive_def)

lemma attentive_reach:
  assumes laws: "deps_laws D q tx rx" "event_laws (d_ev D) active notified" and "sys_reach D y"
  shows "attentive D q tx rx active notified y"
  using assms(3)
proof (induction rule: sys_reach.induct)
  case (sys_start seed now b s ta ua)
  obtain v4 v6 n m k where "stack_new D seed now v4 v6 n m k = Inr (Inr (s, ta, ua))"
    using sys_start by (rule build_okE)
  then have "sh_ch s = notify_new (d_cb D) (d_ev D)"
    by (auto simp: stack_new_def Let_def elim!: obind_InrE split: sum.split_asm)
  with wait_reach_inv[OF deps_lawsD(1)[OF laws(1)] laws(2) wait_start] deps_lawsD(1)[OF laws(1)] laws(2) show ?case
    by (simp add: attentive_def notices_def sys_init_def wait_init_def)
next
  case (sys_next y y')
  then show ?case using attentive_step[OF deps_lawsD(1)[OF laws(1)]] by blast
qed

section \<open>Two polls\<close>

text \<open>At the two checks of \<^verbatim>\<open>wait\<close> a poll hands out what is in the channel; elsewhere the next poll is at a check.\<close>

definition at_check :: "'l wait_pc \<Rightarrow> bool" where
  "at_check pc \<longleftrightarrow> pc = W_top \<or> (\<exists>l. pc = W_recheck l)"

lemma check_collects:
  assumes C: "crossbeam_laws C q tx rx" and pc: "at_check pc" and ne: "q (nc_chan ch) \<noteq> []" and tx: "tx (nc_chan ch)"
  shows "\<exists>ch'. generate_poll C E (pc, ch) = Some (Poll_ready (Inr \<lparr>events_list = q (nc_chan ch)\<rparr>), W_returned, ch') \<and>
    q (nc_chan ch') = []"
proof -
  obtain ch1 where "wait_step C E (pc, ch) = (W_returned, ch1)" "nc_chan ch1 = nc_chan ch"
    using pc ne crossbeam_is_empty[OF C] by (auto simp: at_check_def)
  with collect_nonblock_all[OF C, of ch1] tx show ?thesis by (auto simp: generate_poll_def)
qed

lemma suspended_checks:
  assumes n: "notices D q tx rx active notified pc s" and ne: "q (nc_chan (sh_ch s)) \<noteq> []" and pc: "\<not> at_check pc" "pc \<noteq> W_returned"
  shows "\<exists>pc' ch'. generate_poll (d_cb D) (d_ev D) (pc, sh_ch s) = Some (Pending, pc', ch') \<and> at_check pc' \<and>
    nc_chan ch' = nc_chan (sh_ch s)"
proof (cases pc)
  case W_listen
  then show ?thesis by (auto simp: generate_poll_def at_check_def split: prod.split)
next
  case (W_await l)
  with n ne have "event_laws (d_ev D) active notified" "active (nc_event (sh_ch s)) = {l}" "notified (nc_event (sh_ch s)) l"
    by (simp_all add: notices_def wait_inv_def)
  then obtain e' where "el_poll (d_ev D) l (nc_event (sh_ch s)) = (True, e')" using event_poll_ready by metis
  with W_await show ?thesis by (simp add: generate_poll_def at_check_def)
qed (use pc in \<open>simp_all add: at_check_def\<close>)

text \<open>The state after the generator has handed out \<open>evs\<close>.\<close>

abbreviation handed_out ::
  "events \<Rightarrow> ('c, 'e) notify_channel \<Rightarrow> ('c, 'e, 'l, 'b, 'ss, 'if, 'cap) sys \<Rightarrow> ('c, 'e, 'l, 'b, 'ss, 'if, 'cap) sys" where
  "handed_out evs ch y \<equiv>
     y\<lparr>sy_stack := (sy_stack y)\<lparr>sh_ch := ch\<rparr>, sy_batches := sy_batches y @ [evs], sy_generator := W_top\<rparr>"

lemma check_hands_out:
  assumes "crossbeam_laws (d_cb D) q tx rx" "sy_listening y" "at_check (sy_generator y)"
    and "q (nc_chan (sh_ch (sy_stack y))) \<noteq> []" "tx (nc_chan (sh_ch (sy_stack y)))"
  shows "\<exists>ch'. sys_step D y (handed_out \<lparr>events_list = q (nc_chan (sh_ch (sy_stack y)))\<rparr> ch' y) \<and> q (nc_chan ch') = []"
  using check_collects[OF assms(1,3-5), where E = "d_ev D"] generate_ready[OF assms(2), of D] by meson

text \<open>
  C9 (liveness). Every request reaches a batch: in every state that the program can reach, while the generator is there, at
  most two polls of it end with a batch that holds all requests of the channel, in the order in which they
  were sent, and with an empty channel, wherever it is suspended. Nothing else has to happen in between, and
  nothing else of the program changes.
\<close>
theorem requests_reach_a_batch:
  assumes laws: "deps_laws D q tx rx" "event_laws (d_ev D) active notified"
    and reach: "sys_reach D y" and listening: "sy_listening y" and ne: "q (nc_chan (sh_ch (sy_stack y))) \<noteq> []"
  shows "\<exists>n\<le>2. \<exists>ch'. (sys_step D ^^ n) y (handed_out \<lparr>events_list = q (nc_chan (sh_ch (sy_stack y)))\<rparr> ch' y) \<and>
    q (nc_chan ch') = []"
proof -
  note C = deps_lawsD(1)[OF laws(1)]
  have tx: "tx (nc_chan (sh_ch (sy_stack y)))" using senders_left[OF laws(1) reach] by (simp add: open_chan_def)
  have n: "notices D q tx rx active notified (sy_generator y) (sy_stack y)" "sy_generator y \<noteq> W_returned"
    using attentive_reach[OF laws reach] listening by (simp_all add: attentive_def)
  show ?thesis
  proof (cases "at_check (sy_generator y)")
    case True
    from check_hands_out[OF C listening True ne tx] obtain ch' where
      "sys_step D y (handed_out \<lparr>events_list = q (nc_chan (sh_ch (sy_stack y)))\<rparr> ch' y)" "q (nc_chan ch') = []" by blast
    then show ?thesis by (intro exI[of _ 1] conjI exI[of _ ch']) (auto simp: relcompp.simps)
  next
    case False
    from suspended_checks[OF n(1) ne False n(2)] obtain pc ch where
      p: "generate_poll (d_cb D) (d_ev D) (sy_generator y, sh_ch (sy_stack y)) = Some (Pending, pc, ch)" and
      at: "at_check pc" "nc_chan ch = nc_chan (sh_ch (sy_stack y))" by blast
    let ?y = "y\<lparr>sy_stack := (sy_stack y)\<lparr>sh_ch := ch\<rparr>, sy_generator := pc\<rparr>"
    from check_hands_out[OF C, of ?y] listening ne tx at obtain ch' where
      "sys_step D ?y (handed_out \<lparr>events_list = q (nc_chan (sh_ch (sy_stack y)))\<rparr> ch' y)" "q (nc_chan ch') = []" by auto
    with generate_pending[OF listening p] show ?thesis
      by (intro exI[of _ 2] conjI exI[of _ ch']) (auto simp: numeral_2_eq_2)
  qed
qed

theorem requests_reach_a_batch_witness:
  "\<exists>n\<le>2. \<exists>ch'. (sys_step net ^^ n) (run_at (run_reading [Read 0 0 0]) [] [run_future] [run_stream] 1 {0})
     (handed_out \<lparr>events_list = [Read 0 0 0]\<rparr> ch' (run_at (run_reading [Read 0 0 0]) [] [run_future] [run_stream] 1 {0})) \<and>
     fst (nc_chan ch') = []"
proof -
  have "event_laws (d_ev net) (\<lambda>e. if e = None then {} else {()}) (\<lambda>e l. e = Some True)"
    using slot_event_laws by (simp add: net_def)
  from requests_reach_a_batch[OF net_laws this run_started] show ?thesis by (simp add: run_chans)
qed

end
