(* ===== verification/Spec2Isabelle.thy ===== *)
theory Spec2Isabelle
  imports Example_Programs Host_Packets Contract_Claims Transfer_Claims Ownership Batches
begin

text \<open>
  A verification development for the Rust crate \<^verbatim>\<open>l3_extract\<close>, a user-space TCP and UDP stack: raw
  layer-3 packets go in, asynchronous streams and sockets come out. File names below are relative to the
  repository.

  \<^bold>\<open>The program.\<close> The host (\<^verbatim>\<open>run_stack\<close> of the examples) reads packets from a tun device and passes
  them to \<^verbatim>\<open>TcpStack::drive_once\<close>. The stack looks at each packet: a TCP SYN or a UDP datagram for an
  unknown destination opens a socket in smoltcp's socket set. It then polls smoltcp through a virtual
  interface of two packet queues, handles the batch of requests it was given, and returns the packets to
  be written. Users hold \<^verbatim>\<open>TcpStream\<close>s and \<^verbatim>\<open>UdpSocket\<close>s, which the two acceptors yield. An operation puts
  its buffer behind a reference count, sends a request with a second reference and the sending half of a
  result channel, and waits on the other half. The stack fills or reads the buffer, drops its reference
  and answers, or, when smoltcp is not ready, parks the request in a one-shot waker of the socket; when
  smoltcp wakes it, the request goes back into the channel. The event generator collects the requests
  of the channel in batches for the next turn. When the answer arrives, the operation takes its buffer
  back with an unchecked cast and an \<^verbatim>\<open>expect\<close> on the reference count. That these casts are sound under every order of
  events is the main result.

  \<^bold>\<open>Theories and sources.\<close>

    \<^item> \<^verbatim>\<open>Prelude\<close>: words, addresses and errors of the standard library, panics as values (\<open>outcome\<close>, with
      \<open>obind\<close>), runs of step relations, and shared lemmas.
    \<^item> \<^verbatim>\<open>Wake_Fn\<close>: \<^verbatim>\<open>src/wake_fn.rs\<close>, the one-shot cell, sequentially and under every interleaving of
      threads. \<open>take\<close> is its atomic exchange and its read, and the threads may be interrupted between the two.
    \<^item> \<^verbatim>\<open>Notify_Channel\<close>: \<^verbatim>\<open>src/notify_channel.rs\<close>, sending, collecting, and \<^verbatim>\<open>wait\<close> as a state machine
      with one step per check and suspension point.
    \<^item> \<^verbatim>\<open>Virtual_Interface\<close>: \<^verbatim>\<open>src/virtual_interface.rs\<close>, the device and its two tokens. The locale
      \<open>packet_device\<close> is what smoltcp may rely on; it is interpreted on the model of the device.
    \<^item> \<^verbatim>\<open>Shared_Buf\<close>: \<^verbatim>\<open>src/shared_buf.rs\<close>, with a store of reference-counted cells for \<^verbatim>\<open>Arc\<close>.
    \<^item> \<^verbatim>\<open>Event\<close>: \<^verbatim>\<open>src/tcp_stack/event.rs\<close>, the requests, batches and the event generator.
    \<^item> \<^verbatim>\<open>Packet\<close>: \<^verbatim>\<open>parse_packet\<close> of \<^verbatim>\<open>src/tcp_stack/mod.rs\<close>, next to a version-independent reference
      definition.
    \<^item> \<^verbatim>\<open>Shared\<close>: the state the stack shares with users and wakers, and the seven closures passed to
      \<^verbatim>\<open>wake_once_fn\<close>, one constructor each with its captured variables.
    \<^item> \<^verbatim>\<open>Smoltcp\<close>: the interface of smoltcp, as far as the sources call it.
    \<^item> \<^verbatim>\<open>Stack\<close> and \<^verbatim>\<open>Builder\<close>: the rest of \<^verbatim>\<open>src/tcp_stack/mod.rs\<close>. The record \<open>tcp_stack\<close> has the fields
      of \<^verbatim>\<open>TcpStack\<close>; each method is one definition of the same name, from \<open>handle_tcp_wake_event\<close> up to
      \<open>drive_once\<close>; \<open>build\<close> and \<open>stack_new\<close> are the builder and the constructor.
    \<^item> \<^verbatim>\<open>Streams\<close>: \<^verbatim>\<open>src/tcp_stack/tcp.rs\<close> and \<^verbatim>\<open>src/tcp_stack/udp.rs\<close>. An \<^verbatim>\<open>async fn\<close> is split at its
      suspension point into a start and a finish; \<^verbatim>\<open>write_all\<close> and \<^verbatim>\<open>read_exact\<close> are loops over an awaited
      call.
    \<^item> \<^verbatim>\<open>Host\<close>: \<^verbatim>\<open>run_stack\<close> of \<^verbatim>\<open>examples/echo.rs\<close>, the same function in the other three examples. Each of
      the four tasks is one definition, \<open>host_step\<close> interleaves them with the users.
    \<^item> \<^verbatim>\<open>Tun_Setup\<close> and \<^verbatim>\<open>Example_Programs\<close>: the rest of \<^verbatim>\<open>examples/\<close> up to the sessions. \<^verbatim>\<open>create_tun\<close> and \<^verbatim>\<open>init_tun\<close>, in the version
      of \<^verbatim>\<open>echo.rs\<close> for both versions of IP and in the one of the other examples, and the \<^verbatim>\<open>main\<close> functions until the tasks run.

  The other theories hold the proofs. \<^verbatim>\<open>Accounting\<close> says where a request can be and what an action log
  means. \<^verbatim>\<open>Stack_Inv\<close> has the abstract registry of flows, the invariant \<open>stack_inv\<close> and the lemmas on each
  handler; \<^verbatim>\<open>Stack_Turn\<close> lifts them to the loops over a batch, once in the locale \<open>worklist\<close> that is
  interpreted on the three passes, and to the whole turn. \<^verbatim>\<open>Effects\<close> states in the locale \<open>handler_effects\<close>
  what the handlers may do to the shared state, under a contract for requests and wakers; an invariant that survives these
  effects survives whole turns, and by \<^verbatim>\<open>Progress\<close> the steps of users and generator. The locale \<open>stack_effects\<close> is the
  simpler contract of an invariant that sees only some parts of the state; it gives the first one by a sublocale. The
  two are interpreted for a closed and for an open channel, in \<^verbatim>\<open>Lending\<close>
  for the content of a lent buffer and for the log, in \<^verbatim>\<open>Batches\<close> for the notified generator, and in \<^verbatim>\<open>Contracts\<close> for what an operation
  was promised.
  \<^verbatim>\<open>System\<close> composes users, generator and stack into the step relation \<open>sys_step\<close>, with its invariant;
  dropping the stack, the generator, an acceptor or a batch is a step too. \<^verbatim>\<open>Progress\<close> has two more invariants of that
  system, \<^verbatim>\<open>Lending\<close> and \<^verbatim>\<open>Contracts\<close> follow one buffer through its runs. \<^verbatim>\<open>Whole_Buffers\<close> runs \<^verbatim>\<open>write_all\<close> and \<^verbatim>\<open>read_exact\<close> as tasks of
  the system: \<open>whole\<close> is one such task with anything happening while a call is suspended, and the locale
  \<open>usize_call\<close>, interpreted on \<^verbatim>\<open>write\<close> and on \<^verbatim>\<open>read\<close>, has what the two loops share. \<^verbatim>\<open>Ownership\<close> has who owns the sockets.

  A turn is one step of \<open>sys_step\<close>, but the stack runs on a thread of its own. What a user on another thread can
  see of a turn is what happens to buffers and result channels, and the log of the turn has these events in the order of the
  code. \<^verbatim>\<open>Moments\<close> cuts the log at any point: \<open>at_moment n\<close> is the state after the first \<open>n\<close> events, with the reference
  counts of that moment, and the property on the casts speaks about every such moment. \<^verbatim>\<open>Host_Packets\<close> follows the packets from the tun
  device through tasks, channels and stack into smoltcp, and back.

  \<^verbatim>\<open>Stack_Claims\<close>, \<^verbatim>\<open>System_Claims\<close>, \<^verbatim>\<open>Transfer_Claims\<close>,
  \<^verbatim>\<open>Lending_Claims\<close>, \<^verbatim>\<open>Contract_Claims\<close>, \<^verbatim>\<open>Ownership\<close>, \<^verbatim>\<open>Batches\<close>, \<^verbatim>\<open>Host_Packets\<close>, \<^verbatim>\<open>Example_Programs\<close> and the theories of the small components state the properties; \<^verbatim>\<open>Sample_Net\<close> is an in-memory
  implementation of all libraries of the crate, on which the witnesses run.

  \<^bold>\<open>What is shown.\<close>

    \<^item> Of the composed program, in every reachable state: resuming an operation that was answered or
      hung up never panics, and not in the middle of a turn either; every result channel is answered or hung up exactly once or its request is
      under way in exactly one place; no buffer leaks; the
      registry of sockets and addresses agrees with smoltcp's socket set; the next turn does not panic
      but for two \<^verbatim>\<open>expect\<close> calls on the endpoints of a connected socket, which smoltcp has to answer for; what a
      user holds or can still accept has a socket of its own; two polls of the generator put every request of the channel
      into a batch; when stack and generator are gone, no operation waits for ever.
    \<^item> Of one operation, whatever the rest of the program does while it is suspended: it returns, and its answer and its
      buffer are what one call of smoltcp on that buffer gave. From this, \<^verbatim>\<open>write_all\<close> hands smoltcp the bytes of its buffer once
      and in order, and \<^verbatim>\<open>read_exact\<close> fills its buffer with the bytes taken, in order.
    \<^item> Of a turn: it keeps the invariant, conserves requests, and neither loses, duplicates nor reorders
      packets; its error path is characterised; a batch is equivalent to three passes in order of
      arrival; opening and closing flows refine operations on the abstract registry.
    \<^item> Of a lent buffer: the buffer of a write comes back as it was handed over, and a buffer whose operation was
      answered stays as it is until the operation takes it.
    \<^item> Of a dropped acceptor: what was announced to it and not taken stays in the stack for ever.
    \<^item> Of the data path: what read, write and recv deliver; a parked request comes back unchanged once;
      a second read that has to wait displaces the first, whose caller gets an error; the TCP acceptor yields
      each connection with its two ends; the first packet of a UDP flow determines the peer address of the socket that the UDP acceptor yields.
    \<^item> Of the loops: \<^verbatim>\<open>collect_nonblock\<close>, \<^verbatim>\<open>write_all\<close> and \<^verbatim>\<open>read_exact\<close> end, the last two after at most one
      call per byte.
    \<^item> Of the building blocks: the closure of a waker runs or is dropped once; \<^verbatim>\<open>wait\<close> loses no wake-up;
      the device is two FIFO queues; a packet asks for a socket exactly when it should.
    \<^item> Of the host: its four tasks refine the composed system, so that all of the above holds of them, and they
      carry packets between the device and smoltcp without loss, duplication or reordering, within the bounds of the MTU.
    \<^item> Of the example programs: they set up the interface in an order that the kernel accepts, with gateways it can reach; their tasks
      start in a state that the system's invariant covers; kernel and stack agree on the addresses.

  \<^bold>\<open>Parameters.\<close> Code of other crates is an argument: crossbeam and event_listener (\<^verbatim>\<open>Notify_Channel\<close>), bytes
  (\<^verbatim>\<open>Virtual_Interface\<close>), compio_buf (\<^verbatim>\<open>Shared_Buf\<close>), smoltcp's headers (\<^verbatim>\<open>Packet\<close>), sockets, socket set and
  interface (\<^verbatim>\<open>Smoltcp\<close>) and the tun device (\<^verbatim>\<open>Host\<close>). The record \<open>stack_deps\<close> collects those of the crate. The
  examples have, over a world of their own, the crates tun, rtnetlink, rustix and tracing (\<^verbatim>\<open>Tun_Setup\<close>) and the runtime (\<^verbatim>\<open>Example_Programs\<close>). What is
  assumed of them are the predicates \<open>crossbeam_laws\<close>, \<open>event_laws\<close>, \<open>bytes_laws\<close>, \<open>io_laws\<close>, \<open>set_laws\<close>,
  \<open>udp_laws\<close>, \<open>iface_laws\<close> and \<open>tun_laws\<close>, which state documented behaviour only; \<open>deps_laws\<close> bundles
  those of the stack. The properties of whole buffers assume \<open>transfer_laws\<close> of the sockets and \<open>slice_laws\<close> of the buffers; the way of the packets is told by \<open>wire_tap\<close>, what a poll of smoltcp
  took and sent, and \<open>tun_history\<close>, what was read from and written to the device; the set-up of the examples assumes \<open>kernel_laws\<close>. The clock reading and the random seed are arguments of the functions that take them. The unbounded channels of flume, also
  those of the two acceptors, are modelled as the queues that its documentation describes, as far as the sources use them.

  \<^bold>\<open>Conventions.\<close> A panic is the left value of an \<open>outcome\<close>; a Rust \<^verbatim>\<open>Result\<close> is a sum with the error on the
  left. A buffer is named by its \<^verbatim>\<open>Arc\<close> pointer, a result channel by a number; the caller of an operation
  chooses fresh names. The log \<open>sh_trace\<close> records what happens to buffers and result channels; no
  definition reads it. Sizes are \<^typ>\<open>nat\<close>: every \<^verbatim>\<open>usize\<close> that the sources compute is bounded by the
  length of a buffer in memory. Addresses and ports are words. No fuel is used: the loop of
  \<^verbatim>\<open>collect_nonblock\<close>, which depends on the channel, is a partial function that is proved to return; the
  other loops have a termination proof.

  \<^bold>\<open>Not modelled.\<close> Logging and the \<^verbatim>\<open>Debug\<close> implementations, which have no effect on the state;
  \<^verbatim>\<open>src/lib.rs\<close>, which only declares modules and re-exports; the drop of the last sender of the request channel as a
  step of the composed system: the stack, streams and parked wakers hold senders, and what \<^verbatim>\<open>wait\<close> and \<^verbatim>\<open>collect_nonblock\<close> do
  once all are gone is shown of the channel alone; the sessions of the examples, which talk through the TCP
  implementations of the kernel and of smoltcp and assert what arrives. The copies of \<^verbatim>\<open>run_stack\<close>, \<^verbatim>\<open>create_tun\<close> and \<^verbatim>\<open>init_tun\<close> in the other
  examples are the same text and have no definition of their own.
\<close>

end
